(* ===== verification/Prelude.thy ===== *)
theory Prelude
  imports Main
begin

text \<open>
  The prelude of the development: the outcome of a C function call, its sequencing operator,
  the rule collections the component proofs use, and the facts about lists and results that
  several components share. Nothing here models a file of the repository.
\<close>

section \<open>Outcomes of C code\<close>

text \<open>
  A C function either returns, or does something from which the caller never gets control
  back. \<open>Undef\<close> marks behaviour the C standard leaves undefined and names the reason;
  \<open>Exit\<close> is a call of \<open>exit\<close> with its status; \<open>Killed\<close> is the end of the process by the
  signal of that number; \<open>Blocked\<close> is a system call that never returns.
\<close>

datatype ub =
    Buffer_Overflow
  | Out_Of_Bounds
  | Null_Pointer
  | Uninitialised
  | Signed_Overflow

datatype stop = Undef ub | Exit int | Killed int | Blocked

abbreviation SIGPIPE :: int where "SIGPIPE \<equiv> 13"

type_synonym 'a res = "stop + 'a"

fun rbind :: "'a res \<Rightarrow> ('a \<Rightarrow> 'b res) \<Rightarrow> 'b res" where
  "rbind (Inl e) f = Inl e"
| "rbind (Inr x) f = f x"

definition map_res :: "('a \<Rightarrow> 'b) \<Rightarrow> 'a res \<Rightarrow> 'b res" where
  "map_res f r = rbind r (\<lambda>x. Inr (f x))"

abbreviation undef :: "ub \<Rightarrow> 'a res" where
  "undef u \<equiv> Inl (Undef u)"

named_theorems res_simps "evaluation of sequenced results"
named_theorems inv_intros "preservation of component invariants"

lemma map_res_simps [simp, res_simps]:
  "map_res f (Inl e) = Inl e"
  "map_res f (Inr x) = Inr (f x)"
  by (simp_all add: map_res_def)

lemma rbind_eq_Inr [simp]: "rbind r f = Inr y \<longleftrightarrow> (\<exists>x. r = Inr x \<and> f x = Inr y)"
  by (cases r) auto

lemma map_res_eq_Inr [simp]: "map_res f r = Inr y \<longleftrightarrow> (\<exists>x. r = Inr x \<and> f x = y)"
  by (cases r) auto

lemma map_res_eq_Inl [simp]: "map_res f r = Inl e \<longleftrightarrow> r = Inl e"
  by (cases r) auto

lemma rbind_eq_Inl: "rbind r f = Inl e \<longleftrightarrow> r = Inl e \<or> (\<exists>x. r = Inr x \<and> f x = Inl e)"
  by (cases r) auto

lemma rbind_cong [fundef_cong]:
  "r = r' \<Longrightarrow> (\<And>x. r' = Inr x \<Longrightarrow> f x = f' x) \<Longrightarrow> rbind r f = rbind r' f'"
  by (cases r') auto

lemma rbind_assoc: "rbind (rbind r f) g = rbind r (\<lambda>x. rbind (f x) g)"
  by (cases r) auto

section \<open>Results without undefined behaviour\<close>

text \<open>A result that is not undefined behaviour and satisfies the predicate when it is a value.\<close>

fun safe :: "('a \<Rightarrow> bool) \<Rightarrow> 'a res \<Rightarrow> bool" where
  "safe P (Inr x) = P x"
| "safe P (Inl (Undef u)) = False"
| "safe P (Inl (Exit n)) = True"
| "safe P (Inl (Killed n)) = True"
| "safe P (Inl Blocked) = True"

lemma safe_def: "safe P r \<longleftrightarrow> (\<forall>x. r = Inr x \<longrightarrow> P x) \<and> (\<forall>u. r \<noteq> undef u)"
  by (cases "(P, r)" rule: safe.cases) auto

lemma safe_bind:
  "safe P r \<Longrightarrow> (\<And>x. r = Inr x \<Longrightarrow> P x \<Longrightarrow> safe Q (f x)) \<Longrightarrow> safe Q (rbind r f)"
  by (cases r) (auto simp: safe_def)

lemma safe_Inl [simp]: "safe P (Inl e) \<longleftrightarrow> (\<forall>u. e \<noteq> Undef u)"
  by (cases e) auto

lemma safe_bind2:
  "safe (\<lambda>(a, b). P a b) r \<Longrightarrow> (\<And>a b. P a b \<Longrightarrow> safe Q (f a b)) \<Longrightarrow> safe Q (rbind r (\<lambda>(a, b). f a b))"
  by (cases r) auto

lemma safe_bind3:
  "safe (\<lambda>(a, b, c). P a b c) r \<Longrightarrow> (\<And>a b c. P a b c \<Longrightarrow> safe Q (f a b c)) \<Longrightarrow>
   safe Q (rbind r (\<lambda>(a, b, c). f a b c))"
  by (cases r) auto

lemma safe_map: "safe P r \<Longrightarrow> (\<And>x. P x \<Longrightarrow> Q (f x)) \<Longrightarrow> safe Q (map_res f r)"
  by (cases r) (auto simp: safe_def)

lemma safe_weaken: "safe P r \<Longrightarrow> (\<And>x. P x \<Longrightarrow> Q x) \<Longrightarrow> safe Q r"
  by (auto simp: safe_def)

section \<open>Counting loops\<close>

text \<open>The loop \<open>for (i = ...; ...; i++)\<close> over the listed indices, which stops at the first call
that does not return.\<close>

fun for_range :: "nat list \<Rightarrow> (nat \<Rightarrow> 's \<Rightarrow> 's res) \<Rightarrow> 's \<Rightarrow> 's res" where
  "for_range [] f s = Inr s"
| "for_range (i # is) f s = rbind (f i s) (for_range is f)"

lemma for_range_append:
  "for_range (is @ js) f s = rbind (for_range is f s) (for_range js f)"
proof (induction "is" arbitrary: s)
  case (Cons i "is")
  then show ?case by (cases "f i s") simp_all
qed simp

lemma for_range_total:
  "(\<And>i s. i \<in> set is \<Longrightarrow> f i s = Inr (g i s)) \<Longrightarrow> for_range is f s = Inr (fold g is s)"
  by (induction "is" arbitrary: s) auto

lemma for_range_invariant:
  assumes "\<And>i s s'. i \<in> set is \<Longrightarrow> P s \<Longrightarrow> f i s = Inr s' \<Longrightarrow> P s'"
    and "P s" and "for_range is f s = Inr s'"
  shows "P s'"
  using assms by (induction "is" arbitrary: s) auto

lemma for_range_exists:
  assumes "P s" and "\<And>i s. i \<in> set is \<Longrightarrow> P s \<Longrightarrow> \<exists>s'. f i s = Inr s' \<and> P s'"
  shows "\<exists>s'. for_range is f s = Inr s' \<and> P s'"
  using assms
proof (induction "is" arbitrary: s)
  case (Cons i "is")
  from Cons.prems(2) [of i s] Cons.prems(1) obtain s1 where "f i s = Inr s1" "P s1" by auto
  with Cons.IH [of s1] Cons.prems(2) show ?case by auto
qed simp

lemma for_range_safe:
  assumes "\<And>i s. i \<in> set is \<Longrightarrow> P s \<Longrightarrow> safe P (f i s)" and "P s"
  shows "safe P (for_range is f s)"
  using assms
proof (induction "is" arbitrary: s)
  case (Cons i "is")
  from Cons.prems have "safe P (f i s)" by simp
  then show ?case unfolding for_range.simps by (rule safe_bind) (use Cons in auto)
qed simp

section \<open>Lists\<close>

lemma take_replicate_append:
  "length xs \<le> n \<Longrightarrow> take n (xs @ replicate m y) = xs @ replicate (min m (n - length xs)) y"
  by (simp add: min.commute)

lemma takeWhile_all: "(\<And>x. x \<in> set xs \<Longrightarrow> P x) \<Longrightarrow> takeWhile P xs = xs"
  by (simp add: takeWhile_eq_all_conv)

lemma takeWhile_stop: "(\<And>x. x \<in> set xs \<Longrightarrow> P x) \<Longrightarrow> \<not> P y \<Longrightarrow> takeWhile P (xs @ y # ys) = xs"
  by (induction xs) auto

lemma dropWhile_stop: "(\<And>x. x \<in> set xs \<Longrightarrow> P x) \<Longrightarrow> \<not> P y \<Longrightarrow> dropWhile P (xs @ y # ys) = y # ys"
  by (induction xs) auto

lemma length_dropWhile_less: "xs \<noteq> [] \<Longrightarrow> P (hd xs) \<Longrightarrow> length (dropWhile P xs) < length xs"
  by (cases xs) (auto simp: le_imp_less_Suc length_dropWhile_le)

lemma list_update_prefix:
  "i < length xs \<Longrightarrow> (xs @ ys)[i := x] = xs[i := x] @ ys"
  by (simp add: list_update_append)

end
