(* ===== verification/CLib.thy ===== *)
theory CLib
  imports Prelude "HOL-Library.Word"
begin

unbundle bit_operations_syntax

text \<open>
  The part of the C library and of the C memory model the repository uses: strings in
  character arrays, \<open>strtok\<close>, \<open>atoi\<close>, decimal conversion and padding of \<open>printf\<close>,
  \<open>snprintf\<close> truncation, \<open>strncpy\<close>, and arrays of possibly uninitialised bytes.
  A character is a byte; \<open>int\<close> is 32 bits wide.
\<close>

section \<open>Characters and strings\<close>

abbreviation NUL :: char where "NUL \<equiv> CHR 0x00"
abbreviation LF :: char where "LF \<equiv> CHR 0x0A"
abbreviation CR :: char where "CR \<equiv> CHR 0x0D"
abbreviation SP :: char where "SP \<equiv> CHR '' ''"

abbreviation CRLF :: string where "CRLF \<equiv> [CR, LF]"

text \<open>The string a character array holds: the bytes before the first NUL.\<close>

definition cstr :: "char list \<Rightarrow> string" where
  "cstr bs = takeWhile (\<lambda>c. c \<noteq> NUL) bs"

definition isspace :: "char \<Rightarrow> bool" where
  "isspace c \<longleftrightarrow> c = SP \<or> c = CHR 0x09 \<or> c = LF \<or> c = CHR 0x0B \<or> c = CHR 0x0C \<or> c = CR"

text \<open>
  \<open>strtok\<close> on the string at the saved position: skip delimiters, cut the token at the next
  delimiter, and save the position behind it (at the end of the string, the end itself).
\<close>

definition strtok :: "string \<Rightarrow> string \<Rightarrow> (string \<times> string) option" where
  "strtok ds s =
     (let s1 = dropWhile (\<lambda>c. c \<in> set ds) s
      in if s1 = [] then None
         else Some (takeWhile (\<lambda>c. c \<notin> set ds) s1, drop 1 (dropWhile (\<lambda>c. c \<notin> set ds) s1)))"

section \<open>Machine integers\<close>

abbreviation INT_MAX :: int where "INT_MAX \<equiv> 2147483647"
abbreviation INT_MIN :: int where "INT_MIN \<equiv> - 2147483648"

definition in_int :: "int \<Rightarrow> bool" where
  "in_int k \<longleftrightarrow> INT_MIN \<le> k \<and> k \<le> INT_MAX"

section \<open>Decimal text\<close>

abbreviation digits10 :: string where "digits10 \<equiv> ''0123456789''"

text \<open>The ASCII codes of the digits are 48 to 57.\<close>

fun digit_value :: "char \<Rightarrow> nat option" where
  "digit_value c = (let k = of_char c in if 48 \<le> k \<and> k < 58 then Some (k - 48) else None)"

fun show_nat :: "nat \<Rightarrow> string" where
  "show_nat n = (if n < 10 then [digits10 ! n] else show_nat (n div 10) @ [digits10 ! (n mod 10)])"

definition show_int :: "int \<Rightarrow> string" where
  "show_int k = (if k < 0 then CHR ''-'' # show_nat (nat (- k)) else show_nat (nat k))"

fun read_digits :: "nat \<Rightarrow> string \<Rightarrow> nat" where
  "read_digits acc [] = acc"
| "read_digits acc (c # cs) =
     (case digit_value c of None \<Rightarrow> acc | Some d \<Rightarrow> read_digits (10 * acc + d) cs)"

text \<open>
  \<open>atoi\<close>: skip white space, an optional sign, then digits up to the first other character.
  A value an \<open>int\<close> cannot hold makes the call undefined.
\<close>

definition atoi_value :: "string \<Rightarrow> int" where
  "atoi_value s =
     (case dropWhile isspace s of
        [] \<Rightarrow> 0
      | c # cs \<Rightarrow>
          if c = CHR ''-'' then - int (read_digits 0 cs)
          else if c = CHR ''+'' then int (read_digits 0 cs)
          else int (read_digits 0 (c # cs)))"

definition atoi :: "string \<Rightarrow> int res" where
  "atoi s = (if in_int (atoi_value s) then Inr (atoi_value s) else undef Signed_Overflow)"

section \<open>Formatted output\<close>

text \<open>\<open>%ws\<close> and \<open>%wd\<close> pad on the left, \<open>%-ws\<close> and \<open>%-wd\<close> on the right.\<close>

definition pad_left :: "nat \<Rightarrow> string \<Rightarrow> string" where
  "pad_left w s = replicate (w - length s) SP @ s"

definition pad_right :: "nat \<Rightarrow> string \<Rightarrow> string" where
  "pad_right w s = s @ replicate (w - length s) SP"

text \<open>What \<open>snprintf\<close> with a buffer of \<open>n\<close> bytes leaves there as a string.\<close>

definition snprintf :: "nat \<Rightarrow> string \<Rightarrow> string" where
  "snprintf n s = take (n - 1) s"

section \<open>Memory\<close>

text \<open>
  \<open>strncpy\<close> with bound \<open>n\<close>: copies the string, cut after \<open>n\<close> bytes, and fills the rest of the
  \<open>n\<close> bytes with NUL. \<open>strncpy_bytes\<close> is the block of \<open>n\<close> bytes written.
\<close>

definition strncpy_bytes :: "nat \<Rightarrow> string \<Rightarrow> char list" where
  "strncpy_bytes n s = take n s @ replicate (n - length s) NUL"

text \<open>An array of bytes; \<open>None\<close> is a byte never written.\<close>

type_synonym mem = "char option list"

definition poke :: "int \<Rightarrow> char \<Rightarrow> mem \<Rightarrow> mem res" where
  "poke i c m =
     (if 0 \<le> i \<and> i < int (length m) then Inr (m[nat i := Some c]) else undef Out_Of_Bounds)"

text \<open>\<open>strlen\<close> on an array: it reads up to the first NUL.\<close>

fun mem_strlen :: "mem \<Rightarrow> nat res" where
  "mem_strlen [] = undef Out_Of_Bounds"
| "mem_strlen (None # m) = undef Uninitialised"
| "mem_strlen (Some c # m) = (if c = NUL then Inr 0 else map_res Suc (mem_strlen m))"

text \<open>\<open>strcat\<close>: the source's string and its NUL go over the destination's NUL.\<close>

definition mem_strcat :: "mem \<Rightarrow> mem \<Rightarrow> mem res" where
  "mem_strcat dst src =
     rbind (mem_strlen src) (\<lambda>k.
     rbind (mem_strlen dst) (\<lambda>p.
       if length dst < p + k + 1 then undef Buffer_Overflow
       else Inr (take p dst @ take (k + 1) src @ drop (p + k + 1) dst)))"

text \<open>\<open>malloc\<close> gives uninitialised bytes; \<open>realloc\<close> keeps the old ones.\<close>

definition malloc :: "nat \<Rightarrow> mem" where
  "malloc n = replicate n None"

definition realloc :: "nat \<Rightarrow> mem \<Rightarrow> mem" where
  "realloc n m = take n m @ replicate (n - length m) None"

text \<open>The bytes \<open>write\<close> takes from an array.\<close>

fun mem_read :: "nat \<Rightarrow> mem \<Rightarrow> string res" where
  "mem_read 0 m = Inr []"
| "mem_read (Suc n) [] = undef Out_Of_Bounds"
| "mem_read (Suc n) (None # m) = undef Uninitialised"
| "mem_read (Suc n) (Some c # m) = map_res (Cons c) (mem_read n m)"

text \<open>Storing into an array whose bytes are all written.\<close>

definition set_byte :: "int \<Rightarrow> char \<Rightarrow> char list \<Rightarrow> char list res" where
  "set_byte i c bs =
     (if 0 \<le> i \<and> i < int (length bs) then Inr (bs[nat i := c]) else undef Out_Of_Bounds)"

text \<open>Passing an array as a string: the code that reads it needs a NUL in it.\<close>

definition c_string :: "char list \<Rightarrow> string res" where
  "c_string bs = (if NUL \<in> set bs then Inr (cstr bs) else undef Out_Of_Bounds)"

section \<open>Facts\<close>

lemma cstr_no_nul: "NUL \<notin> set (cstr s)"
  by (auto simp: cstr_def dest: set_takeWhileD)

lemma cstr_id: "NUL \<notin> set s \<Longrightarrow> cstr s = s"
  by (auto simp: cstr_def intro!: takeWhile_all)

lemma cstr_stop: "NUL \<notin> set s \<Longrightarrow> cstr (s @ NUL # r) = s"
  by (auto simp: cstr_def intro!: takeWhile_stop)

lemma cstr_then_nul: "\<exists>r. s @ [NUL] = cstr s @ NUL # r"
  by (induction s) (auto simp: cstr_def)

lemma cstr_length_nul:
  "NUL \<in> set s \<Longrightarrow> length (cstr s) < length s \<and> s ! length (cstr s) = NUL"
  by (induction s) (auto simp: cstr_def)

lemma length_cstr_le: "length (cstr s) \<le> length s"
  by (simp add: cstr_def length_takeWhile_le)

lemma cstr_idem [simp]: "cstr (cstr s) = cstr s"
  by (simp add: cstr_id cstr_no_nul)

lemma cstr_padded: "NUL \<notin> set s \<Longrightarrow> cstr (s @ replicate n NUL) = s"
  by (cases n) (auto simp: cstr_stop cstr_id)

lemma length_strncpy_bytes [simp]: "length (strncpy_bytes n s) = n"
  by (simp add: strncpy_bytes_def)

lemma strtok_None_iff: "strtok ds s = None \<longleftrightarrow> set s \<subseteq> set ds"
  by (auto simp: strtok_def Let_def dropWhile_eq_Nil_conv)

lemma strtok_rest_shorter:
  assumes "strtok ds s = Some (t, r)"
  shows "length r < length s"
proof -
  let ?s1 = "dropWhile (\<lambda>c. c \<in> set ds) s"
  let ?s2 = "dropWhile (\<lambda>c. c \<notin> set ds) ?s1"
  from assms have ne: "?s1 \<noteq> []" and r: "r = drop 1 ?s2"
    by (auto simp: strtok_def Let_def split: if_splits)
  from ne have "hd ?s1 \<notin> set ds" by (rule hd_dropWhile)
  with ne have "length ?s2 < length ?s1" by (intro length_dropWhile_less) auto
  moreover have "length ?s1 \<le> length s" by (rule length_dropWhile_le)
  ultimately show ?thesis using r by simp
qed

lemma strtok_token:
  assumes "strtok ds s = Some (t, r)"
  shows "t \<noteq> []" and "set t \<inter> set ds = {}"
proof -
  let ?s1 = "dropWhile (\<lambda>c. c \<in> set ds) s"
  from assms have ne: "?s1 \<noteq> []" and t: "t = takeWhile (\<lambda>c. c \<notin> set ds) ?s1"
    by (auto simp: strtok_def Let_def split: if_splits)
  from ne have "hd ?s1 \<notin> set ds" by (rule hd_dropWhile)
  with ne t show "t \<noteq> []" by (cases ?s1) auto
  from t show "set t \<inter> set ds = {}" by (auto dest: set_takeWhileD)
qed

declare show_nat.simps [simp del] digit_value.simps [simp del]

lemma show_nat_small: "n < 10 \<Longrightarrow> show_nat n = [digits10 ! n]"
  by (simp add: show_nat.simps)

lemma show_nat_big: "10 \<le> n \<Longrightarrow> show_nat n = show_nat (n div 10) @ [digits10 ! (n mod 10)]"
  by (subst show_nat.simps) simp

lemma digit_value_digit: "d < 10 \<Longrightarrow> digit_value (digits10 ! d) = Some d"
proof -
  assume "d < 10"
  then have "d \<in> {0, 1, 2, 3, 4, 5, 6, 7, 8, 9}" by auto
  then show ?thesis by (auto simp: digit_value.simps)
qed

lemma read_digits_append:
  "\<forall>c \<in> set s. digit_value c \<noteq> None \<Longrightarrow>
   read_digits acc (s @ t) = read_digits (read_digits acc s) t"
  by (induction s arbitrary: acc) (auto split: option.splits)

lemma show_nat_digits: "c \<in> set (show_nat n) \<Longrightarrow> digit_value c \<noteq> None"
proof (induction n rule: show_nat.induct)
  case (1 n)
  then show ?case
    by (cases "n < 10")
      (auto simp: show_nat_small show_nat_big digit_value_digit)
qed

lemma show_nat_not_empty: "show_nat n \<noteq> []"
  by (cases "n < 10") (auto simp: show_nat_small show_nat_big)

lemma read_show_nat: "read_digits 0 (show_nat n) = n"
proof (induction n rule: show_nat.induct)
  case (1 n)
  show ?case
  proof (cases "n < 10")
    case True
    then show ?thesis
      by (simp add: show_nat_small digit_value_digit)
  next
    case False
    then have "read_digits 0 (show_nat n) = 10 * (n div 10) + n mod 10"
      using 1 show_nat_digits
      by (simp add: show_nat_big read_digits_append digit_value_digit)
    then show ?thesis by simp
  qed
qed

lemma length_show_nat: "n < 10 ^ k \<Longrightarrow> 0 < k \<Longrightarrow> length (show_nat n) \<le> k"
proof (induction n arbitrary: k rule: show_nat.induct)
  case (1 n)
  show ?case
  proof (cases "n < 10")
    case True
    then show ?thesis using "1.prems" by (simp add: show_nat_small)
  next
    case False
    then have "1 < k" using "1.prems" by (cases "k = 1") auto
    then obtain j where k: "k = Suc j" "0 < j" by (cases k) auto
    then have "n div 10 < 10 ^ j" using "1.prems"(1) by (simp add: less_mult_imp_div_less mult.commute)
    with False k "1.IH" [of j] show ?thesis by (simp add: show_nat_big)
  qed
qed

lemma digit_not_special:
  "digit_value c \<noteq> None \<Longrightarrow> \<not> isspace c \<and> c \<noteq> CHR ''-'' \<and> c \<noteq> CHR ''+''"
  by (auto simp: isspace_def digit_value.simps split: if_splits)

lemma atoi_value_show_int: "atoi_value (show_int k) = k"
proof (cases "k < 0")
  case True
  then show ?thesis
    by (simp add: show_int_def atoi_value_def isspace_def read_show_nat)
next
  case False
  obtain c cs where s: "show_nat (nat k) = c # cs"
    using show_nat_not_empty [of "nat k"] by (cases "show_nat (nat k)") auto
  then have c: "\<not> isspace c" "c \<noteq> CHR ''-''" "c \<noteq> CHR ''+''"
    using show_nat_digits [of c "nat k"] digit_not_special [of c] by auto
  have "read_digits 0 (c # cs) = nat k"
    using read_show_nat [of "nat k"] s by simp
  with False c s show ?thesis
    by (simp add: show_int_def atoi_value_def del: read_digits.simps)
qed

lemma atoi_show_int: "in_int k \<Longrightarrow> atoi (show_int k) = Inr k"
  by (simp add: atoi_def atoi_value_show_int)

lemma mem_read_prefix: "take (length s) m = map Some s \<Longrightarrow> mem_read (length s) m = Inr s"
proof (induction s arbitrary: m)
  case (Cons c s)
  then show ?case by (cases m) auto
qed simp

end
