(* ===== verification/Shell_Util.thy ===== *)
theory Shell_Util
  imports CLib
begin

text \<open>
  \<open>Unix_Command_Line_Shell/util.c\<close>: splitting a command line into tokens, and the constants
  of \<open>commando.h\<close> (\<open>ARGS_MAX\<close> is its \<open>ARG_MAX\<close>). The reference for the tokenizer is \<open>split_words\<close>, a one-pass splitter that
  does not know \<open>strtok\<close>; the lemmas relate the two and bound the token array.
\<close>

abbreviation NAME_MAX :: nat where "NAME_MAX \<equiv> 255"
abbreviation ARGS_MAX :: nat where "ARGS_MAX \<equiv> 255"
abbreviation MAX_LINE :: nat where "MAX_LINE \<equiv> 1024"

abbreviation delims :: string where "delims \<equiv> [SP, LF]"

section \<open>The code\<close>

text \<open>
  The loop of \<open>parse_into_tokens\<close>: \<open>i\<close> tokens are stored, and the argument is what the last
  \<open>strtok\<close> call returned. The result lists the tokens stored from index \<open>i\<close> on.
\<close>

function parse_loop :: "nat \<Rightarrow> (string \<times> string) option \<Rightarrow> string list" where
  "parse_loop i None = []"
| "parse_loop i (Some (tok, rest)) =
     (if i < ARGS_MAX then tok # parse_loop (Suc i) (strtok delims rest) else [])"
  by pat_completeness auto
termination
  by (relation "measure (\<lambda>(i, r). ARGS_MAX - i)") auto

text \<open>
  The result is the written prefix of the array \<open>tokens\<close>, its NULL entry last, and \<open>ntok\<close>.
\<close>

definition parse_into_tokens :: "string \<Rightarrow> string option list \<times> int" where
  "parse_into_tokens input_command =
     (let toks = parse_loop 0 (strtok delims (cstr input_command))
      in (map Some toks @ [None], int (length toks)))"

section \<open>The reference splitter\<close>

fun words_from :: "string \<Rightarrow> string \<Rightarrow> string list" where
  "words_from cur [] = (if cur = [] then [] else [cur])"
| "words_from cur (c # cs) =
     (if c \<in> set delims
      then (if cur = [] then words_from [] cs else cur # words_from [] cs)
      else words_from (cur @ [c]) cs)"

definition split_words :: "string \<Rightarrow> string list" where
  "split_words s = words_from [] s"

text \<open>A line that writes the given words, a space behind each but the last, and a newline.\<close>

fun unwords :: "string list \<Rightarrow> string" where
  "unwords [] = [LF]"
| "unwords [w] = w @ [LF]"
| "unwords (w # ws) = w @ SP # unwords ws"

definition is_word :: "string \<Rightarrow> bool" where
  "is_word w \<longleftrightarrow> w \<noteq> [] \<and> set w \<inter> set delims = {} \<and> NUL \<notin> set w"

section \<open>Facts\<close>

lemma words_from_dropWhile:
  "words_from [] (dropWhile (\<lambda>c. c \<in> set delims) s) = words_from [] s"
  by (induction s) auto

lemma words_from_delims: "set s \<subseteq> set delims \<Longrightarrow> words_from [] s = []"
  by (induction s) auto

lemma words_from_cons:
  "cur @ takeWhile (\<lambda>c. c \<notin> set delims) s \<noteq> [] \<Longrightarrow>
   words_from cur s =
     (cur @ takeWhile (\<lambda>c. c \<notin> set delims) s)
       # words_from [] (drop 1 (dropWhile (\<lambda>c. c \<notin> set delims) s))"
  by (induction cur s rule: words_from.induct) auto

lemma split_words_strtok:
  "split_words s = (case strtok delims s of None \<Rightarrow> [] | Some (t, r) \<Rightarrow> t # split_words r)"
proof (cases "strtok delims s")
  case None
  then have "set s \<subseteq> set delims" by (simp only: strtok_None_iff)
  then show ?thesis using None by (simp add: split_words_def words_from_delims)
next
  case (Some p)
  obtain t r where p: "p = (t, r)" by force
  let ?s1 = "dropWhile (\<lambda>c. c \<in> set delims) s"
  from Some p have t: "t = takeWhile (\<lambda>c. c \<notin> set delims) ?s1"
    and r: "r = drop 1 (dropWhile (\<lambda>c. c \<notin> set delims) ?s1)"
    by (auto simp: strtok_def Let_def split: if_splits)
  from Some p have "t \<noteq> []" by (auto dest: strtok_token)
  then have "words_from [] ?s1 = t # words_from [] r"
    using words_from_cons [of "[]" ?s1] t r by simp
  then show ?thesis
    using Some p words_from_dropWhile [of s] by (simp add: split_words_def)
qed

lemma parse_loop_words:
  "parse_loop i (strtok delims s) = take (ARGS_MAX - i) (split_words s)"
proof (induction "ARGS_MAX - i" arbitrary: i s)
  case 0
  then show ?case by (cases "strtok delims s") (auto split: prod.splits)
next
  case (Suc n)
  then have i: "ARGS_MAX - i = Suc n" "n = ARGS_MAX - Suc i" "i < ARGS_MAX" by auto
  show ?case
  proof (cases "strtok delims s")
    case None
    then show ?thesis using split_words_strtok [of s] by simp
  next
    case (Some p)
    obtain t r where "p = (t, r)" by force
    with Some i Suc.hyps(1) [OF i(2)] split_words_strtok [of s] show ?thesis by simp
  qed
qed

lemma words_from_is_word:
  "(cur = [] \<or> is_word cur) \<Longrightarrow> NUL \<notin> set s \<Longrightarrow> w \<in> set (words_from cur s) \<Longrightarrow> is_word w"
  by (induction cur s rule: words_from.induct) (auto simp: is_word_def split: if_splits)

lemma split_words_is_word: "NUL \<notin> set s \<Longrightarrow> w \<in> set (split_words s) \<Longrightarrow> is_word w"
  by (auto simp: split_words_def intro: words_from_is_word)

text \<open>Each word takes its characters and at least one delimiter, or the end, of the line.\<close>

lemma words_from_total:
  "sum_list (map length (words_from cur s)) \<le> length cur + length s"
  by (induction cur s rule: words_from.induct) (auto intro: le_SucI)

lemma split_words_length: "w \<in> set (split_words s) \<Longrightarrow> length w \<le> length s"
  using words_from_total [of "[]" s] member_le_sum_list [of "length w" "map length (split_words s)"]
  by (auto simp: split_words_def)

lemma words_from_word:
  assumes "is_word w" and "d \<in> set delims"
  shows "words_from [] (w @ d # s) = w # words_from [] s"
proof -
  have nd: "\<And>c. c \<in> set w \<Longrightarrow> c \<notin> set delims" using assms(1) by (auto simp: is_word_def)
  with assms(2) have "takeWhile (\<lambda>c. c \<notin> set delims) (w @ d # s) = w"
    and "dropWhile (\<lambda>c. c \<notin> set delims) (w @ d # s) = d # s"
    by (auto intro!: takeWhile_stop dropWhile_stop)
  then show ?thesis using assms(1) words_from_cons [of "[]" "w @ d # s"]
    by (simp add: is_word_def)
qed

lemma split_unwords: "\<forall>w \<in> set ws. is_word w \<Longrightarrow> split_words (unwords ws) = ws"
proof (induction ws rule: unwords.induct)
  case (2 w)
  then show ?case using words_from_word [of w LF "[]"] by (simp add: split_words_def)
next
  case (3 w v ws)
  then show ?case
    using words_from_word [of w SP "unwords (v # ws)"] by (simp add: split_words_def)
qed (simp add: split_words_def)

lemma unwords_no_nul: "\<forall>w \<in> set ws. is_word w \<Longrightarrow> NUL \<notin> set (unwords ws)"
  by (induction ws rule: unwords.induct) (auto simp: is_word_def)

section \<open>Properties\<close>

text \<open>
  C15. \<open>parse_into_tokens\<close> stores exactly the first 255 words of the command line, in order,
  behind them the NULL entry, and sets \<open>ntok\<close> to their number.
\<close>

theorem parse_into_tokens_words:
  "parse_into_tokens s =
     (map Some (take ARGS_MAX (split_words (cstr s))) @ [None],
      int (min ARGS_MAX (length (split_words (cstr s)))))"
  using parse_loop_words [of 0 "cstr s"] by (simp add: parse_into_tokens_def Let_def min.commute)

text \<open>
  Every token fits: at most 255 of them and the NULL entry, so all stores are inside
  \<open>tokens[ARG_MAX+1]\<close>; each is a non-empty word without delimiters and no longer than the line.
\<close>

theorem parse_into_tokens_bounds:
  "length (fst (parse_into_tokens s)) \<le> ARGS_MAX + 1 \<and>
   length (fst (parse_into_tokens s)) = nat (snd (parse_into_tokens s)) + 1 \<and>
   (\<forall>w. Some w \<in> set (fst (parse_into_tokens s)) \<longrightarrow> is_word w \<and> length w \<le> length (cstr s))"
  using parse_loop_words [of 0 "cstr s"] cstr_no_nul [of s]
  by (auto simp: parse_into_tokens_def Let_def min_le_iff_disj
      dest!: in_set_takeD intro: split_words_is_word split_words_length)

theorem parse_into_tokens_bounds_witness:
  "is_word ''ls'' \<and> length ''ls'' \<le> length (cstr ''ls -a\<newline>'')"
  using parse_into_tokens_bounds [of "''ls -a\<newline>''"]
  by (simp add: parse_into_tokens_def strtok_def cstr_def)

text \<open>
  Writing at most 255 words on a line and parsing it gives the words back.
\<close>

theorem parse_unwords:
  assumes "\<forall>w \<in> set ws. is_word w" and "length ws \<le> ARGS_MAX"
  shows "parse_into_tokens (unwords ws) = (map Some ws @ [None], int (length ws))"
  using assms parse_loop_words [of 0 "unwords ws"]
  by (simp add: parse_into_tokens_def cstr_id unwords_no_nul split_unwords)

theorem parse_unwords_witness:
  "parse_into_tokens ''wait-for 0\<newline>'' = ([Some ''wait-for'', Some ''0'', None], 2)"
  using parse_unwords [of "[''wait-for'', ''0'']"] by (simp add: is_word_def)

end
