(* ===== verification/Shell_Read.thy ===== *)
theory Shell_Read
  imports Shell_Util
begin

text \<open>
  \<open>read_all\<close> of \<open>Unix_Command_Line_Shell/cmd.c\<close>: reading a file descriptor into a buffer that
  doubles. The buffer is an array of bytes that may be uninitialised, the descriptor is the
  bytes that are left to read (\<open>None\<close> when \<open>read\<close> fails on it). A \<open>read\<close> returns as many bytes
  as asked for, or all that are left, which holds for files and for a pipe whose writers are
  gone. \<open>malloc\<close> and \<open>realloc\<close> succeed.
\<close>

abbreviation BUFSIZE :: int where "BUFSIZE \<equiv> 1024"

section \<open>The code\<close>

text \<open>What \<open>read\<close> puts at the start of an array.\<close>

definition read_into :: "string \<Rightarrow> mem \<Rightarrow> mem" where
  "read_into data m = map Some data @ drop (length data) m"

text \<open>
  The while loop. Its body reads into a temporary buffer, and when there was something to
  read, terminates both buffers, enlarges \<open>buf\<close> and concatenates.
\<close>

function ra_loop :: "int \<Rightarrow> int \<Rightarrow> int \<Rightarrow> mem \<Rightarrow> string \<Rightarrow> (mem \<times> int \<times> string) res" where
  "ra_loop cur_bufsize bytes bytes_read buf src =
     (if bytes \<le> 0 then Inr (buf, bytes_read, src)
      else if INT_MAX < 2 * cur_bufsize then undef Signed_Overflow
      else
        let temp_buf = malloc (nat (cur_bufsize + 1));
            cur = 2 * cur_bufsize;
            data = take (nat (cur div 2)) src;
            src1 = drop (nat (cur div 2)) src;
            n = int (length data)
        in if n > 0 then
             rbind (poke bytes_read NUL buf) (\<lambda>buf1.
             rbind (poke n NUL (read_into data temp_buf)) (\<lambda>temp1.
             rbind (mem_strcat (realloc (nat (cur + 1)) buf1) temp1) (\<lambda>buf2.
               ra_loop cur n (bytes_read + n) buf2 src1)))
           else ra_loop cur n bytes_read buf src1)"
  by pat_completeness auto
termination
  by (relation "measure (\<lambda>(cur, bytes, br, buf, src). length src + (if 0 < bytes then 1 else 0))")
    (auto split: if_splits)

declare ra_loop.simps [simp del]

definition read_all :: "string option \<Rightarrow> (mem \<times> int \<times> string) res" where
  "read_all fd =
     (let buf = malloc (nat (BUFSIZE + 1));
          bytes = (case fd of None \<Rightarrow> - 1 | Some src \<Rightarrow> int (length (take (nat BUFSIZE) src)));
          buf1 = (case fd of None \<Rightarrow> buf | Some src \<Rightarrow> read_into (take (nat BUFSIZE) src) buf);
          src1 = (case fd of None \<Rightarrow> [] | Some src \<Rightarrow> drop (nat BUFSIZE) src)
      in rbind (if bytes \<ge> BUFSIZE then ra_loop BUFSIZE bytes bytes buf1 src1
                else Inr (buf1, bytes, src1)) (\<lambda>(buf2, bytes_read, src2).
         rbind (poke bytes_read NUL buf2) (\<lambda>buf3. Inr (buf3, bytes_read, src2))))"

section \<open>Memory that holds a string\<close>

definition str_at :: "mem \<Rightarrow> string \<Rightarrow> bool" where
  "str_at m s \<longleftrightarrow> NUL \<notin> set s \<and> take (Suc (length s)) m = map Some s @ [Some NUL]"

lemma str_at_iff: "str_at m s \<longleftrightarrow> NUL \<notin> set s \<and> (\<exists>r. m = map Some s @ Some NUL # r)"
proof -
  have "take (Suc (length s)) m = map Some s @ [Some NUL] \<longleftrightarrow>
    (\<exists>r. m = map Some s @ Some NUL # r)"
  proof
    assume "take (Suc (length s)) m = map Some s @ [Some NUL]"
    then have "m = (map Some s @ [Some NUL]) @ drop (Suc (length s)) m"
      by (metis append_take_drop_id)
    then show "\<exists>r. m = map Some s @ Some NUL # r" by auto
  qed auto
  then show ?thesis by (simp add: str_at_def)
qed

lemma mem_strlen_str_at: "str_at m s \<Longrightarrow> mem_strlen m = Inr (length s)"
proof -
  have "NUL \<notin> set s \<Longrightarrow> mem_strlen (map Some s @ Some NUL # r) = Inr (length s)" for r
    by (induction s) auto
  then show "str_at m s \<Longrightarrow> ?thesis" by (auto simp: str_at_iff)
qed

lemma str_at_poke:
  assumes "str_at m s" and "length s \<le> k" and "k < length m"
  shows "\<exists>b. poke (int k) NUL m = Inr b \<and> str_at b s \<and> length b = length m"
proof -
  from assms(1) obtain r where m: "m = map Some s @ Some NUL # r" and s: "NUL \<notin> set s"
    by (auto simp: str_at_iff)
  from assms(2) m obtain r' where "m[k := Some NUL] = map Some s @ Some NUL # r'"
    by (cases "k - length s") (auto simp: list_update_append)
  with s have "str_at (m[k := Some NUL]) s" by (auto simp: str_at_iff)
  with assms(3) show ?thesis by (simp add: poke_def)
qed

lemma poke_terminates:
  assumes "length d < length m" and "take (length d) m = map Some d"
  shows "\<exists>b. poke (int (length d)) NUL m = Inr b \<and> str_at b (cstr d) \<and> length b = length m
           \<and> take (Suc (length d)) b = map Some d @ [Some NUL]"
proof -
  let ?b = "m[length d := Some NUL]"
  have b: "?b = map Some (d @ [NUL]) @ drop (Suc (length d)) m"
    using assms by (simp add: upd_conv_take_nth_drop)
  obtain r where "d @ [NUL] = cstr d @ NUL # r" using cstr_then_nul by blast
  then have "?b = map Some (cstr d) @ Some NUL # map Some r @ drop (Suc (length d)) m"
    using b by simp
  then have "str_at ?b (cstr d)" by (auto simp: str_at_iff cstr_no_nul)
  moreover have "take (Suc (length d)) ?b = map Some d @ [Some NUL]" unfolding b by simp
  ultimately show ?thesis using assms(1) by (simp add: poke_def)
qed

lemma mem_strcat_str_at:
  assumes "str_at dst s" and "str_at src t" and "length s + length t < length dst"
  shows "\<exists>b. mem_strcat dst src = Inr b \<and> str_at b (s @ t) \<and> length b = length dst"
proof -
  from assms(2) have "take (length t + 1) src = map Some t @ [Some NUL]"
    by (simp add: str_at_def)
  moreover from assms(1) have "take (length s) dst = map Some s"
    by (auto simp: str_at_iff)
  ultimately show ?thesis
    using assms by (auto simp: mem_strcat_def mem_strlen_str_at str_at_iff)
qed

lemma str_at_realloc: "str_at m s \<Longrightarrow> length m \<le> n \<Longrightarrow> str_at (realloc n m) s"
  by (auto simp: realloc_def str_at_iff)

lemma length_realloc [simp]: "length (realloc n m) = n"
  by (simp add: realloc_def)

lemma length_malloc [simp]: "length (malloc n) = n"
  by (simp add: malloc_def)

lemma length_read_into [simp]: "length d \<le> length m \<Longrightarrow> length (read_into d m) = length m"
  by (simp add: read_into_def)

section \<open>The loop\<close>

text \<open>
  The pieces the successive \<open>read\<close> calls of the loop return: each asks for as many bytes as
  the buffer held before.
\<close>

function ra_chunks :: "nat \<Rightarrow> string \<Rightarrow> string list" where
  "ra_chunks n s = (if s = [] \<or> n = 0 then [] else take n s # ra_chunks (2 * n) (drop n s))"
  by pat_completeness auto
termination
  by (relation "measure (\<lambda>(n, s). length s)") auto

declare ra_chunks.simps [simp del]

lemma ra_chunks_simps [simp]:
  "ra_chunks n [] = []"
  "s \<noteq> [] \<Longrightarrow> 0 < n \<Longrightarrow> ra_chunks n s = take n s # ra_chunks (2 * n) (drop n s)"
  by (simp_all add: ra_chunks.simps [of n])

lemma concat_ra_chunks: "0 < n \<Longrightarrow> concat (ra_chunks n s) = s"
proof (induction n s rule: ra_chunks.induct)
  case (1 n s)
  then show ?case by (cases "s = []") simp_all
qed

lemma ra_loop_done [simp]: "bytes \<le> 0 \<Longrightarrow> ra_loop cur bytes k buf src = Inr (buf, k, src)"
  by (simp add: ra_loop.simps)

lemma ra_loop_empty:
  "0 < bytes \<Longrightarrow> 2 * cur \<le> INT_MAX \<Longrightarrow> ra_loop cur bytes k buf [] = Inr (buf, k, [])"
  by (simp add: ra_loop.simps [of cur bytes])

text \<open>One round of the loop that reads something keeps a string in the buffer.\<close>

lemma ra_loop_round:
  assumes "str_at b s" and "poke (int k) NUL buf = Inr b"
    and "0 < bytes" and "length s \<le> k" and "k \<le> c" and "length buf = c + 1" and "0 < c"
    and "2 * int c \<le> INT_MAX" and "src \<noteq> []"
  shows "\<exists>b2. ra_loop (int c) bytes (int k) buf src =
               ra_loop (int (2 * c)) (int (length (take c src))) (int (k + length (take c src)))
                 b2 (drop c src)
           \<and> str_at b2 (s @ cstr (take c src)) \<and> length b2 = 2 * c + 1"
proof -
  let ?data = "take c src"
  let ?temp = "read_into ?data (malloc (c + 1))"
  have b: "length b = c + 1" using assms(2,6) by (auto simp: poke_def split: if_splits)
  have "length ?data < length ?temp" by simp
  moreover have "take (length ?data) ?temp = map Some ?data" by (simp add: read_into_def)
  ultimately obtain t where t: "poke (int (length ?data)) NUL ?temp = Inr t" "str_at t (cstr ?data)"
    using poke_terminates by blast
  have "str_at (realloc (2 * c + 1) b) s" using assms(1) b by (simp add: str_at_realloc)
  moreover have "length s + length (cstr ?data) < 2 * c + 1"
    using assms(4,5) length_cstr_le [of ?data] by simp
  ultimately obtain b2 where b2: "mem_strcat (realloc (2 * c + 1) b) t = Inr b2"
      "str_at b2 (s @ cstr ?data)" "length b2 = 2 * c + 1"
    using mem_strcat_str_at [OF _ t(2), of "realloc (2 * c + 1) b" s] by auto
  have "nat (int c + 1) = c + 1" "nat (2 * int c + 1) = 2 * c + 1" by auto
  then have "ra_loop (int c) bytes (int k) buf src =
      ra_loop (int (2 * c)) (int (length ?data)) (int (k + length ?data)) b2 (drop c src)"
    using assms t(1) b2(1)
    by (simp add: ra_loop.simps [of "int c" bytes] Let_def min_def of_nat_min split: if_splits)
  with b2 show ?thesis by blast
qed

lemma ra_loop_result:
  assumes "str_at b s" and "poke (int k) NUL buf = Inr b"
    and "0 < bytes" and "length s \<le> k" and "k \<le> c" and "length buf = c + 1" and "0 < c"
    and "if src = [] then 2 * int c \<le> INT_MAX else 4 * (int c + int (length src)) \<le> INT_MAX"
  shows "\<exists>buf' b'. ra_loop (int c) bytes (int k) buf src = Inr (buf', int (k + length src), [])
           \<and> poke (int (k + length src)) NUL buf' = Inr b'
           \<and> str_at b' (s @ concat (map cstr (ra_chunks c src)))"
  using assms
proof (induction "length src" arbitrary: c k bytes buf b s src rule: less_induct)
  case less
  show ?case
  proof (cases "src = []")
    case True
    with less.prems show ?thesis by (auto simp: ra_loop_empty)
  next
    case False
    let ?d = "take c src" and ?r = "drop c src"
    have bound: "4 * (int c + int (length src)) \<le> INT_MAX" using False less.prems(8) by simp
    then have "2 * int c \<le> INT_MAX" by simp
    then obtain b2 where eq: "ra_loop (int c) bytes (int k) buf src =
          ra_loop (int (2 * c)) (int (length ?d)) (int (k + length ?d)) b2 ?r"
        and b2: "str_at b2 (s @ cstr ?d)" "length b2 = 2 * c + 1"
      using ra_loop_round [OF less.prems(1-7) _ False] by blast
    have len: "length (s @ cstr ?d) \<le> k + length ?d" "k + length ?d < length b2"
      using less.prems(4,5) length_cstr_le [of ?d] b2(2) by auto
    obtain b3 where b3: "poke (int (k + length ?d)) NUL b2 = Inr b3" "str_at b3 (s @ cstr ?d)"
      using str_at_poke [OF b2(1) len] by blast
    have smaller: "length ?r < length src" using False less.prems(7) by auto
    have bound': "if ?r = [] then 2 * int (2 * c) \<le> INT_MAX
        else 4 * (int (2 * c) + int (length ?r)) \<le> INT_MAX"
      using bound by (simp add: of_nat_diff)
    have "\<exists>buf' b'. ra_loop (int (2 * c)) (int (length ?d)) (int (k + length ?d)) b2 ?r
          = Inr (buf', int ((k + length ?d) + length ?r), [])
        \<and> poke (int ((k + length ?d) + length ?r)) NUL buf' = Inr b'
        \<and> str_at b' ((s @ cstr ?d) @ concat (map cstr (ra_chunks (2 * c) ?r)))"
      using less.prems(5,7) False len(1) b2(2) bound'
      by (intro less.hyps [OF smaller b3(2) b3(1)]) auto
    moreover have "(k + length ?d) + length ?r = k + length src" by simp
    moreover have "(s @ cstr ?d) @ concat (map cstr (ra_chunks (2 * c) ?r))
        = s @ concat (map cstr (ra_chunks c src))"
      using False less.prems(7) by simp
    ultimately show ?thesis by (simp only: eq)
  qed
qed

section \<open>The whole function\<close>

lemma read_all_fail: "read_all None = undef Out_Of_Bounds"
  by (simp add: read_all_def poke_def)

lemma read_all_small:
  assumes "length s < 1024"
  shows "\<exists>buf. read_all (Some s) = Inr (buf, int (length s), [])
           \<and> take (Suc (length s)) buf = map Some s @ [Some NUL]"
proof -
  let ?m = "read_into s (malloc 1025)"
  have "length s < length ?m" using assms by simp
  moreover have "take (length s) ?m = map Some s" by (simp add: read_into_def)
  ultimately obtain b where "poke (int (length s)) NUL ?m = Inr b"
      "take (Suc (length s)) b = map Some s @ [Some NUL]"
    using poke_terminates by blast
  with assms show ?thesis by (simp add: read_all_def)
qed

text \<open>The pieces \<open>read_all\<close> puts together: the first \<open>read\<close>, then those of the loop.\<close>

definition read_pieces :: "string \<Rightarrow> string list" where
  "read_pieces s = take 1024 s # ra_chunks 1024 (drop 1024 s)"

lemma concat_read_pieces: "concat (read_pieces s) = s"
  by (simp add: read_pieces_def concat_ra_chunks)

lemma read_all_large:
  assumes "1024 \<le> length s" and "length s < 2 ^ 29"
  shows "\<exists>buf. read_all (Some s) = Inr (buf, int (length s), [])
           \<and> str_at buf (concat (map cstr (read_pieces s)))"
proof -
  let ?d = "take 1024 s" and ?r = "drop 1024 s"
  let ?m = "read_into ?d (malloc 1025)"
  have d: "length ?d = 1024" using assms(1) by simp
  then have m: "length ?d < length ?m" "length ?m = 1024 + 1" by simp_all
  have "take (length ?d) ?m = map Some ?d" by (simp add: read_into_def)
  with m obtain b where b: "poke (int (length ?d)) NUL ?m = Inr b" "str_at b (cstr ?d)"
    using poke_terminates by blast
  have bound: "if ?r = [] then 2 * int 1024 \<le> INT_MAX
      else 4 * (int 1024 + int (length ?r)) \<le> INT_MAX"
    using assms by (simp add: of_nat_diff)
  have "length (cstr ?d) \<le> 1024" using length_cstr_le [of ?d] d by simp
  then have "\<exists>buf' b'. ra_loop (int 1024) 1024 (int 1024) ?m ?r = Inr (buf', int (1024 + length ?r), [])
      \<and> poke (int (1024 + length ?r)) NUL buf' = Inr b'
      \<and> str_at b' (cstr ?d @ concat (map cstr (ra_chunks 1024 ?r)))"
    using b m d bound by (intro ra_loop_result) auto
  moreover have "1024 + length ?r = length s" using assms(1) by simp
  ultimately show ?thesis using d by (auto simp: read_all_def read_pieces_def)
qed

lemma read_all_in_bounds:
  "read_all fd = Inr (buf, n, r) \<Longrightarrow> 0 \<le> n \<and> n < int (length buf)"
  by (auto simp: read_all_def poke_def Let_def split: if_splits option.splits)

lemma read_all_total:
  assumes "length s < 2 ^ 29"
  shows "\<exists>buf. read_all (Some s) = Inr (buf, int (length s), [])"
  using assms read_all_small [of s] read_all_large [of s] by (cases "length s < 1024") auto

lemma read_all_whole:
  assumes "length s < 2 ^ 29" and "length s < 1024 \<or> NUL \<notin> set s"
  shows "\<exists>buf. read_all (Some s) = Inr (buf, int (length s), [])
           \<and> take (Suc (length s)) buf = map Some s @ [Some NUL]"
proof (cases "length s < 1024")
  case True
  then show ?thesis by (rule read_all_small)
next
  case False
  with assms have nul: "NUL \<notin> set (concat (read_pieces s))" by (simp add: concat_read_pieces)
  then have "map cstr (read_pieces s) = read_pieces s" by (auto intro!: map_idI cstr_id)
  then show ?thesis
    using False read_all_large [of s] assms(1) by (auto simp: concat_read_pieces str_at_def)
qed

section \<open>Properties\<close>

text \<open>
  C14. \<open>read_all\<close> returns the whole content of the descriptor, its length and a terminating NUL,
  for every content below 2^29 bytes that is shorter than one buffer or has no NUL byte.
\<close>

theorem read_all_correct:
  assumes "length s < 2 ^ 29" and "length s < 1024 \<or> NUL \<notin> set s"
  shows "\<exists>buf. read_all (Some s) = Inr (buf, int (length s), [])
           \<and> take (Suc (length s)) buf = map Some s @ [Some NUL]"
  using assms by (rule read_all_whole)

theorem read_all_correct_witness:
  "\<exists>buf. read_all (Some (replicate 3000 CHR ''a'')) = Inr (buf, 3000, [])
     \<and> take 3001 buf = map Some (replicate 3000 CHR ''a'') @ [Some NUL]"
  using read_all_correct [of "replicate 3000 CHR ''a''"] by simp

text \<open>
  No content makes \<open>read_all\<close> leave its buffers or use an uninitialised byte: from one
  buffer on, the result holds the concatenation of the C strings of the pieces read.
\<close>

theorem read_all_pieces:
  assumes "1024 \<le> length s" and "length s < 2 ^ 29"
  shows "\<exists>buf. read_all (Some s) = Inr (buf, int (length s), [])
           \<and> str_at buf (concat (map cstr (read_pieces s)))"
  using assms by (rule read_all_large)

theorem read_all_pieces_witness:
  "\<exists>buf. read_all (Some (replicate 2000 NUL)) = Inr (buf, 2000, [])
     \<and> str_at buf (concat (map cstr (read_pieces (replicate 2000 NUL))))"
  using read_all_pieces [of "replicate 2000 NUL"] by simp

text \<open>
  Binary output is corrupted: when the first piece has a NUL byte and a second piece begins
  with another byte, the buffer differs from what was read.
\<close>

theorem read_all_loses_binary:
  assumes "NUL \<in> set (take 1024 s)" and "1024 < length s" and "s ! 1024 \<noteq> NUL"
    and "length s < 2 ^ 29"
  shows "\<exists>buf. read_all (Some s) = Inr (buf, int (length s), [])
           \<and> take (length s) buf \<noteq> map Some s"
proof -
  let ?p = "length (cstr (take 1024 s))"
  obtain buf where buf: "read_all (Some s) = Inr (buf, int (length s), [])"
      "str_at buf (concat (map cstr (read_pieces s)))"
    using read_all_large [of s] assms(2,4) by auto
  have p: "?p < 1024" "s ! ?p = NUL"
    using assms(1,2) cstr_length_nul [of "take 1024 s"] by auto
  have "drop 1024 s = s ! 1024 # drop 1025 s"
    using assms(2) Cons_nth_drop_Suc [of 1024 s] by simp
  then have "\<exists>q. concat (map cstr (read_pieces s)) = cstr (take 1024 s) @ s ! 1024 # q"
    using assms(3) by (simp add: read_pieces_def cstr_def)
  with buf(2) have "buf ! ?p = Some (s ! 1024)" by (auto simp: str_at_iff nth_append)
  with p assms(2,3) have "take (length s) buf ! ?p \<noteq> map Some s ! ?p" by simp
  with buf(1) show ?thesis by metis
qed

theorem read_all_loses_binary_witness:
  "\<exists>buf. read_all (Some (NUL # replicate 1100 CHR ''a'')) = Inr (buf, 1101, [])
     \<and> take 1101 buf \<noteq> map Some (NUL # replicate 1100 CHR ''a'')"
  using read_all_loses_binary [of "NUL # replicate 1100 CHR ''a''"] by simp

end
