(* ===== verification/Shell_World.thy ===== *)
theory Shell_World
  imports Shell_Read
begin

text \<open>
  The system calls \<open>commando\<close> makes, as functions of the state of its process. What the
  environment decides is data of that state: the result of each coming \<open>fork\<close>, and for each
  child the answers successive polls of it get and the bytes it writes. A child's bytes are
  in its pipe as soon as the child is forked; the code reads them only after the child
  has exited, when they are all there. File descriptors are numbered upwards and never reused.
\<close>

section \<open>Wait statuses\<close>

text \<open>The status word of \<open>waitpid\<close> and the macros of \<open>sys/wait.h\<close> on it.\<close>

definition WIFEXITED :: "32 word \<Rightarrow> bool" where
  "WIFEXITED st \<longleftrightarrow> st AND 0x7F = 0"

definition WEXITSTATUS :: "32 word \<Rightarrow> int" where
  "WEXITSTATUS st = uint (drop_bit 8 st AND 0xFF)"

text \<open>A status word whose low seven bits are 0x7F reports a stopped or continued child; with
  every other status the child is gone and reaped.\<close>

definition WGONE :: "32 word \<Rightarrow> bool" where
  "WGONE st \<longleftrightarrow> st AND 0x7F \<noteq> 0x7F"

text \<open>The status word the kernel builds for a child that calls \<open>exit(k)\<close>.\<close>

definition exit_status :: "8 word \<Rightarrow> 32 word" where
  "exit_status k = push_bit 8 (ucast k)"

section \<open>State\<close>

datatype wait_ev = Not_Yet | Report "32 word"

record child =
  ch_events :: "wait_ev list"
  ch_out :: string

datatype fork_ev =
    Fork_Fail
  | Fork_Parent int child
  | Fork_Child bool  \<comment> \<open>this process is the child; whether \<open>execvp\<close> succeeds\<close>

record world =
  w_stdin :: string
  w_stdout :: string
  w_forks :: "fork_ev list"
  w_kids :: "(int \<times> child) list"
  w_pipes :: "int \<rightharpoonup> string"
  w_next_fd :: int
  w_sleeps :: "(int \<times> int) list"

definition print :: "string \<Rightarrow> world \<Rightarrow> world" where
  "print s w = w\<lparr>w_stdout := w_stdout w @ s\<rparr>"

section \<open>fgets\<close>

text \<open>\<open>fgets(buf, n, stdin)\<close>: up to \<open>n-1\<close> bytes, stopping behind a newline.\<close>

fun line_of :: "nat \<Rightarrow> string \<Rightarrow> string" where
  "line_of 0 s = []"
| "line_of (Suc n) [] = []"
| "line_of (Suc n) (c # cs) = (if c = LF then [c] else c # line_of n cs)"

definition fgets :: "nat \<Rightarrow> world \<Rightarrow> (string \<times> world) option" where
  "fgets n w =
     (if w_stdin w = [] then None
      else let l = line_of (n - 1) (w_stdin w)
           in Some (l, w\<lparr>w_stdin := drop (length l) (w_stdin w)\<rparr>))"

section \<open>pipe, fork, read, close\<close>

definition sys_pipe :: "world \<Rightarrow> (int \<times> int) \<times> world" where
  "sys_pipe w =
     ((w_next_fd w, w_next_fd w + 1),
      w\<lparr>w_next_fd := w_next_fd w + 2, w_pipes := (w_pipes w)(w_next_fd w \<mapsto> [])\<rparr>)"

text \<open>The next fork result; when the environment has no more, \<open>fork\<close> fails.\<close>

definition next_fork :: "world \<Rightarrow> fork_ev \<times> world" where
  "next_fork w =
     (case w_forks w of [] \<Rightarrow> (Fork_Fail, w) | f # fs \<Rightarrow> (f, w\<lparr>w_forks := fs\<rparr>))"

definition sys_close :: "int \<Rightarrow> world \<Rightarrow> world" where
  "sys_close fd w = w\<lparr>w_pipes := (w_pipes w)(fd := None)\<rparr>"

section \<open>waitpid\<close>

text \<open>One poll of a child: its next event, if it has one.\<close>

fun poll :: "child \<Rightarrow> 32 word option \<times> child" where
  "poll ch =
     (case ch_events ch of
        [] \<Rightarrow> (None, ch)
      | Not_Yet # es \<Rightarrow> (None, ch\<lparr>ch_events := es\<rparr>)
      | Report st # es \<Rightarrow> (Some st, ch\<lparr>ch_events := es\<rparr>))"

text \<open>
  A poll of the children \<open>pid\<close> selects (all of them for -1) in the order they were forked.
  It ends at the first that has something to report, which is dropped from the list
  when it is gone.
\<close>

fun poll_kids :: "int \<Rightarrow> (int \<times> child) list \<Rightarrow> (int \<times> 32 word) option \<times> (int \<times> child) list" where
  "poll_kids pid [] = (None, [])"
| "poll_kids pid ((p, ch) # ks) =
     (if pid = -1 \<or> pid = p
      then (case poll ch of
              (Some st, ch1) \<Rightarrow> (Some (p, st), if WGONE st then ks else (p, ch1) # ks)
            | (None, ch1) \<Rightarrow>
                let (r, ks1) = poll_kids pid ks in (r, (p, ch1) # ks1))
      else let (r, ks1) = poll_kids pid ks in (r, (p, ch) # ks1))"

definition selected :: "int \<Rightarrow> (int \<times> child) list \<Rightarrow> (int \<times> child) list" where
  "selected pid ks = [(p, ch) \<leftarrow> ks. pid = -1 \<or> pid = p]"

text \<open>
  \<open>waitpid\<close> returns -1 when no child is selected. With \<open>WNOHANG\<close> it polls once, and
  returns 0 when nothing is reported; without it, it polls until there is a report, and never
  returns when the selected children have no event left. The status is written
  only with a report.
\<close>

definition kids_events :: "(int \<times> child) list \<Rightarrow> nat" where
  "kids_events ks = sum_list (map (\<lambda>(p, ch). length (ch_events ch)) ks)"

fun wait_poll :: "nat \<Rightarrow> int \<Rightarrow> (int \<times> child) list \<Rightarrow> ((int \<times> 32 word) \<times> (int \<times> child) list) res" where
  "wait_poll 0 pid ks = Inl Blocked"
| "wait_poll (Suc n) pid ks =
     (case poll_kids pid ks of
        (Some r, ks1) \<Rightarrow> Inr (r, ks1)
      | (None, ks1) \<Rightarrow> wait_poll n pid ks1)"

datatype wait_opt = NOBLOCK | DOBLOCK

definition waitpid :: "int \<Rightarrow> wait_opt \<Rightarrow> world \<Rightarrow> ((int \<times> 32 word option) \<times> world) res" where
  "waitpid pid opt w =
     (if selected pid (w_kids w) = [] then Inr ((-1, None), w)
      else case opt of
        NOBLOCK \<Rightarrow>
          (case poll_kids pid (w_kids w) of
             (Some (p, st), ks) \<Rightarrow> Inr ((p, Some st), w\<lparr>w_kids := ks\<rparr>)
           | (None, ks) \<Rightarrow> Inr ((0, None), w\<lparr>w_kids := ks\<rparr>))
      | DOBLOCK \<Rightarrow>
          map_res (\<lambda>((p, st), ks). ((p, Some st), w\<lparr>w_kids := ks\<rparr>))
            (wait_poll (Suc (kids_events (w_kids w))) pid (w_kids w)))"

section \<open>Facts\<close>

lemma mask_words: "(0x7F :: 32 word) = mask 7" "(0xFF :: 32 word) = mask 8"
  by (simp_all add: mask_eq_exp_minus_1)

lemma WIFEXITED_exit_status [simp]: "WIFEXITED (exit_status k)"
proof -
  have "push_bit 8 (ucast k :: 32 word) AND mask 7 = 0"
    by (rule bit_eqI) (auto simp: bit_simps)
  then show ?thesis by (simp add: WIFEXITED_def exit_status_def mask_words)
qed

lemma WEXITSTATUS_exit_status [simp]: "WEXITSTATUS (exit_status k) = uint k"
proof -
  have "drop_bit 8 (push_bit 8 (ucast k :: 32 word)) AND mask 8 = ucast k"
    by (rule bit_eqI) (auto simp: bit_simps dest: bit_imp_le_length)
  moreover have "uint k < 2 ^ 8" using uint_lt2p [of k] by simp
  ultimately show ?thesis
    by (simp add: WEXITSTATUS_def exit_status_def mask_words unsigned_ucast_eq
        take_bit_int_eq_self)
qed

lemma WEXITSTATUS_range: "0 \<le> WEXITSTATUS st \<and> WEXITSTATUS st \<le> 255"
proof -
  have "uint (take_bit 8 (drop_bit 8 st)) < 2 ^ 8"
    unfolding unsigned_take_bit_eq by (rule take_bit_int_less_exp)
  then show ?thesis by (simp add: WEXITSTATUS_def mask_words take_bit_eq_mask)
qed

lemma WIFEXITED_WGONE: "WIFEXITED st \<Longrightarrow> WGONE st"
  by (simp add: WIFEXITED_def WGONE_def)

lemma poll_kids_unselected: "selected pid ks = [] \<Longrightarrow> poll_kids pid ks = (None, ks)"
  by (induction pid ks rule: poll_kids.induct) (auto simp: selected_def split: if_splits)

lemma poll_kids_skip:
  "pid \<noteq> -1 \<Longrightarrow> pid \<notin> fst ` set ks \<Longrightarrow>
   poll_kids pid (ks @ r) = (let (x, r1) = poll_kids pid r in (x, ks @ r1))"
  by (induction ks) (auto split: prod.splits)

lemma selected_absent: "pid \<noteq> -1 \<Longrightarrow> selected pid ks = [] \<longleftrightarrow> pid \<notin> fst ` set ks"
  by (force simp: selected_def filter_empty_conv)

text \<open>A poll of a child that is in the list once.\<close>

lemma poll_kids_one:
  assumes "pid \<noteq> -1" and "pid \<notin> fst ` set a" and "pid \<notin> fst ` set b"
  shows "poll_kids pid (a @ (pid, ch) # b) =
    (case ch_events ch of
       [] \<Rightarrow> (None, a @ (pid, ch) # b)
     | Not_Yet # es \<Rightarrow> (None, a @ (pid, ch\<lparr>ch_events := es\<rparr>) # b)
     | Report st # es \<Rightarrow>
         (Some (pid, st), a @ (if WGONE st then b else (pid, ch\<lparr>ch_events := es\<rparr>) # b)))"
  using assms poll_kids_unselected [of pid b]
  by (auto simp: poll_kids_skip selected_absent split: list.splits wait_ev.splits)

text \<open>A blocking wait for a child passes over the polls that find nothing.\<close>

lemma wait_poll_one:
  assumes "pid \<noteq> -1" and "pid \<notin> fst ` set a" and "pid \<notin> fst ` set b"
    and "ch_events ch = replicate n Not_Yet @ Report st # es" and "n < fuel"
  shows "wait_poll fuel pid (a @ (pid, ch) # b) =
    Inr ((pid, st), a @ (if WGONE st then b else (pid, ch\<lparr>ch_events := es\<rparr>) # b))"
  using assms(4,5)
proof (induction n arbitrary: fuel ch)
  case 0
  then show ?case using assms(1-3) by (cases fuel) (simp_all add: poll_kids_one)
next
  case (Suc n)
  then obtain f where f: "fuel = Suc f" "n < f" by (cases fuel) auto
  let ?ch = "ch\<lparr>ch_events := replicate n Not_Yet @ Report st # es\<rparr>"
  have "wait_poll f pid (a @ (pid, ?ch) # b) =
    Inr ((pid, st), a @ (if WGONE st then b else (pid, ?ch\<lparr>ch_events := es\<rparr>) # b))"
    using f by (intro Suc.IH) simp_all
  then show ?case using assms(1-3) f Suc.prems by (simp add: poll_kids_one)
qed

definition can_report :: "int \<Rightarrow> (int \<times> child) list \<Rightarrow> bool" where
  "can_report pid ks \<longleftrightarrow> (\<exists>(p, ch) \<in> set (selected pid ks). \<exists>st. Report st \<in> set (ch_events ch))"

lemma can_report_simps [simp]:
  "\<not> can_report pid []"
  "can_report pid ((p, ch) # ks) \<longleftrightarrow>
     (pid = -1 \<or> pid = p) \<and> (\<exists>st. Report st \<in> set (ch_events ch)) \<or> can_report pid ks"
  by (auto simp: can_report_def selected_def)

lemma kids_events_simps [simp]:
  "kids_events [] = 0"
  "kids_events ((p, ch) # ks) = length (ch_events ch) + kids_events ks"
  by (simp_all add: kids_events_def)

text \<open>A poll of one child that reports nothing uses up an event, if there is one.\<close>

lemma poll_None:
  "poll ch = (None, ch1) \<Longrightarrow>
     (Report st \<in> set (ch_events ch1) \<longleftrightarrow> Report st \<in> set (ch_events ch))
     \<and> length (ch_events ch1) = length (ch_events ch) - 1"
  by (auto split: list.splits wait_ev.splits)

declare poll.simps [simp del]

lemma poll_kids_None:
  "poll_kids pid ks = (None, ks1) \<Longrightarrow>
     (can_report pid ks1 \<longleftrightarrow> can_report pid ks) \<and> kids_events ks1 \<le> kids_events ks
     \<and> (can_report pid ks \<longrightarrow> kids_events ks1 < kids_events ks)"
proof (induction pid ks arbitrary: ks1 rule: poll_kids.induct)
  case (1 pid)
  then show ?case by simp
next
  case (2 pid p ch ks)
  show ?case
  proof (cases "pid = -1 \<or> pid = p")
    case True
    with "2.prems" obtain ch1 ks2 where ks: "poll ch = (None, ch1)"
        "poll_kids pid ks = (None, ks2)" "ks1 = (p, ch1) # ks2"
      by (auto split: prod.splits option.splits)
    then have IH: "(can_report pid ks2 \<longleftrightarrow> can_report pid ks) \<and> kids_events ks2 \<le> kids_events ks
        \<and> (can_report pid ks \<longrightarrow> kids_events ks2 < kids_events ks)"
      using "2.IH"(1) [OF True] by simp
    have "Report st \<in> set (ch_events ch) \<Longrightarrow>
        length (ch_events ch) - Suc 0 < length (ch_events ch)" for st
      by (cases "ch_events ch") auto
    then show ?thesis
      using True IH poll_None [OF ks(1)] ks(3) by (auto intro: add_less_le_mono)
  next
    case False
    with "2.prems" obtain ks2 where "poll_kids pid ks = (None, ks2)" "ks1 = (p, ch) # ks2"
      by (auto split: prod.splits)
    then show ?thesis using "2.IH"(2) [OF False] False by simp
  qed
qed

lemma poll_kids_Some: "poll_kids pid ks = (Some r, ks1) \<Longrightarrow> can_report pid ks"
  by (induction pid ks arbitrary: ks1 rule: poll_kids.induct)
    (auto simp: poll.simps split: if_splits prod.splits list.splits wait_ev.splits)

lemma wait_poll_never: "\<not> can_report pid ks \<Longrightarrow> wait_poll n pid ks = Inl Blocked"
proof (induction n arbitrary: ks)
  case (Suc n)
  then show ?case
    by (auto split: prod.splits option.splits dest: poll_kids_Some poll_kids_None)
qed simp

text \<open>The polls of a blocking wait are enough: it blocks only when no selected child ever reports.\<close>

lemma wait_poll_blocked_iff:
  "kids_events ks < n \<Longrightarrow> wait_poll n pid ks = Inl Blocked \<longleftrightarrow> \<not> can_report pid ks"
proof (induction n arbitrary: ks)
  case 0
  then show ?case by simp
next
  case (Suc n)
  obtain r ks1 where p: "poll_kids pid ks = (r, ks1)" by force
  show ?case
  proof (cases r)
    case None
    note N = poll_kids_None [OF p [unfolded None]]
    show ?thesis
    proof (cases "can_report pid ks")
      case True
      with N Suc.prems have "kids_events ks1 < n" by simp
      with Suc.IH [of ks1] p None N show ?thesis by simp
    next
      case False
      with N have "\<not> can_report pid ks1" by simp
      then have "wait_poll n pid ks1 = Inl Blocked"
        by (rule wait_poll_never)
      with False p None show ?thesis by simp
    qed
  next
    case (Some x)
    with p poll_kids_Some show ?thesis by auto
  qed
qed

end
