(* ===== verification/Shell_Cmd.thy ===== *)
theory Shell_Cmd
  imports Shell_World
begin

text \<open>
  \<open>Unix_Command_Line_Shell/cmd.c\<close>: one job of the shell, from its creation to the moment its
  output is stored. The lemmas give the life cycle of a job: it is created, started, and
  by an update finished, which happens once and fixes its status and output.
\<close>

abbreviation STATUS_LEN :: nat where "STATUS_LEN \<equiv> 10"

section \<open>State\<close>

text \<open>
  \<open>cmd_t\<close>. The array \<open>argv\<close> has \<open>ARG_MAX+1\<close> entries, \<open>None\<close> for NULL; \<open>out_pipe\<close> is
  \<open>None\<close> until \<open>cmd_start\<close> sets it, \<open>output\<close> until the output is fetched.
\<close>

record cmd_t =
  cmd_name :: string
  cmd_argv :: "string option list"
  cmd_pid :: int
  cmd_out_pipe :: "(int \<times> int) option"
  cmd_finished :: int
  cmd_status :: int
  cmd_str_status :: string
  cmd_output :: "mem option"
  cmd_output_size :: int

section \<open>The code\<close>

text \<open>The copying loop of \<open>cmd_new\<close>, from index \<open>i\<close> of its argument on.\<close>

fun copy_argv :: "nat \<Rightarrow> string option list \<Rightarrow> string option list res" where
  "copy_argv i [] = undef Out_Of_Bounds"
| "copy_argv i (None # as) = Inr []"
| "copy_argv i (Some s # as) =
     (if i < ARGS_MAX + 1 then map_res (Cons (Some s)) (copy_argv (Suc i) as)
      else undef Buffer_Overflow)"

definition cmd_new :: "string option list \<Rightarrow> cmd_t res" where
  "cmd_new argv =
     rbind (copy_argv 0 argv) (\<lambda>copied.
     case hd argv of
       None \<Rightarrow> undef Null_Pointer
     | Some name \<Rightarrow>
         if NAME_MAX < length name then undef Buffer_Overflow
         else Inr \<lparr>cmd_name = name,
                  cmd_argv = copied @ replicate (ARGS_MAX + 1 - length copied) None,
                  cmd_pid = -1,
                  cmd_out_pipe = None,
                  cmd_finished = 0,
                  cmd_status = -1,
                  cmd_str_status = snprintf STATUS_LEN ''INIT'',
                  cmd_output = None,
                  cmd_output_size = -1\<rparr>)"

text \<open>The arguments before the NULL entry, as the loops over \<open>argv\<close> visit them.\<close>

fun argv_strings :: "string option list \<Rightarrow> string list res" where
  "argv_strings [] = undef Out_Of_Bounds"
| "argv_strings (None # as) = Inr []"
| "argv_strings (Some s # as) = map_res (Cons s) (argv_strings as)"

text \<open>The blocks \<open>cmd_free\<close> gives back, in its order.\<close>

datatype block = Argv_Block nat | Output_Block | Cmd_Block

definition cmd_free :: "cmd_t \<Rightarrow> block list res" where
  "cmd_free cmd =
     map_res (\<lambda>args. map Argv_Block [0..<length args]
       @ (if cmd_output cmd \<noteq> None then [Output_Block] else []) @ [Cmd_Block])
       (argv_strings (cmd_argv cmd))"

text \<open>
  \<open>cmd_start\<close> returns in the parent, or in the child when \<open>execvp\<close> fails; when \<open>execvp\<close>
  succeeds, the process goes on as the other program.
\<close>

datatype 'a started = Started 'a | Replaced string "string option list"

definition cmd_start :: "cmd_t \<Rightarrow> world \<Rightarrow> (cmd_t \<times> world) started" where
  "cmd_start cmd w =
     (let (fds, w1) = sys_pipe w;
          (fork, w2) = next_fork w1;
          cmd1 = cmd\<lparr>cmd_out_pipe := Some fds, cmd_str_status := snprintf STATUS_LEN ''RUN''\<rparr>
      in case fork of
           Fork_Child exec_ok \<Rightarrow>
             if exec_ok then Replaced (cmd_name cmd1) (cmd_argv cmd1)
             else Started (cmd1, sys_close (fst fds) (w2\<lparr>w_kids := []\<rparr>))
         | Fork_Parent child_pid ch \<Rightarrow>
             Started (cmd1\<lparr>cmd_pid := child_pid\<rparr>,
               w2\<lparr>w_kids := w_kids w2 @ [(child_pid, ch)],
                  w_pipes := (w_pipes w2)(fst fds \<mapsto> ch_out ch)\<rparr>)
         | Fork_Fail \<Rightarrow> Started (cmd1\<lparr>cmd_pid := -1\<rparr>, w2))"

definition cmd_label :: "cmd_t \<Rightarrow> string" where
  "cmd_label cmd = cmd_name cmd @ ''[#'' @ show_int (cmd_pid cmd) @ '']''"

definition cmd_fetch_output :: "cmd_t \<Rightarrow> world \<Rightarrow> (cmd_t \<times> world) res" where
  "cmd_fetch_output cmd w =
     (if cmd_finished cmd = 0 then Inr (cmd, print (cmd_label cmd @ '' not finished yet'' @ [LF]) w)
      else case cmd_out_pipe cmd of
        None \<Rightarrow> undef Uninitialised
      | Some (fd, _) \<Rightarrow>
          rbind (read_all (w_pipes w fd)) (\<lambda>(output, output_size, rest).
            Inr (cmd\<lparr>cmd_output := Some output, cmd_output_size := output_size\<rparr>,
                 sys_close fd w)))"

definition cmd_print_output :: "cmd_t \<Rightarrow> world \<Rightarrow> world res" where
  "cmd_print_output cmd w =
     (case cmd_output cmd of
        None \<Rightarrow> Inr (print (cmd_label cmd @ '' has no output yet'' @ [LF]) w)
      | Some m \<Rightarrow> map_res (\<lambda>s. print s w) (mem_read (nat (cmd_output_size cmd)) m))"

text \<open>The text of the format \<open>EXIT(%d)\<close>.\<close>

definition exit_text :: "int \<Rightarrow> string" where
  "exit_text k = ''EXIT('' @ show_int k @ '')''"

definition cmd_alert :: "cmd_t \<Rightarrow> string" where
  "cmd_alert cmd =
     ''@!!! '' @ cmd_label cmd @ '': '' @ exit_text (cmd_status cmd) @ [LF]"

definition cmd_update_state :: "cmd_t \<Rightarrow> wait_opt \<Rightarrow> world \<Rightarrow> (cmd_t \<times> world) res" where
  "cmd_update_state cmd nohang w =
     (if cmd_finished cmd = 1 then Inr (cmd, w)
      else
        rbind (waitpid (cmd_pid cmd) nohang w) (\<lambda>((pid, status), w1).
          if pid = cmd_pid cmd then
            (case status of
               None \<Rightarrow> undef Uninitialised
             | Some st \<Rightarrow>
                 if WIFEXITED st then
                   let cmd1 = cmd\<lparr>cmd_finished := 1, cmd_status := WEXITSTATUS st\<rparr>;
                       cmd2 = cmd1\<lparr>cmd_str_status :=
                         snprintf STATUS_LEN (exit_text (cmd_status cmd1))\<rparr>
                   in cmd_fetch_output cmd2 (print (cmd_alert cmd2) w1)
                 else Inr (cmd, w1))
          else Inr (cmd, w1)))"

section \<open>Invariant of a job\<close>

definition job_unfinished :: "cmd_t \<Rightarrow> bool" where
  "job_unfinished c \<longleftrightarrow> cmd_finished c = 0 \<and> cmd_status c = -1 \<and> cmd_output c = None
     \<and> cmd_output_size c = -1 \<and> (cmd_str_status c = ''INIT'' \<or> cmd_str_status c = ''RUN'')"

definition job_finished :: "cmd_t \<Rightarrow> bool" where
  "job_finished c \<longleftrightarrow> cmd_finished c = 1 \<and> 0 \<le> cmd_status c \<and> cmd_status c \<le> 255
     \<and> cmd_str_status c = exit_text (cmd_status c)
     \<and> (\<exists>m. cmd_output c = Some m \<and> 0 \<le> cmd_output_size c \<and> cmd_output_size c < int (length m))"

text \<open>The arguments are terminated inside their array, and the name fits its own.\<close>

definition job_shape :: "cmd_t \<Rightarrow> bool" where
  "job_shape c \<longleftrightarrow> length (cmd_argv c) = ARGS_MAX + 1 \<and> None \<in> set (cmd_argv c)
     \<and> length (cmd_name c) \<le> NAME_MAX"

definition job_wf :: "cmd_t \<Rightarrow> bool" where
  "job_wf c \<longleftrightarrow> job_shape c \<and> (job_unfinished c \<or> job_finished c)"

text \<open>Every pipe holds less than 2^29 bytes; kernel limits are far below that.\<close>

definition pipes_ok :: "world \<Rightarrow> bool" where
  "pipes_ok w \<longleftrightarrow> (\<forall>fd s. w_pipes w fd = Some s \<longrightarrow> length s < 2 ^ 29)
     \<and> (\<forall>p ch. Fork_Parent p ch \<in> set (w_forks w) \<longrightarrow> length (ch_out ch) < 2 ^ 29)"

section \<open>Facts\<close>

lemma copy_argv_words:
  "copy_argv i (map Some ws @ None # r) =
     (if ws = [] \<or> i + length ws \<le> ARGS_MAX + 1 then Inr (map Some ws) else undef Buffer_Overflow)"
  by (induction ws arbitrary: i) auto

lemma argv_strings_words: "argv_strings (map Some ws @ None # r) = Inr ws"
  by (induction ws) auto

lemma argv_strings_ok: "None \<in> set a \<Longrightarrow> \<exists>ws. argv_strings a = Inr ws \<and> length ws < length a"
  by (induction a rule: argv_strings.induct) auto

text \<open>A job made from words: what \<open>cmd_new\<close> returns when everything fits.\<close>

definition fresh_job :: "string list \<Rightarrow> cmd_t" where
  "fresh_job ws =
     \<lparr>cmd_name = hd ws,
      cmd_argv = map Some ws @ replicate (ARGS_MAX + 1 - length ws) None,
      cmd_pid = -1, cmd_out_pipe = None, cmd_finished = 0, cmd_status = -1,
      cmd_str_status = ''INIT'', cmd_output = None, cmd_output_size = -1\<rparr>"

lemma cmd_new_words:
  assumes "ws \<noteq> []"
  shows "cmd_new (map Some ws @ [None]) =
    (if length ws \<le> ARGS_MAX + 1 \<and> length (hd ws) \<le> NAME_MAX then Inr (fresh_job ws)
     else undef Buffer_Overflow)"
  using assms copy_argv_words [of 0 ws "[]"]
  by (cases ws) (auto simp: cmd_new_def fresh_job_def snprintf_def)

lemma fresh_job_wf:
  assumes "length ws \<le> ARGS_MAX" and "length (hd ws) \<le> NAME_MAX"
  shows "job_wf (fresh_job ws)" and "job_shape (fresh_job ws)" and "job_unfinished (fresh_job ws)"
  using assms by (auto simp: job_wf_def job_shape_def job_unfinished_def fresh_job_def)

lemma exit_text_fits:
  assumes "0 \<le> k" and "k \<le> 255"
  shows "snprintf STATUS_LEN (exit_text k) = exit_text k"
proof -
  have "length (show_nat (nat k)) \<le> 3" using assms length_show_nat [of "nat k" 3] by simp
  with assms show ?thesis by (simp add: snprintf_def show_int_def exit_text_def)
qed

lemma take_Suc_prefix: "take (Suc (length s)) m = map Some s @ [x] \<Longrightarrow> take (length s) m = map Some s"
  by (metis append_take_drop_id append_eq_conv_conj length_map take_all_iff take_append append_assoc)

text \<open>What a job becomes when its child has exited with status word \<open>st\<close>.\<close>

definition finish_job :: "32 word \<Rightarrow> mem \<Rightarrow> nat \<Rightarrow> cmd_t \<Rightarrow> cmd_t" where
  "finish_job st m n c =
     c\<lparr>cmd_finished := 1, cmd_status := WEXITSTATUS st,
       cmd_str_status := exit_text (WEXITSTATUS st),
       cmd_output := Some m, cmd_output_size := int n\<rparr>"

lemma cmd_update_finished: "cmd_finished c = 1 \<Longrightarrow> cmd_update_state c opt w = Inr (c, w)"
  by (simp add: cmd_update_state_def)

lemma cmd_update_ignored:
  assumes "cmd_finished c \<noteq> 1" and "waitpid (cmd_pid c) opt w = Inr ((pid, st), w1)"
    and "pid \<noteq> cmd_pid c \<or> (\<exists>s. st = Some s \<and> \<not> WIFEXITED s)"
  shows "cmd_update_state c opt w = Inr (c, w1)"
  using assms by (auto simp: cmd_update_state_def)

lemma cmd_update_exited:
  assumes "cmd_finished c \<noteq> 1" and "waitpid (cmd_pid c) opt w = Inr ((cmd_pid c, Some st), w1)"
    and "WIFEXITED st" and "cmd_out_pipe c = Some (fd, wr)"
    and "read_all (w_pipes w1 fd) = Inr (m, int n, r)"
  shows "cmd_update_state c opt w =
    Inr (finish_job st m n c, sys_close fd (print (cmd_alert (finish_job st m n c)) w1))"
  using assms WEXITSTATUS_range [of st]
  by (simp add: cmd_update_state_def cmd_fetch_output_def finish_job_def exit_text_fits
      cmd_alert_def cmd_label_def print_def)

lemma finish_job_wf:
  assumes "job_wf c" and "n < length m"
  shows "job_wf (finish_job st m n c)" and "job_finished (finish_job st m n c)"
  using assms WEXITSTATUS_range [of st]
  by (auto simp: job_wf_def job_shape_def job_finished_def finish_job_def)

lemma waitpid_gone:
  assumes "pid \<noteq> -1" and "pid \<notin> fst ` set (w_kids w)"
  shows "waitpid pid opt w = Inr ((-1, None), w)"
  using assms selected_absent [of pid "w_kids w"] by (simp add: waitpid_def)

text \<open>A blocking wait for a child, and a poll of a child that has a report ready.\<close>

lemma waitpid_block:
  assumes "pid \<noteq> -1" and "w_kids w = a @ (pid, ch) # b"
    and "pid \<notin> fst ` set a" and "pid \<notin> fst ` set b"
    and "ch_events ch = replicate n Not_Yet @ Report st # es"
  shows "waitpid pid DOBLOCK w = Inr ((pid, Some st),
    w\<lparr>w_kids := a @ (if WGONE st then b else (pid, ch\<lparr>ch_events := es\<rparr>) # b)\<rparr>)"
proof -
  have "n < Suc (kids_events (w_kids w))"
    using assms(2,5) by (simp add: kids_events_def)
  then have "wait_poll (Suc (kids_events (w_kids w))) pid (w_kids w) = Inr ((pid, st),
      a @ (if WGONE st then b else (pid, ch\<lparr>ch_events := es\<rparr>) # b))"
    unfolding assms(2) using assms(1,3-5) by (intro wait_poll_one)
  then show ?thesis
    using assms(1,2) selected_absent [of pid "w_kids w"]
    by (simp add: waitpid_def del: wait_poll.simps)
qed

lemma waitpid_poll:
  assumes "pid \<noteq> -1" and "w_kids w = a @ (pid, ch) # b"
    and "pid \<notin> fst ` set a" and "pid \<notin> fst ` set b"
  shows "waitpid pid NOBLOCK w =
    (case ch_events ch of
       [] \<Rightarrow> Inr ((0, None), w)
     | Not_Yet # es \<Rightarrow> Inr ((0, None), w\<lparr>w_kids := a @ (pid, ch\<lparr>ch_events := es\<rparr>) # b\<rparr>)
     | Report st # es \<Rightarrow> Inr ((pid, Some st),
         w\<lparr>w_kids := a @ (if WGONE st then b else (pid, ch\<lparr>ch_events := es\<rparr>) # b)\<rparr>))"
  using assms selected_absent [of pid "w_kids w"]
  by (auto simp: waitpid_def poll_kids_one split: list.splits wait_ev.splits)

text \<open>What an update that returns can have done.\<close>

lemma cmd_update_cases:
  assumes "cmd_update_state c opt w = Inr (c1, w1)"
  obtains (finished) "cmd_finished c = 1" "c1 = c" "w1 = w"
  | (ignored) p st where "cmd_finished c \<noteq> 1" "waitpid (cmd_pid c) opt w = Inr ((p, st), w1)" "c1 = c"
  | (exited) s w2 fd wr m n r where "cmd_finished c \<noteq> 1"
      "waitpid (cmd_pid c) opt w = Inr ((cmd_pid c, Some s), w2)" "WIFEXITED s"
      "cmd_out_pipe c = Some (fd, wr)" "read_all (w_pipes w2 fd) = Inr (m, int n, r)" "n < length m"
      "c1 = finish_job s m n c" "w1 = sys_close fd (print (cmd_alert (finish_job s m n c)) w2)"
proof (cases "cmd_finished c = 1")
  case True
  with assms show ?thesis by (intro finished) (simp_all add: cmd_update_finished)
next
  case False
  obtain pid st w2 where wp: "waitpid (cmd_pid c) opt w = Inr ((pid, st), w2)"
    using assms False by (auto simp: cmd_update_state_def)
  show ?thesis
  proof (cases "pid \<noteq> cmd_pid c \<or> (\<exists>s. st = Some s \<and> \<not> WIFEXITED s)")
    case True
    with cmd_update_ignored [OF False wp] assms wp show ?thesis by (intro ignored [OF False]) auto
  next
    case upd: False
    with assms wp obtain s where s: "st = Some s" "WIFEXITED s"
      by (cases st) (auto simp: cmd_update_state_def False)
    from assms wp upd s False obtain fd wr m n r where
      r: "cmd_out_pipe c = Some (fd, wr)" "read_all (w_pipes w2 fd) = Inr (m, n, r)"
      by (auto simp: cmd_update_state_def cmd_fetch_output_def print_def Let_def
          split: option.splits)
    with read_all_in_bounds [OF r(2)] have n: "n = int (nat n)" "nat n < length m" by auto
    with cmd_update_exited [OF False _ s(2) r(1), of opt w w2 m "nat n" r] wp upd s r(2) assms
    show ?thesis by (intro exited [OF False _ s(2) r(1)]) auto
  qed
qed

lemma cmd_update_shape:
  assumes "job_wf c" and "cmd_update_state c opt w = Inr (c', w')"
  shows "job_wf c' \<and> (job_finished c \<longrightarrow> c' = c \<and> w' = w)
    \<and> (c' = c \<or> job_unfinished c \<and> job_finished c')"
  using assms(2)
proof (cases rule: cmd_update_cases)
  case finished
  with assms(1) show ?thesis by simp
next
  case ignored
  with assms(1) show ?thesis by (simp add: job_finished_def)
next
  case exited
  with assms(1) finish_job_wf [OF assms(1) exited(6)] show ?thesis
    by (auto simp: job_wf_def job_finished_def)
qed

lemma update_keeps_shape:
  "cmd_update_state c opt w = Inr (c1, w1) \<Longrightarrow> job_shape c \<Longrightarrow> job_shape c1"
  by (erule cmd_update_cases) (auto simp: job_shape_def finish_job_def)

text \<open>A shell process about to fork a child with pid 7 that writes ''hi'' and exits with \<open>k\<close>.\<close>

definition hello_world :: "8 word \<Rightarrow> world" where
  "hello_world k =
     \<lparr>w_stdin = [], w_stdout = [],
      w_forks = [Fork_Parent 7
        \<lparr>ch_events = [Not_Yet, Not_Yet, Report (exit_status k)], ch_out = ''hi''\<rparr>],
      w_kids = [], w_pipes = Map.empty, w_next_fd = 3, w_sleeps = []\<rparr>"

section \<open>Properties\<close>

text \<open>
  \<open>cmd_new\<close> on a non-empty token array makes the fresh job of its words exactly when there
  are at most 256 of them and the first has at most 255 characters; otherwise it overruns
  \<open>argv\<close> or \<open>name\<close>.
\<close>

theorem cmd_new_spec:
  assumes "ws \<noteq> []"
  shows "cmd_new (map Some ws @ [None]) =
    (if length ws \<le> ARGS_MAX + 1 \<and> length (hd ws) \<le> NAME_MAX then Inr (fresh_job ws)
     else undef Buffer_Overflow)"
  using assms by (rule cmd_new_words)

theorem cmd_new_spec_witness:
  "cmd_new [Some (replicate 300 CHR ''x''), None] = undef Buffer_Overflow"
  using cmd_new_spec [of "[replicate 300 CHR ''x'']"] by simp

lemma job_runs:
  assumes "w_forks w = Fork_Parent p
      \<lparr>ch_events = replicate n Not_Yet @ [Report (exit_status k)], ch_out = d\<rparr> # fs"
    and "0 < p" and "p \<notin> fst ` set (w_kids w)" and "job_unfinished c"
    and "length d < 2 ^ 29" and "length d < 1024 \<or> NUL \<notin> set d"
  shows "\<exists>c1 w1 c2 w2. cmd_start c w = Started (c1, w1) \<and> cmd_str_status c1 = ''RUN''
     \<and> cmd_update_state c1 DOBLOCK w1 = Inr (c2, w2)
     \<and> cmd_finished c2 = 1 \<and> cmd_status c2 = uint k \<and> cmd_str_status c2 = exit_text (uint k)
     \<and> w_stdout w2 = w_stdout w @ cmd_alert c2 \<and> w_kids w2 = w_kids w
     \<and> cmd_print_output c2 w2 = Inr (print d w2)"
proof -
  let ?fd = "w_next_fd w" and ?ch = "\<lparr>ch_events = replicate n Not_Yet @ [Report (exit_status k)], ch_out = d\<rparr>"
  define c1 where "c1 = c\<lparr>cmd_out_pipe := Some (?fd, ?fd + 1), cmd_str_status := ''RUN'', cmd_pid := p\<rparr>"
  define w1 where "w1 = w\<lparr>w_next_fd := ?fd + 2, w_forks := fs, w_kids := w_kids w @ [(p, ?ch)],
    w_pipes := (w_pipes w)(?fd \<mapsto> d)\<rparr>"
  have start: "cmd_start c w = Started (c1, w1)"
    using assms(1) by (simp add: cmd_start_def sys_pipe_def next_fork_def snprintf_def c1_def w1_def)
  obtain m where m: "read_all (Some d) = Inr (m, int (length d), [])"
      "take (Suc (length d)) m = map Some d @ [Some NUL]"
    using read_all_whole [of d] assms(5,6) by blast
  then have read: "mem_read (length d) m = Inr d" by (simp add: mem_read_prefix take_Suc_prefix)
  have "waitpid p DOBLOCK w1 = Inr ((p, Some (exit_status k)), w1\<lparr>w_kids := w_kids w\<rparr>)"
    using assms(2,3) waitpid_block [of p w1 "w_kids w" ?ch "[]" n "exit_status k" "[]"]
    by (simp add: w1_def WIFEXITED_WGONE)
  then have "cmd_update_state c1 DOBLOCK w1 = Inr (finish_job (exit_status k) m (length d) c1,
      sys_close ?fd (print (cmd_alert (finish_job (exit_status k) m (length d) c1))
        (w1\<lparr>w_kids := w_kids w\<rparr>)))"
    using assms(4) m(1)
    by (intro cmd_update_exited [where wr = "?fd + 1" and r = "[]"])
      (auto simp: c1_def w1_def job_unfinished_def)
  with start read show ?thesis
    by (auto simp: c1_def w1_def finish_job_def sys_close_def print_def cmd_print_output_def)
qed

text \<open>
  C10. The life of a job. Started in the parent, waited for and printed, a job whose child
  exits with code \<open>k\<close> after any number of polls and writes \<open>d\<close> ends finished, with status
  \<open>k\<close>, announces itself once, leaves no child behind, and prints exactly \<open>d\<close>.
\<close>

theorem job_life_cycle:
  assumes "w_forks w = Fork_Parent p
      \<lparr>ch_events = replicate n Not_Yet @ [Report (exit_status k)], ch_out = d\<rparr> # fs"
    and "0 < p" and "p \<notin> fst ` set (w_kids w)" and "job_unfinished c"
    and "length d < 2 ^ 29" and "length d < 1024 \<or> NUL \<notin> set d"
  shows "\<exists>c1 w1 c2 w2. cmd_start c w = Started (c1, w1) \<and> cmd_str_status c1 = ''RUN''
     \<and> cmd_update_state c1 DOBLOCK w1 = Inr (c2, w2)
     \<and> cmd_finished c2 = 1 \<and> cmd_status c2 = uint k \<and> cmd_str_status c2 = exit_text (uint k)
     \<and> w_stdout w2 = w_stdout w @ cmd_alert c2 \<and> w_kids w2 = w_kids w
     \<and> cmd_print_output c2 w2 = Inr (print d w2)"
  using assms by (rule job_runs)

theorem job_life_cycle_witness:
  "\<exists>c1 w1 c2 w2.
     cmd_start (fresh_job [''echo'', ''hi'']) (hello_world 3) = Started (c1, w1)
     \<and> cmd_str_status c1 = ''RUN''
     \<and> cmd_update_state c1 DOBLOCK w1 = Inr (c2, w2)
     \<and> cmd_finished c2 = 1 \<and> cmd_status c2 = 3 \<and> cmd_str_status c2 = exit_text 3
     \<and> w_stdout w2 = cmd_alert c2 \<and> w_kids w2 = []
     \<and> cmd_print_output c2 w2 = Inr (print ''hi'' w2)"
proof -
  have two: "replicate 2 Not_Yet = [Not_Yet, Not_Yet]" by (simp add: numeral_2_eq_2)
  show ?thesis
    using job_life_cycle [of "hello_world 3" 7 2 3 "''hi''" "[]" "fresh_job [''echo'', ''hi'']"]
    by (simp add: hello_world_def job_unfinished_def fresh_job_def two)
qed

text \<open>
  C22. A finished job never changes again, an update keeps the shape of every job, and the only
  way it changes one is to finish it.
\<close>

theorem cmd_update_keeps_jobs:
  assumes "job_wf c" and "cmd_update_state c opt w = Inr (c', w')"
  shows "job_wf c' \<and> (job_finished c \<longrightarrow> c' = c \<and> w' = w)
    \<and> (c' = c \<or> job_unfinished c \<and> job_finished c')"
  using assms by (rule cmd_update_shape)

theorem cmd_update_keeps_jobs_witness:
  "cmd_update_state (fresh_job [''ls''] \<lparr>cmd_pid := 7\<rparr>) NOBLOCK (hello_world 0)
      = Inr (fresh_job [''ls''] \<lparr>cmd_pid := 7\<rparr>, hello_world 0)
    \<and> job_wf (fresh_job [''ls''] \<lparr>cmd_pid := 7\<rparr>)"
proof -
  have "cmd_update_state (fresh_job [''ls''] \<lparr>cmd_pid := 7\<rparr>) NOBLOCK (hello_world 0)
      = Inr (fresh_job [''ls''] \<lparr>cmd_pid := 7\<rparr>, hello_world 0)"
    by (intro cmd_update_ignored [OF _ waitpid_gone]) (simp_all add: fresh_job_def hello_world_def)
  moreover have "job_wf (fresh_job [''ls''] \<lparr>cmd_pid := 7\<rparr>)"
    by (simp add: fresh_job_def job_wf_def job_shape_def job_unfinished_def)
  ultimately show ?thesis using cmd_update_keeps_jobs by blast
qed

text \<open>
  A job killed by a signal is never reported: the update that reaps its child leaves the
  job running, and no later update, blocking or not, changes it.
\<close>

theorem killed_job_runs_forever:
  assumes "job_unfinished c" and "0 < cmd_pid c" and "w_kids w = a @ (cmd_pid c, ch) # b"
    and "cmd_pid c \<notin> fst ` set a" and "cmd_pid c \<notin> fst ` set b"
    and "ch_events ch = Report st # es" and "WGONE st" and "\<not> WIFEXITED st"
  shows "\<exists>w'. cmd_update_state c opt w = Inr (c, w') \<and> w_kids w' = a @ b
    \<and> (\<forall>opt'. cmd_update_state c opt' w' = Inr (c, w'))"
proof -
  let ?w = "w\<lparr>w_kids := a @ b\<rparr>"
  have "waitpid (cmd_pid c) opt w = Inr ((cmd_pid c, Some st), ?w)"
    using assms waitpid_poll [of "cmd_pid c" w a ch b]
      waitpid_block [of "cmd_pid c" w a ch b 0 st es] by (cases opt) simp_all
  moreover have "waitpid (cmd_pid c) opt' ?w = Inr ((-1, None), ?w)" for opt'
    using assms by (intro waitpid_gone) auto
  ultimately show ?thesis
    using assms by (intro exI [of _ ?w]) (auto simp: job_unfinished_def intro!: cmd_update_ignored)
qed

text \<open>The status word of a child killed by \<open>SIGKILL\<close> is 9.\<close>

theorem killed_job_runs_forever_witness:
  "\<exists>w'. cmd_update_state (fresh_job [''sleep'']\<lparr>cmd_pid := 7\<rparr>) DOBLOCK
        (hello_world 0\<lparr>w_kids := [(7, \<lparr>ch_events = [Report 9], ch_out = []\<rparr>)]\<rparr>)
      = Inr (fresh_job [''sleep'']\<lparr>cmd_pid := 7\<rparr>, w') \<and> w_kids w' = []
    \<and> (\<forall>opt'. cmd_update_state (fresh_job [''sleep'']\<lparr>cmd_pid := 7\<rparr>) opt' w'
        = Inr (fresh_job [''sleep'']\<lparr>cmd_pid := 7\<rparr>, w'))"
  using killed_job_runs_forever [of "fresh_job [''sleep'']\<lparr>cmd_pid := 7\<rparr>"
      "hello_world 0\<lparr>w_kids := [(7, \<lparr>ch_events = [Report 9], ch_out = []\<rparr>)]\<rparr>" "[]"
      "\<lparr>ch_events = [Report 9], ch_out = []\<rparr>" "[]" 9 "[]" DOBLOCK]
  by (simp add: fresh_job_def job_unfinished_def WGONE_def WIFEXITED_def)

end
