(* ===== verification/Bounded_Table.thy ===== *)
theory Bounded_Table
  imports Prelude
begin

text \<open>
  The contract two components share: a table of bounded capacity to which entries are added
  at the end, and which silently keeps its content when it is full. The shell's job table
  (\<open>cmdctl_add\<close>) and the chat server's client array (\<open>server_add_client\<close>) provide it. The
  extension adds removal by position.
\<close>

text \<open>Every other entry, beginning with the second.\<close>

fun odds :: "'a list \<Rightarrow> 'a list" where
  "odds [] = []"
| "odds [x] = []"
| "odds (x # y # zs) = y # odds zs"

lemma length_odds: "length (odds xs) = length xs div 2"
  by (induction xs rule: odds.induct) simp_all

lemma odds_drop: "odds (x # xs) = take 1 xs @ odds (drop 1 xs)"
  by (cases xs) simp_all

locale bounded_table =
  fixes wf :: "'s \<Rightarrow> bool"
    and items :: "'s \<Rightarrow> 'a list"
    and cap :: nat
    and add :: "'a \<Rightarrow> 's \<Rightarrow> 's"
  assumes items_le: "wf s \<Longrightarrow> length (items s) \<le> cap"
    and wf_add: "wf s \<Longrightarrow> wf (add x s)"
    and add_room: "wf s \<Longrightarrow> length (items s) < cap \<Longrightarrow> items (add x s) = items s @ [x]"
    and add_full: "wf s \<Longrightarrow> length (items s) = cap \<Longrightarrow> add x s = s"
begin

lemma items_add: "wf s \<Longrightarrow> items (add x s) = take cap (items s @ [x])"
  using items_le [of s] add_room [of s x] add_full [of s x]
  by (cases "length (items s) < cap") auto

lemma fold_add:
  "wf s \<Longrightarrow> wf (fold add xs s) \<and> items (fold add xs s) = take cap (items s @ xs)"
proof (induction xs arbitrary: s)
  case Nil
  then show ?case using items_le by simp
next
  case (Cons x xs)
  then have "wf (add x s)" by (simp add: wf_add)
  with Cons.IH [of "add x s"] Cons.prems show ?case
    by (cases "length (items s) < cap") (auto simp: items_add)
qed

lemma fold_add_keeps: "wf s \<Longrightarrow> take (length (items s)) (items (fold add xs s)) = items s"
  using fold_add [of s xs] items_le [of s] by (simp add: min_def)

end

locale bounded_table_remove = bounded_table +
  fixes remove :: "nat \<Rightarrow> 's \<Rightarrow> 's"
  assumes wf_remove: "wf s \<Longrightarrow> i < length (items s) \<Longrightarrow> wf (remove i s)"
    and items_remove: "wf s \<Longrightarrow> i < length (items s) \<Longrightarrow>
      items (remove i s) = take i (items s) @ drop (Suc i) (items s)"
begin

lemma remove_length:
  "wf s \<Longrightarrow> i < length (items s) \<Longrightarrow> length (items (remove i s)) = length (items s) - 1"
  by (simp add: items_remove)

text \<open>Removing what was just added gives the old entries back.\<close>

lemma add_remove:
  "wf s \<Longrightarrow> length (items s) < cap \<Longrightarrow> items (remove (length (items s)) (add x s)) = items s"
  by (simp add: items_remove wf_add add_room)

text \<open>
  A loop that removes the positions 0, 1, 2, \<dots> while they are below the current length
  steps over every other entry: this expression does not change from one round to the next.
\<close>

lemma sweep_step:
  assumes "wf s" and "i < length (items s)"
  shows "take (Suc i) (items (remove i s)) @ odds (drop (Suc i) (items (remove i s)))
    = take i (items s) @ odds (drop i (items s))"
proof -
  obtain a x b where s: "items s = a @ x # b" "length a = i"
    using assms(2) id_take_nth_drop [of i "items s"] by (metis length_take min.absorb4)
  then have r: "items (remove i s) = a @ b" using items_remove [OF assms] by simp
  have "take (Suc i) (a @ b) = a @ take 1 b" "drop (Suc i) (a @ b) = drop 1 b" using s(2) by simp_all
  then show ?thesis using s r odds_drop [of x b] by simp
qed

lemma sweep_end: "length (items s) \<le> i \<Longrightarrow> take i (items s) @ odds (drop i (items s)) = items s"
  by simp

end

end
