(* ===== verification/Shell_Ctl.thy ===== *)
theory Shell_Ctl
  imports Shell_Cmd Bounded_Table
begin

text \<open>
  \<open>Unix_Command_Line_Shell/cmdctl.c\<close>: the table of all jobs. The abstraction of a table is the
  list of its jobs; each operation is related to an operation of that list.
\<close>

abbreviation MAX_CHILD :: nat where "MAX_CHILD \<equiv> 1024"

section \<open>The code\<close>

text \<open>\<open>cmdctl_t\<close>. \<open>None\<close> is an entry of the pointer array that was never written.\<close>

record cmdctl_t =
  ctl_cmd :: "nat \<rightharpoonup> cmd_t"
  ctl_size :: int

definition empty_ctl :: cmdctl_t where
  "empty_ctl = \<lparr>ctl_cmd = Map.empty, ctl_size = 0\<rparr>"

text \<open>Following the pointer \<open>ctl->cmd[i]\<close>.\<close>

definition ctl_job :: "cmdctl_t \<Rightarrow> int \<Rightarrow> cmd_t res" where
  "ctl_job ctl i =
     (if i < 0 \<or> int MAX_CHILD \<le> i then undef Out_Of_Bounds
      else case ctl_cmd ctl (nat i) of None \<Rightarrow> undef Uninitialised | Some c \<Rightarrow> Inr c)"

definition ctl_put :: "nat \<Rightarrow> cmd_t \<Rightarrow> cmdctl_t \<Rightarrow> cmdctl_t" where
  "ctl_put i c ctl = ctl\<lparr>ctl_cmd := (ctl_cmd ctl)(i \<mapsto> c)\<rparr>"

definition cmdctl_add :: "cmd_t \<Rightarrow> cmdctl_t \<Rightarrow> cmdctl_t" where
  "cmdctl_add cmd ctl =
     (if ctl_size ctl \<ge> int MAX_CHILD then ctl
      else (ctl_put (nat (ctl_size ctl)) cmd ctl)\<lparr>ctl_size := ctl_size ctl + 1\<rparr>)"

definition update_job :: "wait_opt \<Rightarrow> nat \<Rightarrow> cmdctl_t \<times> world \<Rightarrow> (cmdctl_t \<times> world) res" where
  "update_job nohang i = (\<lambda>(ctl, w).
     rbind (ctl_job ctl (int i)) (\<lambda>cmd.
     rbind (cmd_update_state cmd nohang w) (\<lambda>(cmd1, w1). Inr (ctl_put i cmd1 ctl, w1))))"

definition cmdctl_update_state ::
  "cmdctl_t \<Rightarrow> wait_opt \<Rightarrow> world \<Rightarrow> (cmdctl_t \<times> world) res" where
  "cmdctl_update_state ctl nohang w =
     for_range [0..<nat (ctl_size ctl)] (update_job nohang) (ctl, w)"

text \<open>\<open>cmdctl_print\<close>: a heading and a row for each job.\<close>

definition print_heading :: string where
  "print_heading =
     pad_right 4 ''JOB'' @ '' #'' @ pad_right 8 ''PID'' @ '' '' @ pad_left 4 ''STAT'' @ '' ''
       @ pad_left 10 ''STR_STAT'' @ '' '' @ pad_left 4 ''OUTB'' @ '' '' @ ''COMMAND'' @ [LF]"

definition row_columns :: "nat \<Rightarrow> cmd_t \<Rightarrow> string" where
  "row_columns i cmd =
     pad_right 4 (show_int (int i)) @ '' #'' @ pad_right 8 (show_int (cmd_pid cmd)) @ '' ''
       @ pad_left 4 (show_int (cmd_status cmd)) @ '' '' @ pad_left 10 (cmd_str_status cmd) @ '' ''
       @ pad_left 4 (show_int (cmd_output_size cmd)) @ '' ''"

definition print_row :: "nat \<Rightarrow> cmd_t \<Rightarrow> string res" where
  "print_row i cmd =
     map_res (\<lambda>args. row_columns i cmd @ concat (map (\<lambda>a. a @ [SP]) args) @ [LF])
       (argv_strings (cmd_argv cmd))"

definition cmdctl_print :: "cmdctl_t \<Rightarrow> world \<Rightarrow> world res" where
  "cmdctl_print ctl w =
     for_range [0..<nat (ctl_size ctl)]
       (\<lambda>i w. rbind (ctl_job ctl (int i)) (\<lambda>cmd. map_res (\<lambda>row. print row w) (print_row i cmd)))
       (print print_heading w)"

text \<open>\<open>cmdctl_freeall\<close>: the blocks given back, each with the number of its job.\<close>

datatype freed = Job_Block nat block | Ctl_Block

definition cmdctl_freeall :: "cmdctl_t \<Rightarrow> freed list res" where
  "cmdctl_freeall ctl =
     map_res (\<lambda>bs. bs @ [Ctl_Block])
       (for_range [0..<nat (ctl_size ctl)]
         (\<lambda>i bs. rbind (ctl_job ctl (int i)) (\<lambda>cmd.
            map_res (\<lambda>b. bs @ map (Job_Block i) b) (cmd_free cmd)))
         [])"

section \<open>The table as a list of jobs\<close>

definition ctl_wf :: "cmdctl_t \<Rightarrow> bool" where
  "ctl_wf ctl \<longleftrightarrow> 0 \<le> ctl_size ctl \<and> ctl_size ctl \<le> int MAX_CHILD
     \<and> (\<forall>i. ctl_cmd ctl i \<noteq> None \<longleftrightarrow> i < nat (ctl_size ctl))"

definition ctl_jobs :: "cmdctl_t \<Rightarrow> cmd_t list" where
  "ctl_jobs ctl = map (\<lambda>i. the (ctl_cmd ctl i)) [0..<nat (ctl_size ctl)]"

lemma length_ctl_jobs [simp]: "length (ctl_jobs ctl) = nat (ctl_size ctl)"
  by (simp add: ctl_jobs_def)

lemma ctl_jobs_empty [simp]: "ctl_jobs empty_ctl = []" and ctl_wf_empty [simp]: "ctl_wf empty_ctl"
  by (simp_all add: ctl_jobs_def ctl_wf_def empty_ctl_def)

lemma ctl_wf_size: "ctl_wf ctl \<Longrightarrow> 0 \<le> ctl_size ctl \<and> nat (ctl_size ctl) \<le> MAX_CHILD"
  by (simp add: ctl_wf_def nat_le_iff)

lemma ctl_job_nth:
  assumes "ctl_wf ctl" and "i < length (ctl_jobs ctl)"
  shows "ctl_job ctl (int i) = Inr (ctl_jobs ctl ! i)"
proof -
  from assms obtain c where "ctl_cmd ctl i = Some c" by (auto simp: ctl_wf_def)
  with assms show ?thesis by (auto simp: ctl_job_def ctl_wf_def ctl_jobs_def)
qed

lemma ctl_put_jobs:
  assumes "ctl_wf ctl" and "i < length (ctl_jobs ctl)"
  shows "ctl_wf (ctl_put i c ctl)" and "ctl_jobs (ctl_put i c ctl) = (ctl_jobs ctl)[i := c]"
  using assms
  by (auto simp: ctl_wf_def ctl_put_def ctl_jobs_def nth_list_update intro!: nth_equalityI)

lemma cmdctl_add_full: "ctl_wf ctl \<Longrightarrow> length (ctl_jobs ctl) = MAX_CHILD \<Longrightarrow> cmdctl_add c ctl = ctl"
  by (auto simp: cmdctl_add_def ctl_wf_def)

lemma cmdctl_add_room:
  assumes "ctl_wf ctl" and "length (ctl_jobs ctl) < MAX_CHILD"
  shows "ctl_wf (cmdctl_add c ctl)" and "ctl_jobs (cmdctl_add c ctl) = ctl_jobs ctl @ [c]"
proof -
  have "nat (ctl_size ctl + 1) = Suc (nat (ctl_size ctl))" using assms by (simp add: ctl_wf_def Suc_nat_eq_nat_zadd1)
  then show "ctl_jobs (cmdctl_add c ctl) = ctl_jobs ctl @ [c]"
    using assms by (auto simp: cmdctl_add_def ctl_jobs_def ctl_put_def)
  show "ctl_wf (cmdctl_add c ctl)"
    using assms by (auto simp: cmdctl_add_def ctl_wf_def ctl_put_def less_Suc_eq)
qed

interpretation jobs: bounded_table ctl_wf ctl_jobs MAX_CHILD cmdctl_add
proof
  fix s :: cmdctl_t and x
  assume wf: "ctl_wf s"
  then show le: "length (ctl_jobs s) \<le> MAX_CHILD" by (simp add: ctl_wf_size)
  show "ctl_wf (cmdctl_add x s)"
    using wf le cmdctl_add_room(1) cmdctl_add_full by (cases "length (ctl_jobs s) < MAX_CHILD") auto
  show "length (ctl_jobs s) < MAX_CHILD \<Longrightarrow> ctl_jobs (cmdctl_add x s) = ctl_jobs s @ [x]"
    using wf by (rule cmdctl_add_room(2))
  show "length (ctl_jobs s) = MAX_CHILD \<Longrightarrow> cmdctl_add x s = s"
    using wf by (rule cmdctl_add_full)
qed

section \<open>Updating all jobs\<close>

fun update_list :: "wait_opt \<Rightarrow> cmd_t list \<Rightarrow> world \<Rightarrow> (cmd_t list \<times> world) res" where
  "update_list opt [] w = Inr ([], w)"
| "update_list opt (c # cs) w =
     rbind (cmd_update_state c opt w) (\<lambda>(c1, w1).
       map_res (\<lambda>(cs1, w2). (c1 # cs1, w2)) (update_list opt cs w1))"

definition same_table :: "(cmdctl_t \<times> world) res \<Rightarrow> (cmd_t list \<times> world) res \<Rightarrow> bool" where
  "same_table r l \<longleftrightarrow>
     (case r of
        Inl e \<Rightarrow> l = Inl e
      | Inr (ctl, w) \<Rightarrow> ctl_wf ctl \<and> l = Inr (ctl_jobs ctl, w))"

lemma update_jobs_list:
  assumes "ctl_wf ctl" and "ctl_jobs ctl = pre @ cs"
  shows "same_table (for_range [length pre..<length pre + length cs] (update_job opt) (ctl, w))
    (map_res (\<lambda>(cs1, w1). (pre @ cs1, w1)) (update_list opt cs w))"
  using assms
proof (induction cs arbitrary: pre ctl w)
  case Nil
  then show ?case by (simp add: same_table_def)
next
  case (Cons c cs)
  let ?n = "length pre"
  have n: "?n < length (ctl_jobs ctl)" using Cons.prems(2) by simp
  then have job: "ctl_job ctl (int ?n) = Inr c"
    using ctl_job_nth [OF Cons.prems(1)] Cons.prems(2) by simp
  have range: "[?n..<?n + length (c # cs)] = ?n # [length (pre @ [x])..<length (pre @ [x]) + length cs]"
    for x :: cmd_t
    using upt_conv_Cons [of ?n "?n + length (c # cs)"] by (simp del: upt_Suc)
  show ?case
  proof (cases "cmd_update_state c opt w")
    case (Inl e)
    then show ?thesis using job unfolding range [of c] by (simp add: update_job_def same_table_def)
  next
    case (Inr r)
    obtain c1 w1 where r: "r = (c1, w1)" by force
    have "ctl_jobs (ctl_put ?n c1 ctl) = (pre @ [c1]) @ cs"
      using ctl_put_jobs(2) [OF Cons.prems(1) n] Cons.prems(2) by (simp add: list_update_append)
    with Cons.IH [OF ctl_put_jobs(1) [OF Cons.prems(1) n, of c1], of "pre @ [c1]" w1]
    show ?thesis using job Inr r unfolding range [of c1]
      by (cases "update_list opt cs w1") (auto simp: update_job_def)
  qed
qed

lemma cmdctl_update_list:
  "ctl_wf ctl \<Longrightarrow>
   same_table (cmdctl_update_state ctl opt w) (update_list opt (ctl_jobs ctl) w)"
  using update_jobs_list [of ctl "[]" "ctl_jobs ctl" opt w]
  by (cases "update_list opt (ctl_jobs ctl) w") (auto simp: cmdctl_update_state_def)

lemma update_list_wf:
  "update_list opt cs w = Inr (cs1, w1) \<Longrightarrow> \<forall>c \<in> set cs. job_wf c \<Longrightarrow>
   length cs1 = length cs \<and>
   list_all2 (\<lambda>c c1. job_wf c1 \<and> (c1 = c \<or> job_unfinished c \<and> job_finished c1)) cs cs1"
proof (induction cs arbitrary: w cs1 w1)
  case (Cons c cs)
  from Cons.prems(1) obtain c1 w2 cs2 where
    "cmd_update_state c opt w = Inr (c1, w2)" "update_list opt cs w2 = Inr (cs2, w1)" "cs1 = c1 # cs2"
    by auto
  then show ?case using Cons.IH [of w2 cs2 w1] Cons.prems(2) cmd_update_shape [of c opt w c1 w2]
    by auto
qed simp

section \<open>Jobs whose children can be waited for\<close>

text \<open>The read ends of the pipes of the jobs that are not finished.\<close>

definition open_fds :: "cmd_t list \<Rightarrow> int list" where
  "open_fds cs = map (\<lambda>c. fst (the (cmd_out_pipe c))) (filter job_unfinished cs)"

definition jobs_live :: "cmd_t list \<Rightarrow> world \<Rightarrow> bool" where
  "jobs_live cs w \<longleftrightarrow>
     (\<forall>c \<in> set cs. job_wf c \<and> (job_unfinished c \<longrightarrow> cmd_out_pipe c \<noteq> None \<and> 0 < cmd_pid c))
     \<and> distinct (open_fds cs)
     \<and> (\<forall>fd \<in> set (open_fds cs). fd < w_next_fd w \<and> w_pipes w fd \<noteq> None)
     \<and> pipes_ok w"

text \<open>What every update leaves alone.\<close>

definition same_env :: "world \<Rightarrow> world \<Rightarrow> bool" where
  "same_env w w1 \<longleftrightarrow> w_stdin w1 = w_stdin w \<and> w_forks w1 = w_forks w
     \<and> w_next_fd w1 = w_next_fd w \<and> w_sleeps w1 = w_sleeps w"

lemma waitpid_frame:
  assumes "waitpid pid opt w = Inr ((p, st), w1)"
  shows "\<exists>ks. w1 = w\<lparr>w_kids := ks\<rparr>"
proof -
  have "\<exists>ks. w = w\<lparr>w_kids := ks\<rparr>" by (rule exI [of _ "w_kids w"]) simp
  with assms show ?thesis
    by (auto simp: waitpid_def simp del: wait_poll.simps
        split: if_splits wait_opt.splits prod.splits option.splits)
qed

lemma wait_poll_stops: "wait_poll n pid ks = Inl e \<Longrightarrow> e = Blocked"
  by (induction n arbitrary: ks) (auto split: prod.splits option.splits)

lemma waitpid_stops: "waitpid pid opt w = Inl e \<Longrightarrow> e = Blocked"
  by (auto simp: waitpid_def simp del: wait_poll.simps dest: wait_poll_stops
      split: if_splits wait_opt.splits prod.splits option.splits)

lemma waitpid_status: "waitpid pid opt w = Inr ((pid, st), w1) \<Longrightarrow> 0 < pid \<Longrightarrow> st \<noteq> None"
  by (auto simp: waitpid_def simp del: wait_poll.simps
      split: if_splits wait_opt.splits prod.splits option.splits)

text \<open>A job whose child has exited is finished, and its pipe alone is closed.\<close>

lemma update_finishes:
  assumes "job_wf c" and "cmd_finished c \<noteq> 1" and "cmd_out_pipe c = Some (fd, wr)"
    and "w_pipes w fd = Some d" and "length d < 2 ^ 29" and "pipes_ok w"
    and "waitpid (cmd_pid c) opt w = Inr ((cmd_pid c, Some s), w\<lparr>w_kids := ks\<rparr>)" and "WIFEXITED s"
  shows "\<exists>c1 w1. cmd_update_state c opt w = Inr (c1, w1) \<and> same_env w w1 \<and> pipes_ok w1
    \<and> (\<forall>f. f \<noteq> fd \<longrightarrow> w_pipes w1 f = w_pipes w f)
    \<and> job_finished c1 \<and> job_wf c1 \<and> \<not> job_unfinished c1"
proof -
  let ?w1 = "w\<lparr>w_kids := ks\<rparr>"
  obtain m where m: "read_all (w_pipes ?w1 fd) = Inr (m, int (length d), [])"
    using read_all_total [OF assms(5)] assms(4) by auto
  let ?c = "finish_job s m (length d) c" and ?w2 = "sys_close fd (print (cmd_alert (finish_job s m (length d) c)) ?w1)"
  have "cmd_update_state c opt w = Inr (?c, ?w2)"
    using cmd_update_exited [OF assms(2) _ assms(8,3) m] assms(7) by simp
  moreover have "job_finished ?c" "job_wf ?c" "\<not> job_unfinished ?c"
    using finish_job_wf [OF assms(1)] read_all_in_bounds [OF m]
    by (auto simp: job_unfinished_def finish_job_def)
  moreover have "same_env w ?w2" "\<forall>f. f \<noteq> fd \<longrightarrow> w_pipes ?w2 f = w_pipes w f"
    by (simp_all add: same_env_def sys_close_def print_def)
  moreover have "pipes_ok ?w2" using assms(6) by (auto simp: pipes_ok_def sys_close_def print_def)
  ultimately show ?thesis by blast
qed

text \<open>One update of a job whose pipe is open either blocks or returns; it closes at most the
job's own pipe, and that only when it finishes the job.\<close>

lemma update_one_live:
  assumes "job_wf c" and "job_unfinished c \<longrightarrow> cmd_out_pipe c \<noteq> None \<and> 0 < cmd_pid c"
    and "\<forall>fd \<in> set (open_fds [c]). w_pipes w fd \<noteq> None" and "pipes_ok w"
  shows "cmd_update_state c opt w = Inl Blocked \<or>
    (\<exists>c1 w1. cmd_update_state c opt w = Inr (c1, w1) \<and> same_env w w1 \<and> pipes_ok w1
      \<and> (\<forall>fd. fd \<notin> set (open_fds [c]) \<longrightarrow> w_pipes w1 fd = w_pipes w fd)
      \<and> (c1 = c \<and> w_pipes w1 = w_pipes w \<or> job_finished c1 \<and> job_wf c1 \<and> \<not> job_unfinished c1))"
proof (cases "job_finished c")
  case True
  then have "cmd_finished c = 1" by (simp add: job_finished_def)
  then show ?thesis using assms(4) by (auto simp: cmd_update_finished same_env_def)
next
  case False
  with assms(1,2) obtain fd wr where c: "job_unfinished c" "cmd_out_pipe c = Some (fd, wr)" "0 < cmd_pid c"
    by (auto simp: job_wf_def)
  have fin: "cmd_finished c \<noteq> 1" using c(1) by (simp add: job_unfinished_def)
  obtain d where d: "w_pipes w fd = Some d" "length d < 2 ^ 29"
    using assms(3,4) c by (fastforce simp: open_fds_def pipes_ok_def)
  show ?thesis
  proof (cases "waitpid (cmd_pid c) opt w")
    case (Inl e)
    then have "cmd_update_state c opt w = Inl Blocked"
      using fin waitpid_stops [OF Inl] by (simp add: cmd_update_state_def)
    then show ?thesis ..
  next
    case (Inr r)
    obtain p st w1 where r: "r = ((p, st), w1)" by (metis surj_pair)
    note wp = Inr [unfolded r]
    obtain ks where w1: "w1 = w\<lparr>w_kids := ks\<rparr>" using waitpid_frame [OF wp] ..
    show ?thesis
    proof (cases "p \<noteq> cmd_pid c \<or> (\<exists>s. st = Some s \<and> \<not> WIFEXITED s)")
      case True
      with cmd_update_ignored [OF fin wp] have "cmd_update_state c opt w = Inr (c, w1)" .
      then show ?thesis using assms(4) by (simp add: w1 same_env_def pipes_ok_def)
    next
      case False
      with waitpid_status wp c(3) obtain s where "p = cmd_pid c" "st = Some s" "WIFEXITED s" by blast
      with update_finishes [OF assms(1) fin c(2) d assms(4)] wp show ?thesis
        using c(1,2) by (fastforce simp: w1 open_fds_def)
    qed
  qed
qed

lemma open_fds_Cons: "open_fds (c # cs) = open_fds [c] @ open_fds cs"
  by (simp add: open_fds_def)

lemma open_fds_finished: "\<not> job_unfinished c \<Longrightarrow> open_fds (c # cs) = open_fds cs"
  by (simp add: open_fds_def)

text \<open>The jobs behind one are updated after it: what they leave alone keeps it live.\<close>

lemma jobs_live_Cons:
  assumes "jobs_live (c # cs) w" and "same_env w w1" and "same_env w1 w2" and "jobs_live cs2 w2"
    and "c1 = c \<and> w_pipes w1 = w_pipes w \<or> job_finished c1 \<and> job_wf c1 \<and> \<not> job_unfinished c1"
    and "set (open_fds cs2) \<subseteq> set (open_fds cs)"
    and "\<forall>fd. fd \<notin> set (open_fds cs) \<longrightarrow> w_pipes w2 fd = w_pipes w1 fd"
  shows "jobs_live (c1 # cs2) w2"
  using assms(5)
proof
  assume c1: "c1 = c \<and> w_pipes w1 = w_pipes w"
  have disj: "set (open_fds [c]) \<inter> set (open_fds cs) = {}"
    using assms(1) open_fds_Cons [of c cs] by (auto simp: jobs_live_def)
  then have "\<forall>fd \<in> set (open_fds [c]). w_pipes w2 fd = w_pipes w fd" using assms(7) c1 by auto
  then show ?thesis
    using c1 assms(1-4,6) disj open_fds_Cons [of c cs] open_fds_Cons [of c cs2]
    by (auto simp: jobs_live_def same_env_def)
next
  assume "job_finished c1 \<and> job_wf c1 \<and> \<not> job_unfinished c1"
  with assms(4) show ?thesis by (simp add: jobs_live_def open_fds_finished)
qed

lemma update_list_live:
  assumes "jobs_live cs w"
  shows "update_list opt cs w = Inl Blocked \<or>
    (\<exists>cs1 w1. update_list opt cs w = Inr (cs1, w1) \<and> same_env w w1 \<and> jobs_live cs1 w1
      \<and> length cs1 = length cs \<and> set (open_fds cs1) \<subseteq> set (open_fds cs)
      \<and> (\<forall>fd. fd \<notin> set (open_fds cs) \<longrightarrow> w_pipes w1 fd = w_pipes w fd))"
  using assms
proof (induction cs arbitrary: w)
  case Nil
  then show ?case by (simp add: same_env_def)
next
  case (Cons c cs)
  consider (block) "cmd_update_state c opt w = Inl Blocked"
    | (upd) c1 w1 where "cmd_update_state c opt w = Inr (c1, w1)" "same_env w w1" "pipes_ok w1"
      "\<forall>fd. fd \<notin> set (open_fds [c]) \<longrightarrow> w_pipes w1 fd = w_pipes w fd"
      "c1 = c \<and> w_pipes w1 = w_pipes w \<or> job_finished c1 \<and> job_wf c1 \<and> \<not> job_unfinished c1"
    using update_one_live [of c w opt] Cons.prems open_fds_Cons [of c cs]
    by (auto simp: jobs_live_def)
  then show ?case
  proof cases
    case block
    then show ?thesis by simp
  next
    case upd
    have "jobs_live cs w1"
      using Cons.prems upd open_fds_Cons [of c cs] by (auto simp: jobs_live_def same_env_def)
    then consider (block) "update_list opt cs w1 = Inl Blocked"
      | (upd2) cs2 w2 where "update_list opt cs w1 = Inr (cs2, w2)" "same_env w1 w2" "jobs_live cs2 w2"
        "length cs2 = length cs" "set (open_fds cs2) \<subseteq> set (open_fds cs)"
        "\<forall>fd. fd \<notin> set (open_fds cs) \<longrightarrow> w_pipes w2 fd = w_pipes w1 fd"
      using Cons.IH by blast
    then show ?thesis
    proof cases
      case block
      then show ?thesis using upd(1) by simp
    next
      case upd2
      have "set (open_fds (c1 # cs2)) \<subseteq> set (open_fds (c # cs))"
        using upd(5) upd2(5) open_fds_Cons [of c cs] open_fds_Cons [of c1 cs2]
        by (auto simp: open_fds_def)
      with jobs_live_Cons [OF Cons.prems upd(2) upd2(2,3) upd(5) upd2(5,6)] show ?thesis
        using upd(1,2,4) upd2 open_fds_Cons [of c cs] by (auto simp: same_env_def)
    qed
  qed
qed

section \<open>Waiting for all jobs\<close>

text \<open>The first thing a child reports is that it has exited.\<close>

definition will_exit :: "child \<Rightarrow> bool" where
  "will_exit ch \<longleftrightarrow>
     (case dropWhile (\<lambda>e. e = Not_Yet) (ch_events ch) of
        Report st # es \<Rightarrow> WIFEXITED st | _ \<Rightarrow> False)"

definition kids_exit :: "cmd_t list \<Rightarrow> world \<Rightarrow> bool" where
  "kids_exit cs w \<longleftrightarrow> distinct (map fst (w_kids w))
     \<and> distinct (map cmd_pid (filter job_unfinished cs))
     \<and> (\<forall>c \<in> set cs. job_unfinished c \<longrightarrow>
          (\<exists>ch. map_of (w_kids w) (cmd_pid c) = Some ch \<and> will_exit ch))"

lemma will_exit_events:
  assumes "will_exit ch"
  shows "\<exists>n st es. ch_events ch = replicate n Not_Yet @ Report st # es \<and> WIFEXITED st"
proof -
  let ?P = "\<lambda>e. e = Not_Yet"
  from assms obtain st es where d: "dropWhile ?P (ch_events ch) = Report st # es" "WIFEXITED st"
    by (auto simp: will_exit_def split: list.splits wait_ev.splits)
  have "takeWhile ?P (ch_events ch) = replicate (length (takeWhile ?P (ch_events ch))) Not_Yet"
    by (intro replicate_eqI) (auto dest: set_takeWhileD)
  then show ?thesis using d by (metis takeWhile_dropWhile_id)
qed

text \<open>A blocking update of one such job finishes it and takes only its child and its pipe away.\<close>

lemma update_one_waits:
  assumes "job_wf c" and "job_unfinished c" and "cmd_out_pipe c = Some (fd, wr)" and "0 < cmd_pid c"
    and "w_pipes w fd = Some d" and "length d < 2 ^ 29"
    and "distinct (map fst (w_kids w))" and "map_of (w_kids w) (cmd_pid c) = Some ch" and "will_exit ch"
  shows "\<exists>c1 w1. cmd_update_state c DOBLOCK w = Inr (c1, w1) \<and> job_finished c1 \<and> job_wf c1
    \<and> same_env w w1 \<and> w_pipes w1 = (w_pipes w)(fd := None)
    \<and> distinct (map fst (w_kids w1))
    \<and> (\<forall>p. p \<noteq> cmd_pid c \<longrightarrow> map_of (w_kids w1) p = map_of (w_kids w) p)"
proof -
  obtain a b where ab: "w_kids w = a @ (cmd_pid c, ch) # b"
    using map_of_SomeD [OF assms(8)] by (meson split_list)
  have dist: "distinct (map fst (a @ (cmd_pid c, ch) # b))" using assms(7) ab by simp
  obtain n st es where ev: "ch_events ch = replicate n Not_Yet @ Report st # es" "WIFEXITED st"
    using will_exit_events [OF assms(9)] by blast
  define w1 where "w1 = w\<lparr>w_kids := a @ b\<rparr>"
  have wp: "waitpid (cmd_pid c) DOBLOCK w = Inr ((cmd_pid c, Some st), w1)"
    using waitpid_block [OF _ ab _ _ ev(1)] assms(4) dist WIFEXITED_WGONE [OF ev(2)]
    by (auto simp: w1_def image_iff)
  obtain m where m: "read_all (w_pipes w1 fd) = Inr (m, int (length d), [])"
    using read_all_total [OF assms(6)] assms(5) by (auto simp: w1_def)
  let ?c = "finish_job st m (length d) c"
  have fin: "cmd_finished c \<noteq> 1" using assms(2) by (simp add: job_unfinished_def)
  have "cmd_update_state c DOBLOCK w = Inr (?c, sys_close fd (print (cmd_alert ?c) w1))"
    by (rule cmd_update_exited [OF fin wp ev(2) assms(3) m])
  moreover have "job_finished ?c" "job_wf ?c"
    using finish_job_wf [OF assms(1)] read_all_in_bounds [OF m] by auto
  moreover have "map_of (a @ b) p = map_of (w_kids w) p" if "p \<noteq> cmd_pid c" for p
    using that by (simp add: ab map_add_def fun_upd_def split: option.split)
  ultimately show ?thesis
    using dist by (auto simp: w1_def same_env_def sys_close_def print_def)
qed

lemma update_list_waits:
  assumes "jobs_live cs w" and "kids_exit cs w"
  shows "\<exists>cs1 w1. update_list DOBLOCK cs w = Inr (cs1, w1) \<and> length cs1 = length cs
    \<and> (\<forall>c \<in> set cs1. job_finished c)"
  using assms
proof (induction cs arbitrary: w)
  case (Cons c cs)
  show ?case
  proof (cases "job_finished c")
    case True
    then have unf: "\<not> job_unfinished c" and fin: "cmd_finished c = 1"
      by (auto simp: job_finished_def job_unfinished_def)
    with Cons.prems have "jobs_live cs w" "kids_exit cs w"
      by (auto simp: jobs_live_def open_fds_finished kids_exit_def)
    with Cons.IH [of w] True fin show ?thesis by (auto simp: cmd_update_finished)
  next
    case False
    with Cons.prems(1) obtain fd wr where c: "job_wf c" "job_unfinished c"
        "cmd_out_pipe c = Some (fd, wr)" "0 < cmd_pid c"
      by (auto simp: jobs_live_def job_wf_def)
    have disj: "fd \<notin> set (open_fds cs)"
      using Cons.prems(1) c by (auto simp: jobs_live_def open_fds_def)
    obtain d where d: "w_pipes w fd = Some d" "length d < 2 ^ 29"
      using Cons.prems(1) c by (fastforce simp: jobs_live_def open_fds_def pipes_ok_def)
    obtain ch where ch: "map_of (w_kids w) (cmd_pid c) = Some ch" "will_exit ch"
      using Cons.prems(2) c(2) by (auto simp: kids_exit_def)
    obtain c1 w1 where upd: "cmd_update_state c DOBLOCK w = Inr (c1, w1)" "job_finished c1"
        "same_env w w1" "w_pipes w1 = (w_pipes w)(fd := None)" "distinct (map fst (w_kids w1))"
        "\<forall>p. p \<noteq> cmd_pid c \<longrightarrow> map_of (w_kids w1) p = map_of (w_kids w) p"
      using update_one_waits [OF c d _ ch] Cons.prems(2) by (auto simp: kids_exit_def)
    have "jobs_live cs w1"
      using Cons.prems(1) disj upd(3,4) open_fds_Cons [of c cs]
      by (auto simp: jobs_live_def same_env_def pipes_ok_def)
    moreover have "cmd_pid c \<notin> cmd_pid ` {x \<in> set cs. job_unfinished x}"
      using Cons.prems(2) c(2) by (simp add: kids_exit_def)
    then have "cmd_pid x \<noteq> cmd_pid c" if "x \<in> set cs" "job_unfinished x" for x
      using that by (metis (mono_tags, lifting) image_eqI mem_Collect_eq)
    with Cons.prems(2) upd(5,6) c(2) have "kids_exit cs w1" by (auto simp: kids_exit_def)
    ultimately show ?thesis using Cons.IH [of w1] upd(1,2) by auto
  qed
qed simp

section \<open>Freeing the table\<close>

definition job_blocks :: "cmd_t \<Rightarrow> block list" where
  "job_blocks c = map Argv_Block [0..<length (takeWhile (\<lambda>a. a \<noteq> None) (cmd_argv c))]
     @ (if cmd_output c \<noteq> None then [Output_Block] else []) @ [Cmd_Block]"

lemma argv_strings_length:
  "None \<in> set a \<Longrightarrow> \<exists>ws. argv_strings a = Inr ws \<and> length ws = length (takeWhile (\<lambda>x. x \<noteq> None) a)"
  by (induction a rule: argv_strings.induct) auto

lemma cmd_free_blocks: "job_shape c \<Longrightarrow> cmd_free c = Inr (job_blocks c)"
  using argv_strings_length [of "cmd_argv c"] by (auto simp: cmd_free_def job_blocks_def job_shape_def)

lemma fold_append_concat: "fold (\<lambda>i bs. bs @ h i) is acc = acc @ concat (map h is)"
  by (induction "is" arbitrary: acc) auto

lemma cmdctl_freeall_blocks:
  assumes "ctl_wf ctl" and "\<forall>c \<in> set (ctl_jobs ctl). job_shape c"
  shows "cmdctl_freeall ctl = Inr (concat (map (\<lambda>i. map (Job_Block i) (job_blocks (ctl_jobs ctl ! i)))
    [0..<length (ctl_jobs ctl)]) @ [Ctl_Block])"
proof -
  let ?h = "\<lambda>i. map (Job_Block i) (job_blocks (ctl_jobs ctl ! i))"
  have "for_range [0..<nat (ctl_size ctl)]
      (\<lambda>i bs. rbind (ctl_job ctl (int i)) (\<lambda>cmd. map_res (\<lambda>b. bs @ map (Job_Block i) b) (cmd_free cmd))) []
    = Inr (fold (\<lambda>i bs. bs @ ?h i) [0..<nat (ctl_size ctl)] [])"
    using assms ctl_job_nth [OF assms(1)] by (intro for_range_total) (simp add: cmd_free_blocks)
  then show ?thesis by (simp add: cmdctl_freeall_def fold_append_concat)
qed

lemma distinct_job_blocks: "distinct (job_blocks c)"
  by (auto simp: job_blocks_def distinct_map inj_on_def)

lemma distinct_tagged:
  "(\<And>i. distinct (h i)) \<Longrightarrow> distinct (concat (map (\<lambda>i. map (Job_Block i) (h i)) [0..<n]))"
  by (induction n) (auto simp: distinct_map inj_on_def)

text \<open>A job just started, and the process that started it.\<close>

definition running_job :: cmd_t where
  "running_job = (fresh_job [''echo'', ''hi''])
     \<lparr>cmd_out_pipe := Some (3, 4), cmd_str_status := ''RUN'', cmd_pid := 7\<rparr>"

definition running_world :: world where
  "running_world = (hello_world 3)
     \<lparr>w_forks := [], w_next_fd := 5, w_pipes := [3 \<mapsto> ''hi''],
      w_kids := [(7, \<lparr>ch_events = [Not_Yet, Not_Yet, Report (exit_status 3)], ch_out = ''hi''\<rparr>)]\<rparr>"

section \<open>Properties\<close>

text \<open>
  \<open>cmdctl_add\<close> over any sequence of jobs appends them in order until the table holds
  1024, and drops the rest.
\<close>

theorem cmdctl_add_all:
  assumes "ctl_wf ctl"
  shows "ctl_wf (fold cmdctl_add cs ctl) \<and>
    ctl_jobs (fold cmdctl_add cs ctl) = take MAX_CHILD (ctl_jobs ctl @ cs)"
  using assms by (rule jobs.fold_add)

theorem cmdctl_add_all_witness:
  "ctl_jobs (fold cmdctl_add [fresh_job [''ls''], fresh_job [''cat'']] empty_ctl)
    = [fresh_job [''ls''], fresh_job [''cat'']]"
  using cmdctl_add_all [of empty_ctl "[fresh_job [''ls''], fresh_job [''cat'']]"] by simp

text \<open>
  C23. \<open>cmdctl_update_state\<close> is the update of the list of jobs from the first to the last:
  same outcome, same order of waits, and a well-formed table.
\<close>

theorem cmdctl_update_refines:
  assumes "ctl_wf ctl"
  shows "case cmdctl_update_state ctl opt w of
      Inl e \<Rightarrow> update_list opt (ctl_jobs ctl) w = Inl e
    | Inr (ctl1, w1) \<Rightarrow> ctl_wf ctl1 \<and> update_list opt (ctl_jobs ctl) w = Inr (ctl_jobs ctl1, w1)"
  using cmdctl_update_list [OF assms, of opt w] by (simp add: same_table_def)

theorem cmdctl_update_refines_witness:
  "case cmdctl_update_state (cmdctl_add (fresh_job [''ls'']) empty_ctl) NOBLOCK (hello_world 0) of
      Inl e \<Rightarrow> update_list NOBLOCK [fresh_job [''ls'']] (hello_world 0) = Inl e
    | Inr (ctl1, w1) \<Rightarrow>
        ctl_wf ctl1 \<and> update_list NOBLOCK [fresh_job [''ls'']] (hello_world 0) = Inr (ctl_jobs ctl1, w1)"
proof -
  let ?ctl = "cmdctl_add (fresh_job [''ls'']) empty_ctl"
  have "ctl_wf ?ctl" "ctl_jobs ?ctl = [fresh_job [''ls'']]"
    by (simp_all add: jobs.wf_add jobs.items_add)
  then show ?thesis
    using cmdctl_update_refines [of ?ctl NOBLOCK "hello_world 0"] by (simp only:)
qed

text \<open>
  C16. A blocking update of the table finishes every job whose child exits: it returns, and
  in the new table every job is finished, whatever the number of polls each child needs.
\<close>

theorem wait_all_finishes:
  assumes "ctl_wf ctl" and "jobs_live (ctl_jobs ctl) w" and "kids_exit (ctl_jobs ctl) w"
  shows "\<exists>ctl1 w1. cmdctl_update_state ctl DOBLOCK w = Inr (ctl1, w1) \<and> ctl_wf ctl1
    \<and> length (ctl_jobs ctl1) = length (ctl_jobs ctl) \<and> (\<forall>c \<in> set (ctl_jobs ctl1). job_finished c)"
  using update_list_waits [OF assms(2,3)] cmdctl_update_list [OF assms(1), of DOBLOCK w]
  by (auto simp: same_table_def split: sum.splits)

theorem wait_all_finishes_witness:
  "\<exists>ctl1 w1. cmdctl_update_state (cmdctl_add running_job empty_ctl) DOBLOCK running_world
       = Inr (ctl1, w1)
     \<and> ctl_wf ctl1 \<and> length (ctl_jobs ctl1) = 1 \<and> (\<forall>c \<in> set (ctl_jobs ctl1). job_finished c)"
proof -
  let ?ctl = "cmdctl_add running_job empty_ctl"
  have ctl: "ctl_wf ?ctl" "ctl_jobs ?ctl = [running_job]"
    by (simp_all add: jobs.wf_add jobs.items_add)
  have "job_wf running_job" "job_unfinished running_job"
    by (auto simp: job_wf_def job_shape_def job_unfinished_def running_job_def fresh_job_def)
  then have "jobs_live [running_job] running_world"
    by (auto simp: jobs_live_def open_fds_def pipes_ok_def running_world_def hello_world_def
        running_job_def)
  moreover have "kids_exit [running_job] running_world"
    by (simp add: kids_exit_def will_exit_def running_world_def running_job_def hello_world_def)
  ultimately show ?thesis using wait_all_finishes [OF ctl(1)] by (simp add: ctl(2))
qed

text \<open>
  \<open>cmdctl_freeall\<close> frees every argument copy, every stored output and every job of the
  table exactly once, and the table once.
\<close>

theorem cmdctl_freeall_once:
  assumes "ctl_wf ctl" and "\<forall>c \<in> set (ctl_jobs ctl). job_shape c"
  shows "\<exists>bs. cmdctl_freeall ctl = Inr bs \<and> distinct bs
    \<and> set bs = {Ctl_Block} \<union>
        (\<Union>i < length (ctl_jobs ctl). Job_Block i ` set (job_blocks (ctl_jobs ctl ! i)))"
  using cmdctl_freeall_blocks [OF assms] distinct_tagged [OF distinct_job_blocks]
  by (auto simp: atLeast0LessThan)

theorem cmdctl_freeall_once_witness:
  "\<exists>bs. cmdctl_freeall (cmdctl_add (fresh_job [''ls'']) empty_ctl) = Inr bs \<and> distinct bs
    \<and> set bs = {Ctl_Block, Job_Block 0 (Argv_Block 0), Job_Block 0 Cmd_Block}"
proof -
  let ?ctl = "cmdctl_add (fresh_job [''ls'']) empty_ctl"
  have ctl: "ctl_wf ?ctl" "ctl_jobs ?ctl = [fresh_job [''ls'']]"
    by (simp_all add: jobs.wf_add jobs.items_add)
  have "\<forall>c \<in> set (ctl_jobs ?ctl). job_shape c" by (simp add: ctl(2) fresh_job_wf)
  moreover have "takeWhile (\<lambda>a. a \<noteq> None) (cmd_argv (fresh_job [''ls''])) = [Some ''ls'']"
    by (simp add: fresh_job_def)
  then have "job_blocks (fresh_job [''ls'']) = [Argv_Block 0, Cmd_Block]"
    by (simp add: job_blocks_def fresh_job_def)
  ultimately show ?thesis
    using cmdctl_freeall_once [OF ctl(1)] by (simp add: ctl(2) lessThan_Suc insert_commute)
qed

end
