(* ===== verification/Shell_Main.thy ===== *)
theory Shell_Main
  imports Shell_Ctl
begin

text \<open>
  \<open>Unix_Command_Line_Shell/commando.c\<close> and \<open>pause_for\<close> of \<open>util.c\<close>: the read-dispatch loop
  of the shell. One turn of the loop is \<open>main_iter\<close>; every turn that is followed by another
  one has consumed input, which makes the loop a total function.
\<close>

section \<open>The code\<close>

text \<open>A turn of the loop ends in another turn, behind the loop, or as another program.\<close>

datatype iter =
    Again cmdctl_t world
  | Done cmdctl_t world
  | Became string "string option list"

text \<open>\<open>nanosleep\<close> is recorded with its arguments; its result is not used.\<close>

definition pause_for :: "int \<Rightarrow> int \<Rightarrow> world \<Rightarrow> world" where
  "pause_for nanos secs w = w\<lparr>w_sleeps := w_sleeps w @ [(nanos, secs)]\<rparr>"

definition token :: "string option list \<Rightarrow> nat \<Rightarrow> string res" where
  "token tokens i =
     (if i < length tokens
      then (case tokens ! i of None \<Rightarrow> undef Null_Pointer | Some s \<Rightarrow> Inr s)
      else undef Uninitialised)"

definition help_line :: "string \<Rightarrow> string \<Rightarrow> string" where
  "help_line cmd what = pad_right 18 cmd @ '' : '' @ what @ [LF]"

definition help_text :: string where
  "help_text =
     ''COMMANDO COMMANDS'' @ [LF]
     @ help_line ''help'' ''show this message''
     @ help_line ''exit'' ''exit the program''
     @ help_line ''list'' ''list all jobs that have been started giving information on each''
     @ help_line ''pause nanos secs'' ''pause for the given number of nanseconds and seconds''
     @ help_line ''output-for int'' ''print the output for given job number''
     @ help_line ''output-all'' ''print output for all jobs''
     @ help_line ''wait-for int'' ''wait until the given job number finishes''
     @ help_line ''wait-all'' ''wait for all jobs to finish''
     @ help_line ''command arg1 ...'' ''non-built-in is run as a job''"

definition rule_line :: string where
  "rule_line = replicate 40 CHR ''-'' @ [LF]"

text \<open>The output of one job between its two rules.\<close>

definition show_output :: "cmd_t \<Rightarrow> world \<Rightarrow> world res" where
  "show_output cmd w =
     map_res (print rule_line)
       (cmd_print_output cmd
         (print (''@<<< Output for '' @ cmd_label cmd @ '' ('' @ show_int (cmd_output_size cmd)
            @ '' bytes):'' @ [LF] @ rule_line) w))"

text \<open>Starting the last job of the table, \<open>cmd_start(ctl->cmd[ctl->size-1])\<close>.\<close>

definition start_last :: "cmd_t \<Rightarrow> cmdctl_t \<Rightarrow> world \<Rightarrow> iter" where
  "start_last cmd ctl w =
     (case cmd_start cmd w of
        Started (cmd1, w1) \<Rightarrow> Again (ctl_put (nat (ctl_size ctl - 1)) cmd1 ctl) w1
      | Replaced name args \<Rightarrow> Became name args)"

definition run_command :: "string option list \<Rightarrow> cmdctl_t \<Rightarrow> world \<Rightarrow> iter res" where
  "run_command tokens ctl w =
     rbind (cmd_new tokens) (\<lambda>new.
       let ctl1 = cmdctl_add new ctl in
       rbind (ctl_job ctl1 (ctl_size ctl1 - 1)) (\<lambda>cmd. Inr (start_last cmd ctl1 w)))"

abbreviation again :: "cmdctl_t \<times> world \<Rightarrow> iter" where
  "again \<equiv> \<lambda>(ctl, w). Again ctl w"

text \<open>
  The tests on the first token and the number of tokens, in the order of the code. A
  builtin with a wrong number of arguments is an ordinary command.
\<close>

datatype builtin =
    B_Help | B_Exit | B_List | B_Pause | B_Output_For | B_Output_All | B_Wait_For | B_Wait_All
  | B_Command

definition builtin_of :: "string \<Rightarrow> int \<Rightarrow> builtin" where
  "builtin_of t ntok =
     (if t = ''help'' then B_Help
      else if t = ''exit'' then B_Exit
      else if t = ''list'' then B_List
      else if t = ''pause'' \<and> ntok = 3 then B_Pause
      else if t = ''output-for'' \<and> ntok = 2 then B_Output_For
      else if t = ''output-all'' then B_Output_All
      else if t = ''wait-for'' \<and> ntok = 2 then B_Wait_For
      else if t = ''wait-all'' then B_Wait_All
      else B_Command)"

definition int_token :: "string option list \<Rightarrow> nat \<Rightarrow> int res" where
  "int_token tokens i = rbind (token tokens i) atoi"

fun run_builtin :: "builtin \<Rightarrow> string option list \<Rightarrow> cmdctl_t \<Rightarrow> world \<Rightarrow> iter res" where
  "run_builtin B_Help tokens ctl w = Inr (Again ctl (print help_text w))"
| "run_builtin B_Exit tokens ctl w = Inr (Done ctl w)"
| "run_builtin B_List tokens ctl w = map_res (Again ctl) (cmdctl_print ctl w)"
| "run_builtin B_Pause tokens ctl w =
     rbind (int_token tokens 1) (\<lambda>nanos. rbind (int_token tokens 2) (\<lambda>secs.
       map_res again (cmdctl_update_state ctl NOBLOCK (pause_for nanos secs w))))"
| "run_builtin B_Output_For tokens ctl w =
     rbind (int_token tokens 1) (\<lambda>job.
     rbind (ctl_job ctl job) (\<lambda>cmd. map_res (Again ctl) (show_output cmd w)))"
| "run_builtin B_Output_All tokens ctl w =
     map_res (Again ctl)
       (for_range [0..<nat (ctl_size ctl)]
         (\<lambda>i w. rbind (ctl_job ctl (int i)) (\<lambda>cmd. show_output cmd w)) w)"
| "run_builtin B_Wait_For tokens ctl w =
     rbind (int_token tokens 1) (\<lambda>job.
       if job \<ge> 0 \<and> job < ctl_size ctl
       then map_res again (update_job DOBLOCK (nat job) (ctl, w))
       else Inr (Again ctl w))"
| "run_builtin B_Wait_All tokens ctl w = map_res again (cmdctl_update_state ctl DOBLOCK w)"
| "run_builtin B_Command tokens ctl w = run_command tokens ctl w"

definition dispatch :: "string option list \<Rightarrow> int \<Rightarrow> cmdctl_t \<Rightarrow> world \<Rightarrow> iter res" where
  "dispatch tokens ntok ctl w =
     (if ntok > 0 then
        rbind (token tokens 0) (\<lambda>t. run_builtin (builtin_of t ntok) tokens ctl w)
      else Inr (Again ctl w))"

text \<open>The end of a turn: unless the loop was left, all jobs are polled once more.\<close>

fun end_turn :: "iter \<Rightarrow> iter res" where
  "end_turn (Again ctl w) = map_res again (cmdctl_update_state ctl NOBLOCK w)"
| "end_turn (Done ctl w) = Inr (Done ctl w)"
| "end_turn (Became name argv) = Inr (Became name argv)"

definition main_iter :: "bool \<Rightarrow> cmdctl_t \<Rightarrow> world \<Rightarrow> iter res" where
  "main_iter echo ctl w =
     (let w1 = print ''@> '' w in
      case fgets MAX_LINE w1 of
        None \<Rightarrow> Inr (Done ctl (print (LF # ''End of input'' @ [LF]) w1))
      | Some (buf, w2) \<Rightarrow>
          let w3 = (if echo then print (cstr buf) w2 else w2);
              toks = parse_into_tokens buf
          in rbind (dispatch (fst toks) (snd toks) ctl w3) end_turn)"

section \<open>Input is consumed\<close>

lemma print_stdin [simp]: "w_stdin (print s w) = w_stdin w"
  by (simp add: print_def)

lemma close_stdin [simp]: "w_stdin (sys_close fd w) = w_stdin w"
  by (simp add: sys_close_def)

lemma fetch_stdin: "cmd_fetch_output c w = Inr (c1, w1) \<Longrightarrow> w_stdin w1 = w_stdin w"
  by (auto simp: cmd_fetch_output_def split: if_splits option.splits)

lemma waitpid_stdin: "waitpid pid opt w = Inr (r, w1) \<Longrightarrow> w_stdin w1 = w_stdin w"
  by (cases r) (auto dest: waitpid_frame)

lemma update_stdin: "cmd_update_state c opt w = Inr (c1, w1) \<Longrightarrow> w_stdin w1 = w_stdin w"
  by (erule cmd_update_cases) (auto dest: waitpid_stdin)

lemma update_job_stdin:
  "update_job opt i (ctl, w) = Inr (ctl1, w1) \<Longrightarrow> w_stdin w1 = w_stdin w"
  by (auto simp: update_job_def dest: update_stdin)

lemma cmdctl_update_stdin:
  assumes "cmdctl_update_state ctl opt w = Inr (ctl1, w1)"
  shows "w_stdin w1 = w_stdin w"
proof -
  have "(\<lambda>(ctl', w'). w_stdin w' = w_stdin w) (ctl1, w1)"
    by (rule for_range_invariant [OF _ _ assms [unfolded cmdctl_update_state_def]])
      (auto dest: update_job_stdin)
  then show ?thesis by simp
qed

lemma print_output_stdin: "show_output c w = Inr w1 \<Longrightarrow> w_stdin w1 = w_stdin w"
  by (auto simp: show_output_def cmd_print_output_def split: option.splits)

lemma print_loop_stdin:
  assumes "for_range is f w = Inr w1" and "\<And>i w w1. f i w = Inr w1 \<Longrightarrow> w_stdin w1 = w_stdin w"
  shows "w_stdin w1 = w_stdin w"
  by (rule for_range_invariant [where P = "\<lambda>w'. w_stdin w' = w_stdin w", OF _ _ assms(1)])
    (auto dest: assms(2))

lemma cmdctl_print_stdin: "cmdctl_print ctl w = Inr w1 \<Longrightarrow> w_stdin w1 = w_stdin w"
  by (auto simp: cmdctl_print_def dest!: print_loop_stdin)

lemma cmd_start_stdin: "cmd_start c w = Started (c1, w1) \<Longrightarrow> w_stdin w1 = w_stdin w"
  by (auto simp: cmd_start_def sys_pipe_def next_fork_def Let_def
      split: fork_ev.splits list.splits if_splits)

lemma run_command_stdin:
  assumes "run_command t ctl w = Inr (Again ctl1 w1)"
  shows "w_stdin w1 = w_stdin w"
proof -
  from assms obtain c ctl2 where "start_last c ctl2 w = Again ctl1 w1"
    by (auto simp: run_command_def Let_def)
  then show ?thesis
    by (cases "cmd_start c w") (auto simp: start_last_def dest: cmd_start_stdin)
qed

lemma output_all_stdin:
  "for_range is (\<lambda>i w. rbind (ctl_job ctl (int i)) (\<lambda>cmd. show_output cmd w)) w = Inr w1 \<Longrightarrow>
   w_stdin w1 = w_stdin w"
  by (erule print_loop_stdin) (auto dest: print_output_stdin)

lemma run_builtin_stdin:
  "run_builtin b t ctl w = Inr (Again ctl1 w1) \<Longrightarrow> w_stdin w1 = w_stdin w"
  by (cases b)
    (auto simp: pause_for_def split: if_splits
      dest: run_command_stdin cmdctl_update_stdin update_job_stdin cmdctl_print_stdin
        print_output_stdin output_all_stdin)

lemma dispatch_stdin:
  "dispatch t n ctl w = Inr (Again ctl1 w1) \<Longrightarrow> w_stdin w1 = w_stdin w"
  by (auto simp: dispatch_def dest: run_builtin_stdin split: if_splits)

lemma end_turn_Again:
  "end_turn it = Inr (Again ctl1 w1) \<longleftrightarrow>
     (\<exists>ctl w. it = Again ctl w \<and> cmdctl_update_state ctl NOBLOCK w = Inr (ctl1, w1))"
  by (cases it) auto

lemma fgets_stdin:
  assumes "fgets n w = Some (buf, w1)" and "1 < n"
  shows "length (w_stdin w1) < length (w_stdin w)"
proof -
  obtain m where m: "n - 1 = Suc m" using assms(2) by (cases "n - 1") auto
  from assms(1) m have "w_stdin w \<noteq> []" "w_stdin w1 = drop (length (line_of (Suc m) (w_stdin w))) (w_stdin w)"
    by (auto simp: fgets_def Let_def split: if_splits)
  then show ?thesis by (cases "w_stdin w") auto
qed

text \<open>A turn that is followed by another: what it read, what it did, and the polls at its end.\<close>

lemma main_iter_Again:
  assumes "main_iter echo ctl w = Inr (Again ctl1 w1)"
  obtains buf w3 ctl2 w4 where "length (w_stdin w3) < length (w_stdin w)"
    and "dispatch (fst (parse_into_tokens buf)) (snd (parse_into_tokens buf)) ctl w3
      = Inr (Again ctl2 w4)"
    and "cmdctl_update_state ctl2 NOBLOCK w4 = Inr (ctl1, w1)"
proof -
  from assms obtain buf w2 where f: "fgets MAX_LINE (print ''@> '' w) = Some (buf, w2)"
    by (auto simp: main_iter_def Let_def split: option.splits)
  define w3 where "w3 = (if echo then print (cstr buf) w2 else w2)"
  from assms f obtain ctl2 w4 where
    "dispatch (fst (parse_into_tokens buf)) (snd (parse_into_tokens buf)) ctl w3 = Inr (Again ctl2 w4)"
    "cmdctl_update_state ctl2 NOBLOCK w4 = Inr (ctl1, w1)"
    by (auto simp: main_iter_def Let_def w3_def end_turn_Again)
  moreover have "length (w_stdin w3) < length (w_stdin w)"
    using fgets_stdin [OF f] by (simp add: w3_def)
  ultimately show ?thesis using that by blast
qed

lemma main_iter_consumes:
  "main_iter echo ctl w = Inr (Again ctl1 w1) \<Longrightarrow> length (w_stdin w1) < length (w_stdin w)"
  by (erule main_iter_Again) (auto dest!: dispatch_stdin cmdctl_update_stdin)

section \<open>The whole program\<close>

function main_loop :: "bool \<Rightarrow> cmdctl_t \<Rightarrow> world \<Rightarrow> iter res" where
  "main_loop echo ctl w =
     (case main_iter echo ctl w of
        Inr (Again ctl1 w1) \<Rightarrow> main_loop echo ctl1 w1
      | r \<Rightarrow> r)"
  by pat_completeness auto
termination
  by (relation "measure (\<lambda>(echo, ctl, w). length (w_stdin w))") (auto dest: main_iter_consumes)

declare main_loop.simps [simp del]

text \<open>\<open>main\<close>: the arguments behind the program name, and whether \<open>COMMANDO_ECHO\<close> is set.\<close>

definition echo_flag :: "string list \<Rightarrow> bool \<Rightarrow> bool" where
  "echo_flag args env =
     (case args of [] \<Rightarrow> False | a # _ \<Rightarrow> a = ''--echo'' \<or> env)"

datatype outcome = Finished world "freed list" | Other_Program string "string option list"

definition commando :: "string list \<Rightarrow> bool \<Rightarrow> world \<Rightarrow> outcome res" where
  "commando args env w =
     rbind (main_loop (echo_flag args env) empty_ctl w) (\<lambda>it.
       case it of
         Done ctl w1 \<Rightarrow> map_res (Finished w1) (cmdctl_freeall ctl)
       | Became name argv \<Rightarrow> Inr (Other_Program name argv)
       | Again ctl w1 \<Rightarrow> Inl Blocked)"

lemma main_loop_leaves: "main_loop echo ctl w \<noteq> Inr (Again ctl1 w1)"
proof (induction echo ctl w rule: main_loop.induct)
  case (1 echo ctl w)
  then show ?case
    by (subst main_loop.simps) (auto split: sum.splits iter.splits)
qed

section \<open>The table keeps its shape\<close>

definition table_ok :: "cmdctl_t \<Rightarrow> bool" where
  "table_ok ctl \<longleftrightarrow> ctl_wf ctl \<and> (\<forall>c \<in> set (ctl_jobs ctl). job_shape c)"

lemma table_ok_put:
  "table_ok ctl \<Longrightarrow> i < length (ctl_jobs ctl) \<Longrightarrow> job_shape c \<Longrightarrow> table_ok (ctl_put i c ctl)"
  by (auto simp: table_ok_def ctl_put_jobs dest!: set_update_subset_insert [THEN subsetD])

lemma table_ok_add: "table_ok ctl \<Longrightarrow> job_shape c \<Longrightarrow> table_ok (cmdctl_add c ctl)"
  by (auto simp: table_ok_def jobs.wf_add jobs.items_add dest!: in_set_takeD)

lemma ctl_job_in:
  assumes "ctl_wf ctl" and "ctl_job ctl i = Inr c"
  shows "0 \<le> i \<and> nat i < length (ctl_jobs ctl) \<and> c = ctl_jobs ctl ! nat i"
proof -
  from assms have "0 \<le> i" "ctl_cmd ctl (nat i) = Some c"
    by (auto simp: ctl_job_def split: if_splits option.splits)
  moreover from this assms(1) have "nat i < nat (ctl_size ctl)"
    by (metis ctl_wf_def option.distinct(1))
  ultimately show ?thesis by (simp add: ctl_jobs_def)
qed

lemma table_ok_update_job:
  assumes "table_ok ctl" and "update_job opt i (ctl, w) = Inr (ctl1, w1)"
  shows "table_ok ctl1"
proof -
  from assms(2) obtain c c1 where c: "ctl_job ctl (int i) = Inr c"
      "cmd_update_state c opt w = Inr (c1, w1)" "ctl1 = ctl_put i c1 ctl"
    by (auto simp: update_job_def)
  with assms(1) ctl_job_in [of ctl "int i" c]
  have "i < length (ctl_jobs ctl)" "job_shape c" by (auto simp: table_ok_def)
  with assms(1) c show ?thesis by (simp add: table_ok_put update_keeps_shape)
qed

lemma table_ok_update:
  assumes "table_ok ctl" and "cmdctl_update_state ctl opt w = Inr (ctl1, w1)"
  shows "table_ok ctl1"
proof -
  have "(\<lambda>(ctl', w'). table_ok ctl') (ctl1, w1)"
    by (rule for_range_invariant [OF _ _ assms(2) [unfolded cmdctl_update_state_def]])
      (use assms(1) in \<open>auto dest: table_ok_update_job\<close>)
  then show ?thesis by simp
qed

lemma copy_argv_length: "copy_argv i as = Inr cp \<Longrightarrow> length cp < length as"
  by (induction i as arbitrary: cp rule: copy_argv.induct) (fastforce split: if_splits)+

lemma cmd_new_shape:
  assumes "cmd_new tokens = Inr c" and "length tokens \<le> ARGS_MAX + 1"
  shows "job_shape c"
proof -
  from assms(1) obtain cp where "copy_argv 0 tokens = Inr cp"
      "cmd_argv c = cp @ replicate (ARGS_MAX + 1 - length cp) None" "length (cmd_name c) \<le> NAME_MAX"
    by (auto simp: cmd_new_def split: option.splits if_splits)
  with assms(2) copy_argv_length [of 0 tokens cp] show ?thesis by (auto simp: job_shape_def)
qed

lemma cmd_start_shape: "cmd_start c w = Started (c1, w1) \<Longrightarrow> job_shape c \<Longrightarrow> job_shape c1"
  by (auto simp: cmd_start_def Let_def job_shape_def split: prod.splits fork_ev.splits if_splits)

lemma table_ok_command:
  assumes "table_ok ctl" and "length tokens \<le> ARGS_MAX + 1"
    and "run_command tokens ctl w = Inr (Again ctl1 w1)"
  shows "table_ok ctl1"
proof -
  from assms(3) obtain new c where new: "cmd_new tokens = Inr new"
      and c: "ctl_job (cmdctl_add new ctl) (ctl_size (cmdctl_add new ctl) - 1) = Inr c"
      and again: "start_last c (cmdctl_add new ctl) w = Again ctl1 w1"
    by (auto simp: run_command_def Let_def)
  let ?ctl = "cmdctl_add new ctl"
  have ok: "table_ok ?ctl" using assms(1) cmd_new_shape [OF new assms(2)] by (rule table_ok_add)
  then have wf: "ctl_wf ?ctl" by (simp add: table_ok_def)
  note c1 = ctl_job_in [OF wf c]
  with ok have "job_shape c" by (auto simp: table_ok_def)
  with again c1 ok show ?thesis
    by (cases "cmd_start c w")
      (auto simp: start_last_def intro!: table_ok_put dest: cmd_start_shape)
qed

lemma table_ok_builtin:
  assumes "table_ok ctl" and "length tokens \<le> ARGS_MAX + 1"
    and "run_builtin b tokens ctl w = Inr (Again ctl1 w1)"
  shows "table_ok ctl1"
  using assms
  by (cases b) (auto split: if_splits dest: table_ok_update table_ok_update_job table_ok_command)

lemma parse_tokens_length: "length (fst (parse_into_tokens s)) \<le> ARGS_MAX + 1"
  using parse_loop_words [of 0 "cstr s"] by (simp add: parse_into_tokens_def Let_def)

lemma table_ok_dispatch:
  "table_ok ctl \<Longrightarrow> length tokens \<le> ARGS_MAX + 1 \<Longrightarrow>
   dispatch tokens n ctl w = Inr (Again ctl1 w1) \<Longrightarrow> table_ok ctl1"
  by (auto simp: dispatch_def dest: table_ok_builtin split: if_splits)

lemma table_ok_turn:
  "main_iter echo ctl w = Inr (Again ctl1 w1) \<Longrightarrow> table_ok ctl \<Longrightarrow> table_ok ctl1"
  by (erule main_iter_Again) (blast intro: table_ok_update table_ok_dispatch parse_tokens_length)

text \<open>The states in which a turn begins, with the number of turns before it.\<close>

inductive shell_reach :: "bool \<Rightarrow> world \<Rightarrow> nat \<Rightarrow> cmdctl_t \<Rightarrow> world \<Rightarrow> bool" for echo w0 where
  start: "shell_reach echo w0 0 empty_ctl w0"
| turn: "shell_reach echo w0 n ctl w \<Longrightarrow> main_iter echo ctl w = Inr (Again ctl1 w1) \<Longrightarrow>
    shell_reach echo w0 (Suc n) ctl1 w1"

lemma shell_reach_ok:
  "shell_reach echo w0 n ctl w \<Longrightarrow> table_ok ctl \<and> n + length (w_stdin w) \<le> length (w_stdin w0)"
proof (induction rule: shell_reach.induct)
  case start
  then show ?case by (simp add: table_ok_def)
next
  case (turn n ctl w ctl1 w1)
  then show ?case using main_iter_consumes [OF turn.hyps(2)] table_ok_turn by fastforce
qed

lemma cmdctl_print_total:
  assumes "table_ok ctl"
  shows "\<exists>w1. cmdctl_print ctl w = Inr w1"
proof -
  let ?row = "\<lambda>i. row_columns i (ctl_jobs ctl ! i)
    @ concat (map (\<lambda>a. a @ [SP]) (projr (argv_strings (cmd_argv (ctl_jobs ctl ! i))))) @ [LF]"
  have "print_row i (ctl_jobs ctl ! i) = Inr (?row i)" if "i < length (ctl_jobs ctl)" for i
    using assms that argv_strings_length [of "cmd_argv (ctl_jobs ctl ! i)"]
    by (auto simp: print_row_def table_ok_def job_shape_def)
  then have "for_range [0..<nat (ctl_size ctl)]
      (\<lambda>i w. rbind (ctl_job ctl (int i)) (\<lambda>cmd. map_res (\<lambda>row. print row w) (print_row i cmd)))
      (print print_heading w)
    = Inr (fold (\<lambda>i. print (?row i)) [0..<nat (ctl_size ctl)] (print print_heading w))"
    using assms ctl_job_nth [of ctl] by (intro for_range_total) (simp add: table_ok_def)
  then show ?thesis by (simp add: cmdctl_print_def)
qed

section \<open>Turns without undefined behaviour\<close>

definition good :: "cmdctl_t \<Rightarrow> world \<Rightarrow> bool" where
  "good ctl w \<longleftrightarrow> ctl_wf ctl \<and> jobs_live (ctl_jobs ctl) w"

definition printable :: "cmd_t \<Rightarrow> bool" where
  "printable c \<longleftrightarrow>
     (case cmd_output c of
        None \<Rightarrow> True
      | Some m \<Rightarrow> (case mem_read (nat (cmd_output_size c)) m of Inr s \<Rightarrow> True | Inl e \<Rightarrow> False))"

definition int_ok :: "string option list \<Rightarrow> nat \<Rightarrow> bool" where
  "int_ok tokens i \<longleftrightarrow> (case int_token tokens i of Inr k \<Rightarrow> True | Inl e \<Rightarrow> False)"

text \<open>What the code takes for granted about a command line, by the branch it selects.\<close>

fun safe_builtin :: "builtin \<Rightarrow> string option list \<Rightarrow> cmdctl_t \<Rightarrow> world \<Rightarrow> bool" where
  "safe_builtin B_Pause tokens ctl w = (int_ok tokens 1 \<and> int_ok tokens 2)"
| "safe_builtin B_Output_For tokens ctl w =
     (case int_token tokens 1 of
        Inr k \<Rightarrow> 0 \<le> k \<and> k < ctl_size ctl \<and> printable (ctl_jobs ctl ! nat k)
      | Inl e \<Rightarrow> False)"
| "safe_builtin B_Output_All tokens ctl w = list_all printable (ctl_jobs ctl)"
| "safe_builtin B_Wait_For tokens ctl w = int_ok tokens 1"
| "safe_builtin B_Command tokens ctl w =
     (ctl_size ctl < int MAX_CHILD
      \<and> (case cmd_new tokens of Inr c \<Rightarrow> True | Inl e \<Rightarrow> False)
      \<and> (case w_forks w of Fork_Parent p ch # fs \<Rightarrow> 0 < p | _ \<Rightarrow> False))"
| "safe_builtin b tokens ctl w = True"

definition safe_line :: "cmdctl_t \<Rightarrow> world \<Rightarrow> bool" where
  "safe_line ctl w \<longleftrightarrow>
     (case fgets MAX_LINE w of
        None \<Rightarrow> True
      | Some (buf, w1) \<Rightarrow>
          (let toks = parse_into_tokens buf in
           case fst toks of
             Some t # r \<Rightarrow> safe_builtin (builtin_of t (snd toks)) (fst toks) ctl w
           | _ \<Rightarrow> True))"

definition safe_result :: "iter res \<Rightarrow> bool" where
  "safe_result r \<longleftrightarrow> r = Inl Blocked \<or>
     (\<exists>it. r = Inr it \<and> (\<forall>ctl1 w1. it = Again ctl1 w1 \<longrightarrow> good ctl1 w1))"

lemma good_simps [simp]:
  "good ctl (print s w) = good ctl w"
  "good ctl (w\<lparr>w_stdin := i\<rparr>) = good ctl w"
  "good ctl (pause_for n t w) = good ctl w"
  by (simp_all add: good_def jobs_live_def pipes_ok_def print_def pause_for_def)

lemma good_update:
  assumes "good ctl w"
  shows "cmdctl_update_state ctl opt w = Inl Blocked \<or>
    (\<exists>ctl1 w1. cmdctl_update_state ctl opt w = Inr (ctl1, w1) \<and> good ctl1 w1)"
  using update_list_live [of "ctl_jobs ctl" w opt] cmdctl_update_list [of ctl opt w] assms
  by (auto simp: good_def same_table_def split: sum.splits)

lemma good_update_result: "good ctl w \<Longrightarrow> safe_result (map_res again (cmdctl_update_state ctl opt w))"
  using good_update [of ctl w opt] by (auto simp: safe_result_def)

lemma good_table: "good ctl w \<Longrightarrow> table_ok ctl"
  by (auto simp: good_def table_ok_def jobs_live_def job_wf_def)

text \<open>One job of a live table is replaced by its update.\<close>

lemma open_fds_append: "open_fds (a @ b) = open_fds a @ open_fds b"
  by (simp add: open_fds_def)

lemma jobs_live_replace:
  assumes "jobs_live (a @ c # b) w" and "same_env w w1" and "pipes_ok w1"
    and "\<forall>fd. fd \<notin> set (open_fds [c]) \<longrightarrow> w_pipes w1 fd = w_pipes w fd"
    and "c1 = c \<and> w_pipes w1 = w_pipes w \<or> job_finished c1 \<and> job_wf c1 \<and> \<not> job_unfinished c1"
  shows "jobs_live (a @ c1 # b) w1"
proof -
  have fds: "open_fds (a @ x # b) = open_fds a @ open_fds [x] @ open_fds b" for x
    by (simp add: open_fds_append open_fds_Cons [of x b])
  have keep: "\<forall>fd \<in> set (open_fds a @ open_fds b). w_pipes w1 fd = w_pipes w fd"
    using assms(1,4) by (auto simp: jobs_live_def fds)
  from assms(5) show ?thesis
  proof
    assume "c1 = c \<and> w_pipes w1 = w_pipes w"
    with assms(1-3) show ?thesis by (simp add: jobs_live_def same_env_def)
  next
    assume c1: "job_finished c1 \<and> job_wf c1 \<and> \<not> job_unfinished c1"
    then have "open_fds [c1] = []" by (simp add: open_fds_def)
    with c1 keep assms(1-3) show ?thesis by (auto simp: jobs_live_def fds same_env_def)
  qed
qed

lemma good_update_job:
  assumes "good ctl w" and "i < length (ctl_jobs ctl)"
  shows "safe_result (map_res again (update_job opt i (ctl, w)))"
proof -
  let ?js = "ctl_jobs ctl" and ?c = "ctl_jobs ctl ! i"
  have wf: "ctl_wf ctl" and live: "jobs_live ?js w" using assms(1) by (auto simp: good_def)
  have js: "?js = take i ?js @ ?c # drop (Suc i) ?js" using assms(2) by (rule id_take_nth_drop)
  have c: "?c \<in> set ?js" using assms(2) by (rule nth_mem)
  then have "set (open_fds [?c]) \<subseteq> set (open_fds ?js)" by (auto simp: open_fds_def)
  with live c have pre: "job_wf ?c" "job_unfinished ?c \<longrightarrow> cmd_out_pipe ?c \<noteq> None \<and> 0 < cmd_pid ?c"
      "\<forall>fd \<in> set (open_fds [?c]). w_pipes w fd \<noteq> None" "pipes_ok w"
    unfolding jobs_live_def by blast+
  consider "cmd_update_state ?c opt w = Inl Blocked"
    | c1 w1 where "cmd_update_state ?c opt w = Inr (c1, w1)" "same_env w w1" "pipes_ok w1"
      "\<forall>fd. fd \<notin> set (open_fds [?c]) \<longrightarrow> w_pipes w1 fd = w_pipes w fd"
      "c1 = ?c \<and> w_pipes w1 = w_pipes w \<or> job_finished c1 \<and> job_wf c1 \<and> \<not> job_unfinished c1"
    using update_one_live [OF pre] by blast
  then show ?thesis
  proof cases
    case 1
    then show ?thesis by (simp add: update_job_def ctl_job_nth [OF wf assms(2)] safe_result_def)
  next
    case 2
    have "ctl_jobs (ctl_put i c1 ctl) = take i ?js @ c1 # drop (Suc i) ?js"
      using ctl_put_jobs(2) [OF wf assms(2)] assms(2) by (simp add: upd_conv_take_nth_drop)
    moreover have "jobs_live (take i ?js @ c1 # drop (Suc i) ?js) w1"
      using jobs_live_replace [OF _ 2(2-5)] live js by metis
    ultimately have "good (ctl_put i c1 ctl) w1"
      using ctl_put_jobs(1) [OF wf assms(2)] by (simp add: good_def)
    then show ?thesis using 2(1) by (simp add: update_job_def ctl_job_nth [OF wf assms(2)] safe_result_def)
  qed
qed

text \<open>Starting a new job with a pipe of its own.\<close>

lemma start_live:
  assumes "jobs_live js w" and "job_shape c" and "job_unfinished c"
    and "w_forks w = Fork_Parent p ch # fs" and "0 < p"
  shows "\<exists>c1 w1. cmd_start c w = Started (c1, w1) \<and> jobs_live (js @ [c1]) w1"
proof -
  let ?fd = "w_next_fd w"
  define c1 where "c1 = c\<lparr>cmd_out_pipe := Some (?fd, ?fd + 1), cmd_str_status := ''RUN'', cmd_pid := p\<rparr>"
  define w1 where "w1 = w\<lparr>w_next_fd := ?fd + 2, w_forks := fs, w_kids := w_kids w @ [(p, ch)],
    w_pipes := (w_pipes w)(?fd \<mapsto> ch_out ch)\<rparr>"
  have start: "cmd_start c w = Started (c1, w1)"
    using assms(4) by (simp add: cmd_start_def sys_pipe_def next_fork_def snprintf_def c1_def w1_def)
  have c1: "job_wf c1" "job_unfinished c1" "0 < cmd_pid c1" "cmd_out_pipe c1 = Some (?fd, ?fd + 1)"
    using assms(2,3,5) by (auto simp: c1_def job_wf_def job_shape_def job_unfinished_def)
  then have fds: "open_fds (js @ [c1]) = open_fds js @ [?fd]"
    by (simp add: open_fds_append open_fds_def)
  have "pipes_ok w1"
    using assms(1,4) by (auto simp: jobs_live_def pipes_ok_def w1_def)
  moreover have "?fd \<notin> set (open_fds js)" using assms(1) by (auto simp: jobs_live_def)
  ultimately have "jobs_live (js @ [c1]) w1"
    using assms(1) c1 fds by (auto simp: jobs_live_def w1_def)
  with start show ?thesis by blast
qed

lemma cmd_new_unfinished: "cmd_new tokens = Inr c \<Longrightarrow> job_unfinished c"
  by (auto simp: cmd_new_def job_unfinished_def snprintf_def split: option.splits if_splits)

lemma good_command:
  assumes "good ctl w" and "length tokens \<le> ARGS_MAX + 1" and "safe_builtin B_Command tokens ctl w"
  shows "safe_result (run_command tokens ctl w)"
proof -
  from assms(3) obtain new p ch fs where new: "cmd_new tokens = Inr new"
      and fork: "w_forks w = Fork_Parent p ch # fs" "0 < p" and size: "ctl_size ctl < int MAX_CHILD"
    by (auto split: sum.splits list.splits fork_ev.splits)
  let ?ctl = "cmdctl_add new ctl" and ?n = "nat (ctl_size ctl)"
  have wf: "ctl_wf ctl" and live: "jobs_live (ctl_jobs ctl) w" using assms(1) by (auto simp: good_def)
  have room: "length (ctl_jobs ctl) < MAX_CHILD" using size wf by (simp add: ctl_wf_def)
  have wf1: "ctl_wf ?ctl" "ctl_jobs ?ctl = ctl_jobs ctl @ [new]"
    using cmdctl_add_room [OF wf room] by auto
  have last: "ctl_size ?ctl - 1 = ctl_size ctl" using size by (simp add: cmdctl_add_def)
  have job: "ctl_job ?ctl (ctl_size ctl) = Inr new"
    using ctl_job_nth [OF wf1(1), of ?n] wf1(2) wf by (simp add: nth_append ctl_wf_def)
  obtain c1 w1 where c1: "cmd_start new w = Started (c1, w1)" "jobs_live (ctl_jobs ctl @ [c1]) w1"
    using start_live [OF live cmd_new_shape [OF new assms(2)] cmd_new_unfinished [OF new] fork] by blast
  have n: "?n < length (ctl_jobs ?ctl)" by (simp add: wf1(2))
  have "good (ctl_put ?n c1 ?ctl) w1"
    using ctl_put_jobs [OF wf1(1) n, of c1] c1(2) wf1(2)
    by (simp add: good_def list_update_append)
  then show ?thesis
    by (simp add: run_command_def new Let_def last job start_last_def c1(1) safe_result_def)
qed

text \<open>Printing what is stored changes nothing but standard output.\<close>

lemma show_output_good:
  assumes "printable c" and "good ctl w"
  shows "\<exists>w1. show_output c w = Inr w1 \<and> good ctl w1"
  using assms
  by (auto simp: show_output_def cmd_print_output_def printable_def map_res_def
      split: option.splits sum.splits)

lemma show_job_good:
  assumes "good ctl w" and "i < length (ctl_jobs ctl)" and "printable (ctl_jobs ctl ! i)"
  shows "\<exists>w1. rbind (ctl_job ctl (int i)) (\<lambda>cmd. show_output cmd w) = Inr w1 \<and> good ctl w1"
  using assms show_output_good [of "ctl_jobs ctl ! i" ctl w] ctl_job_nth [of ctl i]
  by (simp add: good_def)

lemma cmdctl_print_good:
  assumes "good ctl w"
  shows "\<exists>w1. cmdctl_print ctl w = Inr w1 \<and> good ctl w1"
proof -
  obtain w1 where w1: "cmdctl_print ctl w = Inr w1" using cmdctl_print_total good_table [OF assms] by blast
  have "good ctl w1"
    by (rule for_range_invariant [where P = "good ctl", OF _ _ w1 [unfolded cmdctl_print_def]])
      (use assms in auto)
  with w1 show ?thesis by blast
qed

lemma safe_result_Again: "\<exists>w1. r = Inr w1 \<and> good ctl w1 \<Longrightarrow> safe_result (map_res (Again ctl) r)"
  by (auto simp: safe_result_def)

lemma int_ok_cases: "int_ok tokens i \<Longrightarrow> \<exists>k. int_token tokens i = Inr k"
  by (auto simp: int_ok_def split: sum.splits)

text \<open>Every branch of the dispatch, on a line it can handle.\<close>

lemma good_builtin:
  assumes "good ctl w" and "length tokens \<le> ARGS_MAX + 1" and "safe_builtin b tokens ctl w"
  shows "safe_result (run_builtin b tokens ctl w)"
proof (cases b)
  case B_Help
  then show ?thesis using assms(1) by (simp add: safe_result_def)
next
  case B_Exit
  then show ?thesis by (simp add: safe_result_def)
next
  case B_List
  then show ?thesis using safe_result_Again [OF cmdctl_print_good [OF assms(1)]] by simp
next
  case B_Pause
  with assms(3) obtain n t where "int_token tokens 1 = Inr n" "int_token tokens 2 = Inr t"
    by (auto dest!: int_ok_cases)
  with B_Pause assms(1) show ?thesis by (simp add: good_update_result)
next
  case B_Output_For
  with assms(3) obtain k where k: "int_token tokens 1 = Inr k" "0 \<le> k" "k < ctl_size ctl"
      "printable (ctl_jobs ctl ! nat k)" by (auto split: sum.splits)
  with safe_result_Again [OF show_job_good [OF assms(1), of "nat k"]] B_Output_For show ?thesis
    by (cases "ctl_job ctl k") auto
next
  case B_Output_All
  have "\<exists>w1. for_range [0..<nat (ctl_size ctl)]
      (\<lambda>i w. rbind (ctl_job ctl (int i)) (\<lambda>cmd. show_output cmd w)) w = Inr w1 \<and> good ctl w1"
    using assms(3) B_Output_All
    by (intro for_range_exists [where P = "good ctl"] show_job_good assms(1))
      (auto simp: list_all_length)
  from safe_result_Again [OF this] show ?thesis using B_Output_All by simp
next
  case B_Wait_For
  with assms(3) obtain k where "int_token tokens 1 = Inr k" by (auto dest!: int_ok_cases)
  with B_Wait_For assms(1) good_update_job [OF assms(1), of "nat k" DOBLOCK] show ?thesis
    by (simp add: safe_result_def)
next
  case B_Wait_All
  then show ?thesis using good_update_result [OF assms(1)] by simp
next
  case B_Command
  then show ?thesis using good_command [OF assms(1,2)] assms(3) by simp
qed

lemma good_end_turn:
  assumes "safe_result r"
  shows "safe_result (rbind r end_turn)"
proof (cases r)
  case (Inl e)
  with assms show ?thesis by (simp add: safe_result_def)
next
  case (Inr it)
  show ?thesis
  proof (cases it)
    case (Again ctl1 w1)
    then have "good ctl1 w1" using assms Inr by (auto simp: safe_result_def)
    from good_update_result [OF this, of NOBLOCK] show ?thesis using Inr Again by simp
  qed (use Inr in \<open>simp_all add: safe_result_def\<close>)
qed

text \<open>\<open>safe_builtin\<close> looks at the environment's next fork only.\<close>

lemma safe_builtin_world: "w_forks w1 = w_forks w \<Longrightarrow> safe_builtin b t ctl w1 = safe_builtin b t ctl w"
  by (cases b) simp_all

lemma parse_tokens_words:
  obtains ws where "parse_into_tokens s = (map Some ws @ [None], int (length ws))"
  by (simp add: parse_into_tokens_def Let_def)

lemma good_dispatch:
  assumes "good ctl w" and "toks = parse_into_tokens s"
    and "case fst toks of
        Some t # r \<Rightarrow> safe_builtin (builtin_of t (snd toks)) (fst toks) ctl w | _ \<Rightarrow> True"
  shows "safe_result (dispatch (fst toks) (snd toks) ctl w)"
proof -
  obtain ws where ws: "parse_into_tokens s = (map Some ws @ [None], int (length ws))"
    by (rule parse_tokens_words)
  show ?thesis
  proof (cases ws)
    case Nil
    then show ?thesis using ws assms(1,2) by (simp add: dispatch_def safe_result_def)
  next
    case (Cons t r)
    then have "safe_builtin (builtin_of t (snd toks)) (fst toks) ctl w"
      using ws assms(2,3) by simp
    from good_builtin [OF assms(1) _ this] show ?thesis
      using ws assms(2) Cons parse_tokens_length [of s] by (simp add: dispatch_def token_def)
  qed
qed

lemma good_turn:
  assumes "good ctl w" and "safe_line ctl (print ''@> '' w)"
  shows "safe_result (main_iter echo ctl w)"
proof (cases "fgets MAX_LINE (print ''@> '' w)")
  case None
  then show ?thesis by (simp add: main_iter_def safe_result_def)
next
  case (Some p)
  obtain buf w2 where p: "p = (buf, w2)" by force
  define w3 where "w3 = (if echo then print (cstr buf) w2 else w2)"
  have w2: "w2 = (print ''@> '' w)\<lparr>w_stdin := w_stdin w2\<rparr>"
    using Some p by (auto simp: fgets_def Let_def split: if_splits)
  have "good ctl w2" using assms(1) by (subst w2) simp
  then have good: "good ctl w3" by (simp add: w3_def)
  have "w_forks w2 = w_forks (print ''@> '' w)" by (subst w2) simp
  then have "w_forks w3 = w_forks (print ''@> '' w)" by (simp add: w3_def print_def)
  then have "safe_result (dispatch (fst (parse_into_tokens buf)) (snd (parse_into_tokens buf)) ctl w3)"
    using assms(2) Some p safe_builtin_world [of w3 "print ''@> '' w"]
    by (intro good_dispatch [OF good refl])
      (auto simp: safe_line_def Let_def split: list.splits option.splits)
  from good_end_turn [OF this] show ?thesis by (simp add: main_iter_def Some p w3_def Let_def)
qed

section \<open>Waiting for one job\<close>

lemma wait_for_line:
  assumes "j < 1024"
  shows "builtin_of ''wait-for'' 2 = B_Wait_For"
    and "int_token [Some ''wait-for'', Some (show_int (int j)), None] 1 = Inr (int j)"
  using assms by (simp_all add: builtin_of_def int_token_def token_def atoi_show_int in_int_def)

lemma wait_for_job:
  assumes "ctl_wf ctl" and "j < length (ctl_jobs ctl)"
    and "update_list DOBLOCK [ctl_jobs ctl ! j] w = Inr ([c], w1)"
  shows "run_builtin B_Wait_For [Some ''wait-for'', Some (show_int (int j)), None] ctl w
    = Inr (Again (ctl_put j c ctl) w1)"
proof -
  have "j < 1024" using assms(1,2) ctl_wf_size [of ctl] by simp
  from wait_for_line(2) [OF this] show ?thesis
    using assms ctl_job_nth [OF assms(1,2)] by (auto simp: update_job_def)
qed

lemma finish_one:
  assumes "ctl_wf ctl" and "jobs_live (ctl_jobs ctl) w" and "j < length (ctl_jobs ctl)"
    and "job_unfinished (ctl_jobs ctl ! j)" and "distinct (map fst (w_kids w))"
    and "map_of (w_kids w) (cmd_pid (ctl_jobs ctl ! j)) = Some ch" and "will_exit ch"
  shows "\<exists>c w1. cmd_update_state (ctl_jobs ctl ! j) DOBLOCK w = Inr (c, w1) \<and> job_finished c"
proof -
  let ?c = "ctl_jobs ctl ! j"
  have in_jobs: "?c \<in> set (ctl_jobs ctl)" using assms(3) by (rule nth_mem)
  with assms(2,4) obtain fd wr where c: "job_wf ?c" "cmd_out_pipe ?c = Some (fd, wr)" "0 < cmd_pid ?c"
    by (fastforce simp: jobs_live_def)
  then have "fd \<in> set (open_fds (ctl_jobs ctl))"
    using assms(4) in_jobs by (force simp: open_fds_def)
  with assms(2) obtain d where d: "w_pipes w fd = Some d" "length d < 2 ^ 29"
    by (fastforce simp: jobs_live_def pipes_ok_def)
  show ?thesis using update_one_waits [OF c(1) assms(4) c(2,3) d assms(5-7)] by blast
qed

section \<open>A child that could not run its program\<close>

lemma update_list_append:
  "update_list opt (a @ b) w =
     rbind (update_list opt a w) (\<lambda>(a1, w1). map_res (\<lambda>(b1, w2). (a1 @ b1, w2)) (update_list opt b w1))"
proof (induction a arbitrary: w)
  case Nil
  show ?case by (cases "update_list opt b w") auto
next
  case (Cons c a)
  show ?case
  proof (cases "cmd_update_state c opt w")
    case (Inr r)
    then show ?thesis using Cons.IH [of "snd r"]
      by (cases r; cases "update_list opt a (snd r)"; cases "update_list opt b (snd (projr (update_list opt a (snd r))))")
        (auto split: prod.splits)
  qed simp
qed

lemma update_list_childless:
  assumes "w_kids w = []" and "\<forall>c \<in> set cs. job_finished c \<or> 0 < cmd_pid c"
  shows "update_list opt cs w = Inr (cs, w)"
  using assms(2)
proof (induction cs)
  case (Cons c cs)
  have "cmd_update_state c opt w = Inr (c, w)"
  proof (cases "cmd_finished c = 1")
    case True
    then show ?thesis by (rule cmd_update_finished)
  next
    case False
    then have "cmd_pid c \<noteq> -1" using Cons.prems by (auto simp: job_finished_def)
    then show ?thesis using assms(1) False
      by (intro cmd_update_ignored [OF False waitpid_gone]) auto
  qed
  then show ?case using Cons by simp
qed simp

lemma childless_any: "w_kids w = [] \<Longrightarrow> waitpid pid opt w = Inr ((-1, None), w)"
  by (simp add: waitpid_def selected_def)

lemma start_in_child:
  assumes "w_forks w = Fork_Child False # fs"
  shows "\<exists>c1 w1. cmd_start c w = Started (c1, w1) \<and> cmd_pid c1 = cmd_pid c
    \<and> cmd_finished c1 = cmd_finished c \<and> w_kids w1 = []"
  using assms by (simp add: cmd_start_def sys_pipe_def next_fork_def sys_close_def)

lemma exec_failure:
  assumes "ctl_wf ctl" and "length (ctl_jobs ctl) < MAX_CHILD"
    and "\<forall>c \<in> set (ctl_jobs ctl). job_finished c \<or> 0 < cmd_pid c"
    and "cmd_new tokens = Inr new" and "w_forks w = Fork_Child False # fs"
  shows "rbind (run_command tokens ctl w) end_turn = undef Uninitialised"
proof -
  let ?ctl = "cmdctl_add new ctl" and ?n = "nat (ctl_size ctl)"
  have wf1: "ctl_wf ?ctl" "ctl_jobs ?ctl = ctl_jobs ctl @ [new]"
    using cmdctl_add_room [OF assms(1,2)] by auto
  have last: "ctl_size ?ctl - 1 = ctl_size ctl" using assms(1,2) by (auto simp: cmdctl_add_def)
  have job: "ctl_job ?ctl (ctl_size ctl) = Inr new"
    using ctl_job_nth [OF wf1(1), of ?n] wf1(2) assms(1) by (simp add: nth_append ctl_wf_def)
  obtain c1 w1 where c1: "cmd_start new w = Started (c1, w1)" "cmd_pid c1 = cmd_pid new"
      "cmd_finished c1 = cmd_finished new" "w_kids w1 = []"
    using start_in_child [OF assms(5)] by blast
  have new: "cmd_pid new = -1" "cmd_finished new = 0"
    using assms(4) by (auto simp: cmd_new_def split: option.splits if_splits)
  have bad: "cmd_update_state c1 NOBLOCK w1 = undef Uninitialised"
    using c1 new by (simp add: cmd_update_state_def childless_any)
  have n: "?n < length (ctl_jobs ?ctl)" by (simp add: wf1(2))
  have put: "ctl_wf (ctl_put ?n c1 ?ctl)" "ctl_jobs (ctl_put ?n c1 ?ctl) = ctl_jobs ctl @ [c1]"
    using ctl_put_jobs [OF wf1(1) n, of c1] wf1(2) by (auto simp: list_update_append)
  have "update_list NOBLOCK (ctl_jobs ctl @ [c1]) w1 = undef Uninitialised"
    using update_list_childless [OF c1(4) assms(3)] bad by (simp add: update_list_append)
  then have "cmdctl_update_state (ctl_put ?n c1 ?ctl) NOBLOCK w1 = undef Uninitialised"
    using cmdctl_update_list [OF put(1), of NOBLOCK w1]
    by (auto simp: put(2) same_table_def split: sum.splits)
  then show ?thesis
    by (simp add: run_command_def assms(4) Let_def last job start_last_def c1(1))
qed

section \<open>Properties\<close>

text \<open>
  C21. In every state a turn of the shell can begin in, whatever the input, the forks and the
  children were, the table is well formed, \<open>list\<close> prints it without undefined behaviour, the
  final \<open>cmdctl_freeall\<close> frees no block twice, and no more turns have passed than bytes of
  input were given.
\<close>

theorem shell_reach_safe:
  assumes "shell_reach echo w0 n ctl w"
  shows "ctl_wf ctl \<and> (\<exists>w1. cmdctl_print ctl w = Inr w1)
    \<and> (\<exists>bs. cmdctl_freeall ctl = Inr bs \<and> distinct bs) \<and> n \<le> length (w_stdin w0)"
proof -
  from shell_reach_ok [OF assms] have ok: "table_ok ctl" "n \<le> length (w_stdin w0)" by auto
  then have "cmdctl_freeall ctl = Inr (concat (map (\<lambda>i. map (Job_Block i) (job_blocks (ctl_jobs ctl ! i)))
      [0..<length (ctl_jobs ctl)]) @ [Ctl_Block])"
    by (intro cmdctl_freeall_blocks) (auto simp: table_ok_def)
  then have "\<exists>bs. cmdctl_freeall ctl = Inr bs \<and> distinct bs"
    using distinct_tagged [OF distinct_job_blocks] by auto
  then show ?thesis using ok cmdctl_print_total by (auto simp: table_ok_def)
qed

theorem shell_reach_safe_witness:
  "\<exists>w. main_iter False empty_ctl ((hello_world 0)\<lparr>w_stdin := [LF, LF]\<rparr>) = Inr (Again empty_ctl w)
    \<and> (\<exists>w1. cmdctl_print empty_ctl w = Inr w1) \<and> 1 \<le> length [LF, LF]"
proof -
  let ?w0 = "(hello_world 0)\<lparr>w_stdin := [LF, LF]\<rparr>"
  have turn: "main_iter False empty_ctl ?w0
      = Inr (Again empty_ctl (?w0\<lparr>w_stdin := [LF], w_stdout := ''@> ''\<rparr>))"
    by (simp add: main_iter_def fgets_def numeral_eq_Suc Let_def parse_into_tokens_def cstr_def
        strtok_def dispatch_def cmdctl_update_state_def empty_ctl_def print_def hello_world_def)
  have "shell_reach False ?w0 1 empty_ctl (?w0\<lparr>w_stdin := [LF], w_stdout := ''@> ''\<rparr>)"
    using shell_reach.turn [OF shell_reach.start turn] by simp
  from shell_reach_safe [OF this] turn show ?thesis by (simp add: hello_world_def)
qed

text \<open>
  C1. A turn on a line the code can handle has no undefined behaviour: begun in a state whose
  jobs' pipes are open, it leaves the loop, blocks in a wait, or ends in such a state again.
  Handled are all lines but: a number no \<open>int\<close> holds, \<open>output-for\<close> with an unused job number,
  the output of a job whose buffer is partly unwritten, a command when the table is
  full, with a name that is too long, or whose fork or exec fails.
\<close>

theorem main_iter_safe:
  assumes "good ctl w" and "safe_line ctl (print ''@> '' w)"
  shows "main_iter echo ctl w = Inl Blocked \<or>
    (\<exists>it. main_iter echo ctl w = Inr it \<and> (\<forall>ctl1 w1. it = Again ctl1 w1 \<longrightarrow> good ctl1 w1))"
  using good_turn [OF assms] by (simp add: safe_result_def)

theorem main_iter_safe_witness:
  "main_iter False empty_ctl ((hello_world 0)\<lparr>w_stdin := ''ls -a\<newline>''\<rparr>) = Inl Blocked \<or>
    (\<exists>it. main_iter False empty_ctl ((hello_world 0)\<lparr>w_stdin := ''ls -a\<newline>''\<rparr>) = Inr it
      \<and> (\<forall>ctl1 w1. it = Again ctl1 w1 \<longrightarrow> good ctl1 w1))"
proof (rule main_iter_safe)
  show "good empty_ctl ((hello_world 0)\<lparr>w_stdin := ''ls -a\<newline>''\<rparr>)"
    by (simp add: good_def jobs_live_def open_fds_def pipes_ok_def hello_world_def)
  have tokens: "parse_into_tokens ''ls -a\<newline>'' = ([Some ''ls'', Some ''-a'', None], 2)"
    by (simp add: parse_into_tokens_def strtok_def cstr_def)
  have new: "cmd_new [Some ''ls'', Some ''-a'', None] = Inr (fresh_job [''ls'', ''-a''])"
    using cmd_new_words [of "[''ls'', ''-a'']"] by simp
  show "safe_line empty_ctl (print ''@> '' ((hello_world 0)\<lparr>w_stdin := ''ls -a\<newline>''\<rparr>))"
    by (simp add: safe_line_def fgets_def numeral_eq_Suc tokens [simplified numeral_eq_Suc]
        new Let_def builtin_of_def print_def hello_world_def empty_ctl_def)
qed

text \<open>
  \<open>wait-for j\<close> waits for exactly the job it names: when the first thing the child of job
  \<open>j\<close> reports is its exit, the command returns with job \<open>j\<close> finished and every other job
  untouched.
\<close>

theorem wait_for_finishes_job:
  assumes "ctl_wf ctl" and "jobs_live (ctl_jobs ctl) w" and "j < length (ctl_jobs ctl)"
    and "job_unfinished (ctl_jobs ctl ! j)" and "distinct (map fst (w_kids w))"
    and "map_of (w_kids w) (cmd_pid (ctl_jobs ctl ! j)) = Some ch" and "will_exit ch"
  shows "\<exists>c w1 ctl1. dispatch [Some ''wait-for'', Some (show_int (int j)), None] 2 ctl w
      = Inr (Again ctl1 w1)
    \<and> job_finished c \<and> ctl_jobs ctl1 = (ctl_jobs ctl)[j := c]"
proof -
  obtain c w1 where c: "cmd_update_state (ctl_jobs ctl ! j) DOBLOCK w = Inr (c, w1)" "job_finished c"
    using finish_one [OF assms] by blast
  have "j < 1024" using assms(1,3) ctl_wf_size [of ctl] by simp
  then have "dispatch [Some ''wait-for'', Some (show_int (int j)), None] 2 ctl w
      = Inr (Again (ctl_put j c ctl) w1)"
    using wait_for_job [OF assms(1,3), of w c w1] c(1)
    by (simp add: dispatch_def token_def wait_for_line(1))
  then show ?thesis using c(2) ctl_put_jobs(2) [OF assms(1,3)] by auto
qed

theorem wait_for_finishes_job_witness:
  "\<exists>c w1 ctl1. dispatch [Some ''wait-for'', Some ''0'', None] 2 (cmdctl_add running_job empty_ctl)
      running_world = Inr (Again ctl1 w1)
    \<and> job_finished c \<and> ctl_jobs ctl1 = [c]"
proof -
  let ?ctl = "cmdctl_add running_job empty_ctl"
  have ctl: "ctl_wf ?ctl" "ctl_jobs ?ctl = [running_job]"
    by (simp_all add: jobs.wf_add jobs.items_add)
  have unf: "job_wf running_job" "job_unfinished running_job"
    by (auto simp: job_wf_def job_shape_def job_unfinished_def running_job_def fresh_job_def)
  then have "jobs_live [running_job] running_world"
    by (auto simp: jobs_live_def open_fds_def pipes_ok_def running_world_def hello_world_def
        running_job_def)
  moreover have "ctl_size ?ctl = 1" by (simp add: cmdctl_add_def empty_ctl_def ctl_put_def)
  ultimately show ?thesis
    using wait_for_finishes_job [of ?ctl running_world 0
        "\<lparr>ch_events = [Not_Yet, Not_Yet, Report (exit_status 3)], ch_out = ''hi''\<rparr>"] ctl unf
    by (simp add: show_int_def show_nat_small will_exit_def running_world_def running_job_def)
qed

text \<open>
  \<open>output-for\<close> does not check its argument: for a number that is not that of a job, the
  code follows a pointer outside the array or one that was never written.
\<close>

theorem output_for_unchecked:
  assumes "ctl_wf ctl" and "in_int k" and "k < 0 \<or> ctl_size ctl \<le> k"
  shows "dispatch [Some ''output-for'', Some (show_int k), None] 2 ctl w =
    undef (if k < 0 \<or> int MAX_CHILD \<le> k then Out_Of_Bounds else Uninitialised)"
proof -
  have "ctl_cmd ctl (nat k) = None" if "\<not> k < 0"
  proof -
    have "\<not> nat k < nat (ctl_size ctl)" using assms(3) that by simp
    with assms(1) show ?thesis unfolding ctl_wf_def by blast
  qed
  then show ?thesis
    using assms(2)
    by (auto simp: dispatch_def token_def builtin_of_def int_token_def atoi_show_int ctl_job_def)
qed

theorem output_for_unchecked_witness:
  "dispatch [Some ''output-for'', Some ''0'', None] 2 empty_ctl (hello_world 0) = undef Uninitialised"
  using output_for_unchecked [of empty_ctl 0 "hello_world 0"]
  by (simp add: show_int_def show_nat_small in_int_def empty_ctl_def ctl_wf_def)

text \<open>
  When the table is full, a command runs the last job of the table once more: which
  program is started does not depend on what was typed, and the new job is lost.
\<close>

theorem full_table_reruns_last:
  assumes "ctl_wf ctl" and "length (ctl_jobs ctl) = MAX_CHILD" and "cmd_new tokens = Inr new"
  shows "run_command tokens ctl w = Inr (start_last (ctl_jobs ctl ! (MAX_CHILD - 1)) ctl w)"
proof -
  have size: "ctl_size ctl = int MAX_CHILD" using assms(1,2) by (simp add: ctl_wf_def)
  then have "ctl_job ctl 1023 = Inr (ctl_jobs ctl ! 1023)"
    using ctl_job_nth [OF assms(1), of 1023] by simp
  then show ?thesis
    by (simp add: run_command_def assms(3) cmdctl_add_full [OF assms(1,2)] size)
qed

theorem full_table_reruns_last_witness:
  "run_command [Some ''ls'', None] (fold cmdctl_add (replicate 1024 (fresh_job [''cat''])) empty_ctl) (hello_world 0)
    = Inr (start_last (fresh_job [''cat''])
        (fold cmdctl_add (replicate 1024 (fresh_job [''cat''])) empty_ctl) (hello_world 0))"
proof -
  let ?ctl = "fold cmdctl_add (replicate 1024 (fresh_job [''cat''])) empty_ctl"
  have ctl: "ctl_wf ?ctl" "ctl_jobs ?ctl = replicate 1024 (fresh_job [''cat''])"
    using jobs.fold_add [of empty_ctl "replicate 1024 (fresh_job [''cat''])"] by auto
  have "cmd_new [Some ''ls'', None] = Inr (fresh_job [''ls''])"
    using cmd_new_words [of "[''ls'']"] by simp
  then show ?thesis
    using full_table_reruns_last [OF ctl(1), of "[Some ''ls'', None]" "fresh_job [''ls'']"
        "hello_world 0"]
    by (simp only: ctl(2) length_replicate) simp
qed

text \<open>
  C36. When \<open>execvp\<close> fails, the child goes on as a second shell and, at the end of its turn,
  waits for process -1: it has no child, the call gives back -1, which it takes for the job's own
  process, and the code reads a status word that was never written.
\<close>

theorem exec_failure_reads_garbage:
  assumes "ctl_wf ctl" and "length (ctl_jobs ctl) < MAX_CHILD"
    and "\<forall>c \<in> set (ctl_jobs ctl). job_finished c \<or> 0 < cmd_pid c"
    and "cmd_new tokens = Inr new" and "w_forks w = Fork_Child False # fs"
  shows "rbind (run_command tokens ctl w) end_turn = undef Uninitialised"
  using assms by (rule exec_failure)

theorem exec_failure_reads_garbage_witness:
  "rbind (run_command [Some ''nosuch'', None] empty_ctl
      ((hello_world 0)\<lparr>w_forks := [Fork_Child False]\<rparr>)) end_turn = undef Uninitialised"
  using exec_failure_reads_garbage [of empty_ctl "[Some ''nosuch'', None]" "fresh_job [''nosuch'']"]
    cmd_new_words [of "[''nosuch'']"] by simp

end
