(* ===== verification/Shell_Session.thy ===== *)
theory Shell_Session
  imports Shell_Main
begin

text \<open>
  A whole dialogue with the shell, from the lines of its input to its output: a command is
  started, waited for and its output shown. The turns of \<open>main\<close> are composed with the life of the
  job and with what the child does, which may end before, during or after any of the polls.
\<close>

section \<open>One turn on a line of words\<close>

lemma line_of_line: "LF \<notin> set l \<Longrightarrow> length l < n \<Longrightarrow> line_of n (l @ LF # r) = l @ [LF]"
proof (induction l arbitrary: n)
  case Nil
  then show ?case by (cases n) auto
next
  case (Cons c l)
  then show ?case by (cases n) auto
qed

lemma unwords_line:
  assumes "\<forall>w \<in> set ws. is_word w"
  shows "\<exists>l. unwords ws = l @ [LF] \<and> LF \<notin> set l"
  using assms
proof (induction ws rule: unwords.induct)
  case (3 w v ws)
  then obtain l where "unwords (v # ws) = l @ [LF]" "LF \<notin> set l" by auto
  with 3 show ?case by (intro exI [of _ "w @ SP # l"]) (auto simp: is_word_def)
qed (auto simp: is_word_def)

definition command_line :: "string list \<Rightarrow> bool" where
  "command_line ws \<longleftrightarrow> ws \<noteq> [] \<and> (\<forall>w \<in> set ws. is_word w) \<and> length ws \<le> ARGS_MAX
     \<and> length (unwords ws) < MAX_LINE"

definition prompted :: "bool \<Rightarrow> string list \<Rightarrow> string" where
  "prompted echo ws = ''@> '' @ (if echo then unwords ws else [])"

lemma print_print: "print t (print s w) = print (s @ t) w"
  by (simp add: print_def)

lemma fgets_unwords:
  assumes "command_line ws" and "w_stdin w = unwords ws @ rest"
  shows "fgets MAX_LINE w = Some (unwords ws, w\<lparr>w_stdin := rest\<rparr>)"
proof -
  obtain l where l: "unwords ws = l @ [LF]" "LF \<notin> set l"
    using assms(1) unwords_line unfolding command_line_def by blast
  then have "line_of (MAX_LINE - 1) (w_stdin w) = unwords ws"
    using line_of_line [OF l(2), of "MAX_LINE - 1" rest] assms by (simp add: command_line_def)
  then show ?thesis using assms(2) l(1) by (simp add: fgets_def Let_def)
qed

lemma turn_on_line:
  assumes "command_line ws" and "w_stdin w = unwords ws @ rest"
  shows "main_iter echo ctl w =
    rbind (run_builtin (builtin_of (hd ws) (int (length ws))) (map Some ws @ [None]) ctl
        (print (prompted echo ws) (w\<lparr>w_stdin := rest\<rparr>))) end_turn"
proof -
  have toks: "parse_into_tokens (unwords ws) = (map Some ws @ [None], int (length ws))"
    using assms(1) by (intro parse_unwords) (auto simp: command_line_def)
  have str: "cstr (unwords ws) = unwords ws"
    using assms(1) by (intro cstr_id unwords_no_nul) (simp add: command_line_def)
  have "fgets MAX_LINE (print ''@> '' w) = Some (unwords ws, (print ''@> '' w)\<lparr>w_stdin := rest\<rparr>)"
    using assms by (intro fgets_unwords) simp_all
  moreover have "(print ''@> '' w)\<lparr>w_stdin := rest\<rparr> = print ''@> '' (w\<lparr>w_stdin := rest\<rparr>)" by (simp add: print_def)
  moreover have "token (map Some ws @ [None]) 0 = Inr (hd ws)"
    using assms(1) by (cases ws) (auto simp: command_line_def token_def)
  moreover have "0 < int (length ws)" using assms(1) by (simp add: command_line_def)
  ultimately show ?thesis
    by (simp add: main_iter_def Let_def toks str dispatch_def prompted_def print_print)
qed

text \<open>A turn that goes on: what the command did, and the polls behind it.\<close>

lemma line_goes_on:
  assumes "command_line ws" and "w_stdin w = unwords ws @ rest"
    and "run_builtin (builtin_of (hd ws) (int (length ws))) (map Some ws @ [None]) ctl
        (print (prompted echo ws) (w\<lparr>w_stdin := rest\<rparr>)) = Inr (Again ctl1 w1)"
    and "ctl_wf ctl1" and "update_list NOBLOCK (ctl_jobs ctl1) w1 = Inr (cs, w2)"
  shows "\<exists>ctl2. main_loop echo ctl w = main_loop echo ctl2 w2 \<and> ctl_wf ctl2 \<and> ctl_jobs ctl2 = cs"
proof -
  obtain ctl2 where ctl2: "cmdctl_update_state ctl1 NOBLOCK w1 = Inr (ctl2, w2)" "ctl_wf ctl2" "ctl_jobs ctl2 = cs"
    using cmdctl_update_list [OF assms(4), of NOBLOCK w1] assms(5)
    by (auto simp: same_table_def split: sum.splits)
  have "main_iter echo ctl w = Inr (Again ctl2 w2)"
    using turn_on_line [OF assms(1,2), of echo ctl] assms(3) ctl2(1) by simp
  then show ?thesis using ctl2(2,3) by (subst main_loop.simps) auto
qed

section \<open>A job and its child\<close>

text \<open>A finished job whose output is \<open>d\<close>, and jobs an update leaves alone.\<close>

definition ended_with :: "string \<Rightarrow> cmd_t \<Rightarrow> bool" where
  "ended_with d c \<longleftrightarrow> cmd_finished c = 1 \<and> cmd_output_size c = int (length d)
     \<and> (\<forall>w. cmd_print_output c w = Inr (print d w))"

definition all_finished :: "cmd_t list \<Rightarrow> bool" where
  "all_finished cs \<longleftrightarrow> (\<forall>c \<in> set cs. cmd_finished c = 1)"

lemma update_all_finished: "all_finished cs \<Longrightarrow> update_list opt cs w = Inr (cs, w)"
  by (induction cs) (auto simp: all_finished_def cmd_update_finished)

lemma update_last:
  "all_finished cs \<Longrightarrow> update_list opt (cs @ [c]) w = map_res (\<lambda>(c1, w1). (cs @ [c1], w1)) (cmd_update_state c opt w)"
  by (cases "cmd_update_state c opt w") (auto simp: update_list_append update_all_finished split: prod.splits)

text \<open>The only child is that of the job, and will report after \<open>n\<close> polls.\<close>

definition child_of :: "nat \<Rightarrow> 8 word \<Rightarrow> string \<Rightarrow> child" where
  "child_of n k d = \<lparr>ch_events = replicate n Not_Yet @ [Report (exit_status k)], ch_out = d\<rparr>"

definition runs :: "nat \<Rightarrow> 8 word \<Rightarrow> string \<Rightarrow> cmd_t \<Rightarrow> world \<Rightarrow> bool" where
  "runs n k d c w \<longleftrightarrow> 0 < cmd_pid c \<and> cmd_finished c = 0 \<and> w_kids w = [(cmd_pid c, child_of n k d)]
     \<and> (\<exists>fd wr. cmd_out_pipe c = Some (fd, wr) \<and> w_pipes w fd = Some d)"

definition text_output :: "string \<Rightarrow> bool" where
  "text_output d \<longleftrightarrow> length d < 2 ^ 29 \<and> (length d < 1024 \<or> NUL \<notin> set d)"

text \<open>What an update that finds the report leaves.\<close>

definition reports :: "8 word \<Rightarrow> string \<Rightarrow> cmd_t \<Rightarrow> world \<Rightarrow> cmd_t \<Rightarrow> world \<Rightarrow> bool" where
  "reports k d c w c1 w1 \<longleftrightarrow> ended_with d c1 \<and> cmd_status c1 = uint k \<and> cmd_label c1 = cmd_label c
     \<and> w_stdin w1 = w_stdin w \<and> w_kids w1 = []
     \<and> w_stdout w1 = w_stdout w @ ''@!!! '' @ cmd_label c @ '': '' @ exit_text (uint k) @ [LF]"

lemma update_reports:
  assumes "runs n k d c w" and "text_output d" and "opt = DOBLOCK \<or> n = 0"
  shows "\<exists>c1 w1. cmd_update_state c opt w = Inr (c1, w1) \<and> reports k d c w c1 w1"
proof -
  let ?p = "cmd_pid c"
  obtain fd wr where c: "0 < ?p" "cmd_finished c = 0" "cmd_out_pipe c = Some (fd, wr)" "w_pipes w fd = Some d"
      "w_kids w = [] @ (?p, child_of n k d) # []"
    using assms(1) by (auto simp: runs_def)
  obtain m where m: "read_all (Some d) = Inr (m, int (length d), [])"
      "take (Suc (length d)) m = map Some d @ [Some NUL]"
    using read_all_whole [of d] assms(2) by (auto simp: text_output_def)
  then have read: "mem_read (length d) m = Inr d" by (simp add: mem_read_prefix take_Suc_prefix)
  have "waitpid ?p opt w = Inr ((?p, Some (exit_status k)), w\<lparr>w_kids := []\<rparr>)"
  proof (cases opt)
    case DOBLOCK
    then show ?thesis using waitpid_block [OF _ c(5), of n "exit_status k" "[]"] c(1)
      by (simp add: child_of_def WIFEXITED_WGONE)
  next
    case NOBLOCK
    then have "n = 0" using assms(3) by simp
    with NOBLOCK show ?thesis using waitpid_poll [OF _ c(5)] c(1)
      by (simp add: child_of_def WIFEXITED_WGONE)
  qed
  then have "cmd_update_state c opt w = Inr (finish_job (exit_status k) m (length d) c,
      sys_close fd (print (cmd_alert (finish_job (exit_status k) m (length d) c)) (w\<lparr>w_kids := []\<rparr>)))"
    using c m(1) by (intro cmd_update_exited [where wr = wr and r = "[]"]) auto
  moreover have "ended_with d (finish_job (exit_status k) m (length d) c)"
    using read by (simp add: ended_with_def finish_job_def cmd_print_output_def)
  ultimately show ?thesis
    by (auto simp: reports_def finish_job_def sys_close_def print_def cmd_alert_def cmd_label_def)
qed

lemma update_not_yet:
  assumes "runs (Suc n) k d c w"
  shows "\<exists>w1. cmd_update_state c NOBLOCK w = Inr (c, w1) \<and> runs n k d c w1
    \<and> w_stdin w1 = w_stdin w \<and> w_stdout w1 = w_stdout w"
proof -
  have c: "0 < cmd_pid c" "cmd_finished c = 0" "w_kids w = [] @ (cmd_pid c, child_of (Suc n) k d) # []"
    using assms by (auto simp: runs_def)
  have "waitpid (cmd_pid c) NOBLOCK w = Inr ((0, None), w\<lparr>w_kids := [(cmd_pid c, child_of n k d)]\<rparr>)"
    using waitpid_poll [OF _ c(3)] c(1) by (simp add: child_of_def)
  with c have "cmd_update_state c NOBLOCK w = Inr (c, w\<lparr>w_kids := [(cmd_pid c, child_of n k d)]\<rparr>)"
    by (intro cmd_update_ignored) auto
  with assms show ?thesis by (auto simp: runs_def)
qed

section \<open>The three turns\<close>

definition notice :: "string \<Rightarrow> 8 word \<Rightarrow> string" where
  "notice label k = ''@!!! '' @ label @ '': '' @ exit_text (uint k) @ [LF]"

definition job_label :: "string list \<Rightarrow> int \<Rightarrow> string" where
  "job_label ws p = hd ws @ ''[#'' @ show_int p @ '']''"

text \<open>The last job of a table.\<close>

lemma last_of_table:
  assumes "ctl_wf ctl" and "ctl_jobs ctl = cs @ [c]"
  shows "length cs < length (ctl_jobs ctl)" and "length cs < MAX_CHILD" and "ctl_size ctl = int (length cs) + 1"
    and "ctl_job ctl (int (length cs)) = Inr c"
    and "ctl_wf (ctl_put (length cs) c1 ctl)" and "ctl_jobs (ctl_put (length cs) c1 ctl) = cs @ [c1]"
proof -
  show j: "length cs < length (ctl_jobs ctl)" unfolding assms(2) by simp
  have "nat (ctl_size ctl) = length cs + 1" using length_ctl_jobs [of ctl] unfolding assms(2) by simp
  then show "length cs < MAX_CHILD" "ctl_size ctl = int (length cs) + 1" using ctl_wf_size [OF assms(1)] by auto
  show "ctl_job ctl (int (length cs)) = Inr c" using ctl_job_nth [OF assms(1) j] unfolding assms(2) by simp
  show "ctl_wf (ctl_put (length cs) c1 ctl)" by (rule ctl_put_jobs(1) [OF assms(1) j])
  show "ctl_jobs (ctl_put (length cs) c1 ctl) = cs @ [c1]"
    using ctl_put_jobs(2) [OF assms(1) j, of c1] unfolding assms(2) by simp
qed

text \<open>The command: the job is started and its child polled once.\<close>

lemma command_turn:
  assumes "command_line ws" and "builtin_of (hd ws) (int (length ws)) = B_Command" and "length (hd ws) \<le> NAME_MAX"
    and "ctl_wf ctl" and "all_finished (ctl_jobs ctl)" and "length (ctl_jobs ctl) < MAX_CHILD"
    and "w_stdin w = unwords ws @ rest" and "w_forks w = Fork_Parent p (child_of n k d) # fs"
    and "0 < p" and "w_kids w = []" and "text_output d"
  shows "\<exists>ctl1 w1 c. main_loop echo ctl w = main_loop echo ctl1 w1 \<and> ctl_wf ctl1 \<and> ctl_jobs ctl1 = ctl_jobs ctl @ [c]
    \<and> w_stdin w1 = rest \<and> cmd_label c = job_label ws p
    \<and> (if n = 0 then ended_with d c \<and> cmd_status c = uint k
          \<and> w_stdout w1 = w_stdout w @ prompted echo ws @ notice (job_label ws p) k
       else runs (n - 1) k d c w1 \<and> w_stdout w1 = w_stdout w @ prompted echo ws)"
proof -
  let ?w0 = "print (prompted echo ws) (w\<lparr>w_stdin := rest\<rparr>)" and ?fd = "w_next_fd w"
  let ?J = "length (ctl_jobs ctl)" and ?ctl = "cmdctl_add (fresh_job ws) ctl"
  define c where "c = (fresh_job ws)\<lparr>cmd_out_pipe := Some (?fd, ?fd + 1), cmd_str_status := ''RUN'', cmd_pid := p\<rparr>"
  define w1 where "w1 = ?w0\<lparr>w_next_fd := ?fd + 2, w_forks := fs, w_kids := [(p, child_of n k d)],
    w_pipes := (w_pipes w)(?fd \<mapsto> d)\<rparr>"
  have start: "cmd_start (fresh_job ws) ?w0 = Started (c, w1)"
    using assms(8,10) by (simp add: cmd_start_def sys_pipe_def next_fork_def snprintf_def c_def w1_def print_def child_of_def)
  have new: "cmd_new (map Some ws @ [None]) = Inr (fresh_job ws)"
    using assms(1,3) by (subst cmd_new_words) (auto simp: command_line_def)
  have ctl: "ctl_wf ?ctl" "ctl_jobs ?ctl = ctl_jobs ctl @ [fresh_job ws]"
    using cmdctl_add_room [OF assms(4,6)] by auto
  note table = last_of_table [OF ctl]
  have size: "ctl_size ?ctl - 1 = int ?J" and job: "ctl_job ?ctl (int ?J) = Inr (fresh_job ws)"
    using table(3,4) by simp_all
  note put = table(5,6) [of c]
  have turn: "run_builtin (builtin_of (hd ws) (int (length ws))) (map Some ws @ [None]) ctl ?w0
      = Inr (Again (ctl_put ?J c ?ctl) w1)"
    using new job start by (simp add: assms(2) run_command_def Let_def size start_last_def)
  have label: "cmd_label c = job_label ws p" by (simp add: c_def fresh_job_def cmd_label_def job_label_def)
  have run: "runs n k d c w1" using assms(9) by (simp add: runs_def c_def w1_def fresh_job_def)
  have out: "w_stdin w1 = rest" "w_stdout w1 = w_stdout w @ prompted echo ws"
    by (simp_all add: w1_def print_def)
  show ?thesis
  proof (cases n)
    case 0
    then obtain c1 w2 where c1: "cmd_update_state c NOBLOCK w1 = Inr (c1, w2)" "reports k d c w1 c1 w2"
      using update_reports [OF run assms(11)] by blast
    with put(2) have "update_list NOBLOCK (ctl_jobs (ctl_put ?J c ?ctl)) w1 = Inr (ctl_jobs ctl @ [c1], w2)"
      by (simp add: update_last [OF assms(5)])
    from line_goes_on [OF assms(1,7) turn put(1) this] c1(2) 0 label out show ?thesis
      by (fastforce simp: reports_def notice_def)
  next
    case (Suc m)
    with run obtain w2 where w2: "cmd_update_state c NOBLOCK w1 = Inr (c, w2)" "runs m k d c w2"
        "w_stdin w2 = w_stdin w1" "w_stdout w2 = w_stdout w1" using update_not_yet by blast
    with put(2) have "update_list NOBLOCK (ctl_jobs (ctl_put ?J c ?ctl)) w1 = Inr (ctl_jobs ctl @ [c], w2)"
      by (simp add: update_last [OF assms(5)])
    from line_goes_on [OF assms(1,7) turn put(1) this] w2 Suc label out show ?thesis by auto
  qed
qed

text \<open>Lines with the number of a job.\<close>

lemma number_word: "is_word (show_int (int j))"
proof -
  have "show_nat j \<noteq> []" by (rule show_nat_not_empty)
  moreover have "c \<notin> set delims \<and> c \<noteq> NUL" if "c \<in> set (show_nat j)" for c
    using show_nat_digits [OF that] by (auto simp: digit_value.simps split: if_splits)
  ultimately show ?thesis by (auto simp: is_word_def show_int_def)
qed

lemma number_line:
  assumes "j < 1024" and "t = ''wait-for'' \<or> t = ''output-for''"
  shows "command_line [t, show_int (int j)]"
    and "int_token [Some t, Some (show_int (int j)), None] 1 = Inr (int j)"
proof -
  have "length (show_nat j) \<le> 4" using assms(1) by (intro length_show_nat) auto
  then show "command_line [t, show_int (int j)]"
    using number_word [of j] assms(2) by (auto simp: command_line_def is_word_def show_int_def)
  show "int_token [Some t, Some (show_int (int j)), None] 1 = Inr (int j)"
    using assms(1) by (simp add: int_token_def token_def atoi_show_int in_int_def)
qed

text \<open>The wait: the job is finished when it was not, and announced then.\<close>

lemma wait_turn:
  fixes c :: cmd_t
  assumes "ctl_wf ctl" and "ctl_jobs ctl = cs @ [c]" and "all_finished cs" and "text_output d"
    and "w_stdin w = unwords [''wait-for'', show_int (int (length cs))] @ rest"
    and "ended_with d c \<or> (\<exists>m. runs m k d c w)"
  defines "line \<equiv> [''wait-for'', show_int (int (length cs))]"
  shows "\<exists>ctl1 w1 c1. main_loop echo ctl w = main_loop echo ctl1 w1 \<and> ctl_wf ctl1 \<and> ctl_jobs ctl1 = cs @ [c1]
    \<and> w_stdin w1 = rest \<and> cmd_label c1 = cmd_label c \<and> ended_with d c1
    \<and> (if ended_with d c then c1 = c \<and> w_stdout w1 = w_stdout w @ prompted echo line
       else cmd_status c1 = uint k \<and> w_stdout w1 = w_stdout w @ prompted echo line @ notice (cmd_label c) k)"
proof -
  let ?j = "length cs" and ?w0 = "print (prompted echo line) (w\<lparr>w_stdin := rest\<rparr>)"
  note j = last_of_table(1,2) [OF assms(1,2)]
  have input: "w_stdin w = unwords line @ rest" using assms(5) by (simp add: line_def)
  have cmd: "command_line line" unfolding line_def using number_line(1) [OF j(2)] by simp
  have out: "w_stdin ?w0 = rest" "w_stdout ?w0 = w_stdout w @ prompted echo line" by (simp_all add: print_def)
  obtain c1 w1 where c1: "cmd_update_state c DOBLOCK ?w0 = Inr (c1, w1)" "ended_with d c1" "cmd_label c1 = cmd_label c"
      "w_stdin w1 = rest" "if ended_with d c then c1 = c \<and> w_stdout w1 = w_stdout w @ prompted echo line
       else cmd_status c1 = uint k \<and> w_stdout w1 = w_stdout w @ prompted echo line @ notice (cmd_label c) k"
  proof (cases "ended_with d c")
    case True
    then have "cmd_update_state c DOBLOCK ?w0 = Inr (c, ?w0)" by (simp add: ended_with_def cmd_update_finished)
    with True out that show thesis by simp
  next
    case False
    then obtain m where "runs m k d c ?w0" using assms(6) by (auto simp: runs_def print_def)
    from update_reports [OF this assms(4)] obtain c2 w2 where
      "cmd_update_state c DOBLOCK ?w0 = Inr (c2, w2)" "reports k d c ?w0 c2 w2" by blast
    with False out that show thesis by (simp add: reports_def notice_def)
  qed
  have last_job: "ctl_jobs ctl ! ?j = c" using assms(2) by simp
  have "run_builtin (builtin_of (hd line) (int (length line))) (map Some line @ [None]) ctl ?w0
      = Inr (Again (ctl_put ?j c1 ctl) w1)"
    using wait_for_job [OF assms(1) j(1), of ?w0 c1 w1] c1(1) wait_for_line(1) [OF j(2)] last_job
    by (simp add: line_def)
  moreover have put: "ctl_wf (ctl_put ?j c1 ctl)" "ctl_jobs (ctl_put ?j c1 ctl) = cs @ [c1]"
    by (rule last_of_table [OF assms(1,2)])+
  moreover have "update_list NOBLOCK (cs @ [c1]) w1 = Inr (cs @ [c1], w1)"
    using c1(2) assms(3) by (intro update_all_finished) (auto simp: all_finished_def ended_with_def)
  ultimately obtain ctl2 where "main_loop echo ctl w = main_loop echo ctl2 w1" "ctl_wf ctl2" "ctl_jobs ctl2 = cs @ [c1]"
    using line_goes_on [OF cmd input, where echo = echo and ctl = ctl] by metis
  then show ?thesis using c1(2-5) by blast
qed

text \<open>The output between its rules.\<close>

definition output_text :: "string \<Rightarrow> string \<Rightarrow> string" where
  "output_text label d = ''@<<< Output for '' @ label @ '' ('' @ show_int (int (length d)) @ '' bytes):'' @ [LF]
     @ rule_line @ d @ rule_line"

lemma output_turn:
  assumes "ctl_wf ctl" and "ctl_jobs ctl = cs @ [c]" and "all_finished cs" and "ended_with d c"
    and "w_stdin w = unwords [''output-for'', show_int (int (length cs))] @ rest"
  defines "line \<equiv> [''output-for'', show_int (int (length cs))]"
  shows "\<exists>ctl1 w1. main_loop echo ctl w = main_loop echo ctl1 w1 \<and> ctl_wf ctl1 \<and> ctl_jobs ctl1 = cs @ [c]
    \<and> w_stdin w1 = rest \<and> w_stdout w1 = w_stdout w @ prompted echo line @ output_text (cmd_label c) d"
proof -
  let ?j = "length cs" and ?w0 = "print (prompted echo line) (w\<lparr>w_stdin := rest\<rparr>)"
  note j = last_of_table(1,2) [OF assms(1,2)]
  have input: "w_stdin w = unwords line @ rest" using assms(5) by (simp add: line_def)
  have cmd: "command_line line" unfolding line_def using number_line(1) [OF j(2)] by simp
  have last_job: "ctl_job ctl (int ?j) = Inr c" by (rule last_of_table(4) [OF assms(1,2)])
  have shown: "show_output c ?w0 = Inr (print (output_text (cmd_label c) d) ?w0)"
    using assms(4) by (simp add: show_output_def ended_with_def output_text_def print_print)
  have "run_builtin (builtin_of (hd line) (int (length line))) (map Some line @ [None]) ctl ?w0
      = Inr (Again ctl (print (output_text (cmd_label c) d) ?w0))"
    using shown last_job number_line(2) [OF j(2), of "''output-for''"]
    by (simp add: line_def builtin_of_def)
  moreover have "update_list NOBLOCK (ctl_jobs ctl) (print (output_text (cmd_label c) d) ?w0)
      = Inr (cs @ [c], print (output_text (cmd_label c) d) ?w0)"
    unfolding assms(2) using assms(3,4) by (intro update_all_finished) (auto simp: all_finished_def ended_with_def)
  ultimately obtain ctl2 where "main_loop echo ctl w = main_loop echo ctl2 (print (output_text (cmd_label c) d) ?w0)"
      "ctl_wf ctl2" "ctl_jobs ctl2 = cs @ [c]"
    using line_goes_on [OF cmd input, where echo = echo and ctl = ctl] assms(1) by metis
  moreover have "w_stdin (print (output_text (cmd_label c) d) ?w0) = rest"
      "w_stdout (print (output_text (cmd_label c) d) ?w0) = w_stdout w @ prompted echo line @ output_text (cmd_label c) d"
    by (simp_all add: print_def)
  ultimately show ?thesis by blast
qed

section \<open>Properties\<close>

text \<open>
  C5. A dialogue: in a shell whose jobs are all finished, the lines that start a command, wait for
  it and ask for its output make the shell print its prompts, the notice that the command
  exited with its code, once, at the poll behind the first line when the child has ended by
  then and in the wait otherwise, and the output of the child, byte for byte, between its
  rules. The job is the last of the table and finished, and the shell reads on.
\<close>

theorem session_runs_command:
  assumes "command_line ws" and "builtin_of (hd ws) (int (length ws)) = B_Command" and "length (hd ws) \<le> NAME_MAX"
    and "ctl_wf ctl" and "all_finished (ctl_jobs ctl)" and "length (ctl_jobs ctl) < MAX_CHILD"
    and "w_forks w = Fork_Parent p (child_of n k d) # fs" and "0 < p" and "w_kids w = []" and "text_output d"
  defines "waits \<equiv> [''wait-for'', show_int (int (length (ctl_jobs ctl)))]"
    and "shows_it \<equiv> [''output-for'', show_int (int (length (ctl_jobs ctl)))]"
    and "label \<equiv> job_label ws p"
  assumes "w_stdin w = unwords ws @ unwords waits @ unwords shows_it @ rest"
  shows "\<exists>ctl1 w1 c. main_loop echo ctl w = main_loop echo ctl1 w1 \<and> w_stdin w1 = rest
    \<and> ctl_wf ctl1 \<and> ctl_jobs ctl1 = ctl_jobs ctl @ [c] \<and> cmd_finished c = 1 \<and> cmd_status c = uint k
    \<and> w_stdout w1 = w_stdout w @ prompted echo ws
        @ (if n = 0 then notice label k @ prompted echo waits else prompted echo waits @ notice label k)
        @ prompted echo shows_it @ output_text label d"
proof -
  let ?cs = "ctl_jobs ctl"
  obtain ctl1 w1 c1 where t1: "main_loop echo ctl w = main_loop echo ctl1 w1" "ctl_wf ctl1" "ctl_jobs ctl1 = ?cs @ [c1]"
      "w_stdin w1 = unwords waits @ unwords shows_it @ rest" "cmd_label c1 = label"
      "if n = 0 then ended_with d c1 \<and> cmd_status c1 = uint k \<and> w_stdout w1 = w_stdout w @ prompted echo ws @ notice label k
       else runs (n - 1) k d c1 w1 \<and> w_stdout w1 = w_stdout w @ prompted echo ws"
    using command_turn [OF assms(1-6,14,7-10), of echo] unfolding label_def by blast
  have state: "ended_with d c1 \<or> (\<exists>m. runs m k d c1 w1)" using t1(6) by (auto split: if_splits)
  have running: "\<not> ended_with d c1" if "n \<noteq> 0" using t1(6) that by (simp add: runs_def ended_with_def)
  obtain ctl2 w2 c2 where t2: "main_loop echo ctl1 w1 = main_loop echo ctl2 w2" "ctl_wf ctl2" "ctl_jobs ctl2 = ?cs @ [c2]"
      "w_stdin w2 = unwords shows_it @ rest" "cmd_label c2 = label" "ended_with d c2"
      "if ended_with d c1 then c2 = c1 \<and> w_stdout w2 = w_stdout w1 @ prompted echo waits
       else cmd_status c2 = uint k \<and> w_stdout w2 = w_stdout w1 @ prompted echo waits @ notice label k"
    using wait_turn [OF t1(2,3) assms(5,10) t1(4) [unfolded waits_def] state, of echo]
    unfolding t1(5) waits_def by blast
  obtain ctl3 w3 where t3: "main_loop echo ctl2 w2 = main_loop echo ctl3 w3" "ctl_wf ctl3" "ctl_jobs ctl3 = ?cs @ [c2]"
      "w_stdin w3 = rest" "w_stdout w3 = w_stdout w2 @ prompted echo shows_it @ output_text label d"
    using output_turn [OF t2(2,3) assms(5) t2(6) t2(4) [unfolded shows_it_def], of echo]
    unfolding t2(5) shows_it_def by blast
  have "cmd_status c2 = uint k \<and> w_stdout w2 = w_stdout w @ prompted echo ws
      @ (if n = 0 then notice label k @ prompted echo waits else prompted echo waits @ notice label k)"
    using t1(6) t2(7) running by (cases "n = 0") auto
  with t1(1) t2(1,6) t3 show ?thesis by (intro exI [of _ ctl3] exI [of _ w3] exI [of _ c2]) (auto simp: ended_with_def)
qed

theorem session_runs_command_witness:
  "\<exists>ctl1 w1 c. main_loop False empty_ctl ((hello_world 3)\<lparr>w_stdin := ''echo hi\<newline>wait-for 0\<newline>output-for 0\<newline>exit\<newline>''\<rparr>)
      = main_loop False ctl1 w1 \<and> w_stdin w1 = ''exit\<newline>'' \<and> ctl_jobs ctl1 = [c] \<and> cmd_status c = 3
    \<and> w_stdout w1 = ''@> '' @ ''@> '' @ notice ''echo[#7]'' 3 @ ''@> '' @ output_text ''echo[#7]'' ''hi''"
proof -
  let ?w = "(hello_world 3)\<lparr>w_stdin := ''echo hi\<newline>wait-for 0\<newline>output-for 0\<newline>exit\<newline>''\<rparr>"
  have cmd: "command_line [''echo'', ''hi'']" by (simp add: command_line_def is_word_def)
  have child: "w_forks ?w = Fork_Parent 7 (child_of 2 3 ''hi'') # []"
    by (simp add: hello_world_def child_of_def numeral_2_eq_2)
  have zero: "show_int (int (length (ctl_jobs empty_ctl))) = ''0''" by (simp add: show_int_def show_nat_small)
  have label: "job_label [''echo'', ''hi''] 7 = ''echo[#7]''" by (simp add: job_label_def show_int_def show_nat_small)
  have "builtin_of (hd [''echo'', ''hi'']) (int (length [''echo'', ''hi''])) = B_Command"
    "length (hd [''echo'', ''hi'']) \<le> NAME_MAX" "all_finished (ctl_jobs empty_ctl)"
    "length (ctl_jobs empty_ctl) < MAX_CHILD" "(0 :: int) < 7" "w_kids ?w = []" "text_output ''hi''"
    "w_stdin ?w = unwords [''echo'', ''hi''] @ unwords [''wait-for'', show_int (int (length (ctl_jobs empty_ctl)))]
      @ unwords [''output-for'', show_int (int (length (ctl_jobs empty_ctl)))] @ ''exit\<newline>''"
    unfolding zero by (simp_all add: builtin_of_def all_finished_def hello_world_def text_output_def)
  from session_runs_command [OF cmd this(1,2) ctl_wf_empty this(3,4) child this(5-7) this(8), of False]
  show ?thesis by (auto simp: prompted_def label hello_world_def)
qed

end
