(* ===== verification/Shell_Programs.thy ===== *)
theory Shell_Programs
  imports Shell_Cmd
begin

text \<open>
  \<open>Unix_Command_Line_Shell/sleep_print.c\<close>, the program the shell is tried with, and the two
  together: the shell's job of a \<open>sleep_print\<close> command.
\<close>

section \<open>The code\<close>

text \<open>The words behind the first two, each with a blank, as the loop prints them.\<close>

fun print_words :: "string list \<Rightarrow> string" where
  "print_words [] = []"
| "print_words (a # as) = a @ '' '' @ print_words as"

text \<open>
  \<open>main\<close> of \<open>sleep_print.c\<close>: the seconds it sleeps, its output, and the value it returns. Without
  a second word it converts the null pointer.
\<close>

definition sleep_print :: "string list \<Rightarrow> (int \<times> string \<times> int) res" where
  "sleep_print argv =
     (if length argv < 2 then undef Null_Pointer
      else rbind (atoi (argv ! 1)) (\<lambda>secs. Inr (secs, print_words (drop 2 argv) @ [LF], secs)))"

text \<open>The child of the shell that a program with this output and value is: it is found running
some times and then has exited, with the low byte of its value.\<close>

definition program_child :: "nat \<Rightarrow> string \<Rightarrow> int \<Rightarrow> child" where
  "program_child n output code =
     \<lparr>ch_events = replicate n Not_Yet @ [Report (exit_status (word_of_int code))], ch_out = output\<rparr>"

section \<open>Properties\<close>

lemma print_words_concat: "print_words as = concat (map (\<lambda>a. a @ '' '') as)"
  by (induction as) auto

lemma length_print_words: "length (print_words as) = sum_list (map (\<lambda>a. length a + 1) as)"
  by (induction as) auto

lemma print_words_nul: "NUL \<notin> set (print_words as) \<longleftrightarrow> (\<forall>a \<in> set as. NUL \<notin> set a)"
  by (induction as) auto

text \<open>
  The shell's job of a \<open>sleep_print\<close> command, however long the program takes: once it has
  been waited for, the job is finished with the seconds modulo 256 as its code, the shell has
  reported that, and printing its output prints the words of the command, each with a blank
  behind it, and a newline.
\<close>

theorem sleep_print_job:
  assumes "atoi t = Inr secs" and "\<forall>a \<in> set ws. NUL \<notin> set a" and "sum_list (map (\<lambda>a. length a + 1) ws) < 2 ^ 28"
    and "w_forks w = Fork_Parent p child # fs" and "0 < p" and "p \<notin> fst ` set (w_kids w)" and "job_unfinished c"
    and "sleep_print (prog # t # ws) = Inr (secs, output, code)" and "child = program_child n output code"
  shows "\<exists>c1 w1 c2 w2. cmd_start c w = Started (c1, w1) \<and> cmd_update_state c1 DOBLOCK w1 = Inr (c2, w2)
    \<and> cmd_finished c2 = 1 \<and> cmd_status c2 = secs mod 256
    \<and> w_stdout w2 = w_stdout w @ cmd_alert c2 \<and> w_kids w2 = w_kids w
    \<and> cmd_print_output c2 w2 = Inr (print (concat (map (\<lambda>a. a @ '' '') ws) @ [LF]) w2)"
proof -
  let ?out = "print_words ws @ [LF]"
  have out: "output = ?out" "code = secs" using assms(1,8) by (simp_all add: sleep_print_def)
  have nul: "NUL \<notin> set ?out" using assms(2) print_words_nul [of ws] by simp
  have len: "length ?out < 2 ^ 29" using assms(3) by (simp add: length_print_words)
  have fork: "w_forks w = Fork_Parent p \<lparr>ch_events = replicate n Not_Yet @ [Report (exit_status (word_of_int secs))],
      ch_out = ?out\<rparr> # fs"
    using assms(4,9) by (simp add: program_child_def out)
  have "uint (word_of_int secs :: 8 word) = secs mod 256" by (simp add: uint_word_of_int)
  then show ?thesis
    using job_runs [OF fork assms(5-7) len] nul by (simp add: print_words_concat) blast
qed

theorem sleep_print_job_witness:
  "\<exists>c1 w1 c2 w2. cmd_start (fresh_job [''./sleep_print'', ''300'', ''a'', ''b''])
       ((hello_world 0)\<lparr>w_forks := [Fork_Parent 7 (program_child 2 ''a b \<newline>'' 300)]\<rparr>) = Started (c1, w1)
    \<and> cmd_update_state c1 DOBLOCK w1 = Inr (c2, w2) \<and> cmd_finished c2 = 1 \<and> cmd_status c2 = 44
    \<and> cmd_print_output c2 w2 = Inr (print ''a b \<newline>'' w2)"
proof -
  let ?w = "(hello_world 0)\<lparr>w_forks := [Fork_Parent 7 (program_child 2 ''a b \<newline>'' 300)]\<rparr>"
  let ?c = "fresh_job [''./sleep_print'', ''300'', ''a'', ''b'']"
  have num: "atoi ''300'' = Inr 300"
    by (simp add: atoi_def atoi_value_def isspace_def digit_value.simps in_int_def)
  then have prog: "sleep_print (''./sleep_print'' # ''300'' # [''a'', ''b'']) = Inr (300, ''a b \<newline>'', 300)"
    by (simp add: sleep_print_def)
  have forks: "w_forks ?w = Fork_Parent 7 (program_child 2 ''a b \<newline>'' 300) # []" by simp
  have kids: "(7 :: int) \<notin> fst ` set (w_kids ?w)" by (simp add: hello_world_def)
  have job: "job_unfinished ?c" by (simp add: job_unfinished_def fresh_job_def)
  have words: "\<forall>a \<in> set [''a'', ''b'']. NUL \<notin> set a" "sum_list (map (\<lambda>a. length a + 1) [''a'', ''b'']) < 2 ^ 28" by simp_all
  obtain c1 w1 c2 w2 where r: "cmd_start ?c ?w = Started (c1, w1)" "cmd_update_state c1 DOBLOCK w1 = Inr (c2, w2)"
    "cmd_finished c2 = 1" "cmd_status c2 = 300 mod 256"
    "cmd_print_output c2 w2 = Inr (print (concat (map (\<lambda>a. a @ '' '') [''a'', ''b'']) @ [LF]) w2)"
    using sleep_print_job [OF num words forks _ kids job prog refl] by auto
  then show ?thesis by (intro exI conjI) (assumption, assumption, assumption, simp_all)
qed

end
