(* ===== verification/Chat_Simpio.thy ===== *)
theory Chat_Simpio
  imports CLib
begin

text \<open>
  \<open>Unix_Chat_Service/simpio.c\<close>: the line editor of the chat client, and \<open>iprintf\<close>, which prints
  a message above the line that is being typed. The editor refines a function on the typed
  text; \<open>iprintf\<close> is modelled on its buffer of 2048 bytes.
\<close>

abbreviation MAXLINE :: nat where "MAXLINE \<equiv> 1024"
abbreviation MAXNAME :: nat where "MAXNAME \<equiv> 256"

abbreviation EOT :: char where "EOT \<equiv> CHR 0x04"
abbreviation DEL :: char where "DEL \<equiv> CHR 0x7F"
abbreviation BS :: char where "BS \<equiv> CHR 0x08"
abbreviation ESC :: char where "ESC \<equiv> CHR 0x1B"

section \<open>The code\<close>

text \<open>
  \<open>simpio_t\<close>. It is a global of the program, so its bytes are zero at the start. The files are
  always standard input and output, which \<open>term_io\<close> holds: the bytes to come and the bytes
  written.
\<close>

record simpio_t =
  sp_buf :: "char list"
  sp_prompt :: "char list"
  sp_pos :: int
  sp_line_ready :: int
  sp_end_of_input :: int

record term_io =
  io_in :: string
  io_out :: string

definition simpio_zero :: simpio_t where
  "simpio_zero =
     \<lparr>sp_buf = replicate MAXLINE NUL, sp_prompt = replicate MAXNAME NUL, sp_pos = 0,
      sp_line_ready = 0, sp_end_of_input = 0\<rparr>"

definition out :: "string \<Rightarrow> term_io \<Rightarrow> term_io" where
  "out s io = io\<lparr>io_out := io_out io @ s\<rparr>"

text \<open>\<open>fgetc\<close>; \<open>None\<close> is \<open>EOF\<close>.\<close>

definition fgetc :: "term_io \<Rightarrow> char option \<times> term_io" where
  "fgetc io = (case io_in io of [] \<Rightarrow> (None, io) | c # cs \<Rightarrow> (Some c, io\<lparr>io_in := cs\<rparr>))"

definition simpio_reset :: "simpio_t \<Rightarrow> simpio_t res" where
  "simpio_reset s =
     map_res (\<lambda>buf. s\<lparr>sp_pos := 0, sp_buf := buf, sp_line_ready := 0, sp_end_of_input := 0\<rparr>)
       (set_byte 0 NUL (sp_buf s))"

definition simpio_set_prompt :: "simpio_t \<Rightarrow> string \<Rightarrow> simpio_t" where
  "simpio_set_prompt s prompt = s\<lparr>sp_prompt := strncpy_bytes MAXNAME prompt\<rparr>"

text \<open>The branches of \<open>simpio_get_char\<close> on the character read.\<close>

definition end_line :: "simpio_t \<Rightarrow> simpio_t res" where
  "end_line s =
     map_res (\<lambda>buf. s\<lparr>sp_buf := buf, sp_line_ready := 1\<rparr>) (set_byte (sp_pos s) NUL (sp_buf s))"

definition rub_out :: "simpio_t \<Rightarrow> simpio_t res" where
  "rub_out s =
     map_res (\<lambda>buf. s\<lparr>sp_pos := sp_pos s - 1, sp_buf := buf\<rparr>)
       (set_byte (sp_pos s - 1) NUL (sp_buf s))"

definition type_char :: "char \<Rightarrow> simpio_t \<Rightarrow> simpio_t res" where
  "type_char c s =
     rbind (set_byte (sp_pos s) c (sp_buf s)) (\<lambda>buf.
     map_res (\<lambda>buf1. s\<lparr>sp_pos := sp_pos s + 1, sp_buf := buf1\<rparr>)
       (set_byte (sp_pos s + 1) NUL buf))"

definition edit :: "char option \<Rightarrow> simpio_t \<Rightarrow> term_io \<Rightarrow> (simpio_t \<times> term_io) res" where
  "edit c s io =
     (if c = Some LF \<and> sp_pos s > 0 then map_res (\<lambda>s1. (s1, io)) (end_line s)
      else if (c = Some BS \<or> c = Some DEL \<or> c = Some LF) \<and> sp_pos s = 0 then Inr (s, io)
      else if c = Some EOT \<and> sp_pos s > 0 then map_res (\<lambda>s1. (s1, io)) (end_line s)
      else if (c = Some BS \<or> c = Some DEL) \<and> sp_pos s > 0 then
        map_res (\<lambda>s1. (s1, out [BS, SP, BS] io)) (rub_out s)
      else case c of
        None \<Rightarrow> Inr (s, io)
      | Some x \<Rightarrow>
          if x \<noteq> EOT \<and> sp_pos s < int MAXLINE - 1 then
            map_res (\<lambda>s1. (s1, out [x] io)) (type_char x s)
          else Inr (s, io))"

definition simpio_get_char :: "simpio_t \<Rightarrow> term_io \<Rightarrow> (simpio_t \<times> term_io) res" where
  "simpio_get_char s io =
     (let (c, io1) = fgetc io in
      map_res (\<lambda>(s1, io2).
          (if c = None \<or> c = Some EOT then s1\<lparr>sp_end_of_input := 1\<rparr> else s1, io2))
        (edit c s io1))"

text \<open>
  \<open>snprintf(output + off, n, "%s", s)\<close> and the offset after \<open>off +=\<close>: the result counts the
  characters of the whole string. A negative \<open>n\<close> becomes a huge unsigned bound.
\<close>

definition snprintf_at :: "string \<Rightarrow> int \<Rightarrow> mem \<times> int \<Rightarrow> (mem \<times> int) res" where
  "snprintf_at s n = (\<lambda>(output, off).
     let bytes = (if n = 0 then [] else (if n < 0 then s else take (nat n - 1) s) @ [NUL])
     in if 0 \<le> off \<and> off + int (length bytes) \<le> int (length output)
        then Inr (take (nat off) output @ map Some bytes @ drop (nat off + length bytes) output,
                  off + int (length s))
        else undef Buffer_Overflow)"

definition erase_line :: string where
  "erase_line = ESC # ''[2K'' @ [CR]"

text \<open>\<open>iprintf\<close>, given the text its format and arguments make.\<close>

definition iprintf :: "simpio_t \<Rightarrow> string \<Rightarrow> term_io \<Rightarrow> term_io res" where
  "iprintf s text io =
     (let limit = int (MAXLINE * 2) in
      rbind (snprintf_at erase_line limit (malloc (MAXLINE * 2), 0)) (\<lambda>(o1, off1).
      rbind (snprintf_at text (int MAXLINE) (o1, off1)) (\<lambda>(o2, off2).
      rbind (c_string (sp_prompt s)) (\<lambda>prompt.
      rbind (snprintf_at prompt (limit - off2) (o2, off2)) (\<lambda>(o3, off3).
      rbind (c_string (sp_buf s)) (\<lambda>buf.
      rbind (snprintf_at buf (limit - off3) (o3, off3)) (\<lambda>(o4, off4).
      map_res (\<lambda>bytes. out bytes io) (mem_read (nat off4) o4))))))))"

section \<open>The editor refines a function on the typed text\<close>

text \<open>The text in the buffer, and the flags as truth values.\<close>

record editor =
  ed_text :: string
  ed_entered :: bool
  ed_ended :: bool

definition editor_of :: "simpio_t \<Rightarrow> editor" where
  "editor_of s =
     \<lparr>ed_text = take (nat (sp_pos s)) (sp_buf s), ed_entered = (sp_line_ready s = 1),
      ed_ended = (sp_end_of_input s = 1)\<rparr>"

definition simpio_wf :: "simpio_t \<Rightarrow> bool" where
  "simpio_wf s \<longleftrightarrow> length (sp_buf s) = MAXLINE \<and> 0 \<le> sp_pos s \<and> sp_pos s \<le> int MAXLINE - 1
     \<and> sp_buf s ! nat (sp_pos s) = NUL \<and> sp_line_ready s \<in> {0, 1} \<and> sp_end_of_input s \<in> {0, 1}
     \<and> length (sp_prompt s) = MAXNAME \<and> NUL \<in> set (sp_prompt s)"

text \<open>One key: the effect on the text, whether the line is complete, and what is echoed.\<close>

definition key_text :: "char option \<Rightarrow> string \<Rightarrow> string" where
  "key_text c t =
     (case c of
        None \<Rightarrow> t
      | Some x \<Rightarrow>
          if x = BS \<or> x = DEL then butlast t
          else if x = LF \<or> x = EOT \<or> length t \<ge> MAXLINE - 1 then t
          else t @ [x])"

definition key_enters :: "char option \<Rightarrow> string \<Rightarrow> bool" where
  "key_enters c t \<longleftrightarrow> (c = Some LF \<or> c = Some EOT) \<and> t \<noteq> []"

definition key_ends :: "char option \<Rightarrow> bool" where
  "key_ends c \<longleftrightarrow> c = None \<or> c = Some EOT"

definition key_echo :: "char option \<Rightarrow> string \<Rightarrow> string" where
  "key_echo c t =
     (case c of
        None \<Rightarrow> []
      | Some x \<Rightarrow>
          if x = BS \<or> x = DEL then (if t = [] then [] else [BS, SP, BS])
          else if x = LF \<or> x = EOT \<or> length t \<ge> MAXLINE - 1 then [] else [x])"

definition press :: "char option \<Rightarrow> editor \<Rightarrow> editor" where
  "press c e =
     \<lparr>ed_text = key_text c (ed_text e),
      ed_entered = (ed_entered e \<or> key_enters c (ed_text e)),
      ed_ended = (ed_ended e \<or> key_ends c)\<rparr>"

lemma set_byte_Inr: "0 \<le> i \<Longrightarrow> i < int (length bs) \<Longrightarrow> set_byte i c bs = Inr (bs[nat i := c])"
  by (simp add: set_byte_def)

text \<open>The position as a natural number.\<close>

lemma simpio_wf_pos:
  assumes "simpio_wf s"
  obtains n where "sp_pos s = int n" and "n < MAXLINE" and "length (sp_buf s) = MAXLINE"
    and "sp_buf s ! n = NUL" and "ed_text (editor_of s) = take n (sp_buf s)"
  using assms that [of "nat (sp_pos s)"] by (simp add: simpio_wf_def editor_of_def nat_less_iff)

lemma editor_text_length: "simpio_wf s \<Longrightarrow> sp_pos s = int (length (ed_text (editor_of s)))"
  by (erule simpio_wf_pos) simp

text \<open>The three ways the buffer changes.\<close>

lemma end_line_wf:
  assumes "simpio_wf s"
  shows "end_line s = Inr (s\<lparr>sp_line_ready := 1\<rparr>)"
proof -
  obtain n where n: "sp_pos s = int n" "n < MAXLINE" "length (sp_buf s) = MAXLINE" "sp_buf s ! n = NUL"
    using assms by (rule simpio_wf_pos)
  then have "(sp_buf s)[n := NUL] = sp_buf s" by (metis list_update_id)
  with n show ?thesis by (simp add: end_line_def set_byte_Inr)
qed

lemma rub_out_wf:
  assumes "simpio_wf s" and "0 < sp_pos s"
  shows "\<exists>s1. rub_out s = Inr s1 \<and> simpio_wf s1
    \<and> editor_of s1 = (editor_of s)\<lparr>ed_text := butlast (ed_text (editor_of s))\<rparr>"
proof -
  obtain n where n: "sp_pos s = int n" "n < MAXLINE" "length (sp_buf s) = MAXLINE"
      "ed_text (editor_of s) = take n (sp_buf s)"
    using assms(1) by (rule simpio_wf_pos)
  obtain m where m: "n = Suc m" using assms(2) n(1) by (cases n) auto
  define s1 where "s1 = s\<lparr>sp_pos := int m, sp_buf := (sp_buf s)[m := NUL]\<rparr>"
  have "rub_out s = Inr s1" using n m by (simp add: rub_out_def s1_def set_byte_Inr)
  moreover have "simpio_wf s1" using assms(1) n m by (simp add: simpio_wf_def s1_def)
  moreover have "take m (sp_buf s) = butlast (take n (sp_buf s))"
    using n m by (simp add: butlast_take)
  then have "editor_of s1 = (editor_of s)\<lparr>ed_text := butlast (ed_text (editor_of s))\<rparr>"
    using n by (simp add: editor_of_def s1_def)
  ultimately show ?thesis by blast
qed

lemma type_char_wf:
  assumes "simpio_wf s" and "sp_pos s < int MAXLINE - 1"
  shows "\<exists>s1. type_char c s = Inr s1 \<and> simpio_wf s1
    \<and> editor_of s1 = (editor_of s)\<lparr>ed_text := ed_text (editor_of s) @ [c]\<rparr>"
proof -
  obtain n where n: "sp_pos s = int n" "n < MAXLINE" "length (sp_buf s) = MAXLINE"
      "ed_text (editor_of s) = take n (sp_buf s)"
    using assms(1) by (rule simpio_wf_pos)
  with assms(2) have n1: "Suc n < MAXLINE" "nat (1 + int n) = Suc n" by auto
  define s1 where "s1 = s\<lparr>sp_pos := int (Suc n), sp_buf := (sp_buf s)[n := c, Suc n := NUL]\<rparr>"
  have "type_char c s = Inr s1"
    using n n1 by (simp add: type_char_def s1_def set_byte_Inr nat_add_distrib add.commute)
  moreover have "simpio_wf s1" using assms(1) n n1 by (simp add: simpio_wf_def s1_def)
  moreover have "take (Suc n) ((sp_buf s)[n := c, Suc n := NUL]) = take n (sp_buf s) @ [c]"
    using n n1 by (simp add: take_Suc_conv_app_nth)
  then have "editor_of s1 = (editor_of s)\<lparr>ed_text := ed_text (editor_of s) @ [c]\<rparr>"
    using n n1 by (simp add: editor_of_def s1_def)
  ultimately show ?thesis by blast
qed

text \<open>The three kinds of keys: without an effect on the text, a deletion, a character.\<close>

lemma edit_keeps:
  assumes "simpio_wf s" and "key_text c (ed_text (editor_of s)) = ed_text (editor_of s)" and "\<not> key_enters c (ed_text (editor_of s))"
  shows "edit c s io = Inr (s, io) \<and> key_echo c (ed_text (editor_of s)) = []"
proof -
  have "sp_pos s = int (length (ed_text (editor_of s)))" using assms(1) by (rule editor_text_length)
  moreover have "butlast (ed_text (editor_of s)) \<noteq> ed_text (editor_of s)" if "ed_text (editor_of s) \<noteq> []"
    using that by (metis append_butlast_last_id not_Cons_self2 self_append_conv)
  ultimately show ?thesis
    using assms(2,3)
    by (cases c) (auto simp: edit_def key_text_def key_enters_def key_echo_def split: if_splits)
qed

lemma edit_rubs:
  assumes "simpio_wf s" and "c = Some BS \<or> c = Some DEL" and "ed_text (editor_of s) \<noteq> []"
  shows "\<exists>s1. edit c s io = Inr (s1, out [BS, SP, BS] io) \<and> simpio_wf s1
    \<and> editor_of s1 = (editor_of s)\<lparr>ed_text := butlast (ed_text (editor_of s))\<rparr>"
proof -
  have "0 < sp_pos s" using editor_text_length [OF assms(1)] assms(3) by simp
  with rub_out_wf [OF assms(1) this] assms(2) show ?thesis by (auto simp: edit_def)
qed

lemma edit_types:
  assumes "simpio_wf s" and "x \<notin> {BS, DEL, LF, EOT}" and "length (ed_text (editor_of s)) < MAXLINE - 1"
  shows "\<exists>s1. edit (Some x) s io = Inr (s1, out [x] io) \<and> simpio_wf s1
    \<and> editor_of s1 = (editor_of s)\<lparr>ed_text := ed_text (editor_of s) @ [x]\<rparr>"
proof -
  have "sp_pos s < int MAXLINE - 1" using editor_text_length [OF assms(1)] assms(3) by simp
  with type_char_wf [OF assms(1) this, of x] assms(2) show ?thesis by (auto simp: edit_def)
qed

text \<open>What a key does to the editor, with its flags still to be set.\<close>

lemma edit_refines:
  assumes "simpio_wf s"
  shows "\<exists>s1. edit c s io = Inr (s1, out (key_echo c (ed_text (editor_of s))) io) \<and> simpio_wf s1
    \<and> editor_of s1 = (editor_of s)\<lparr>ed_text := key_text c (ed_text (editor_of s)),
        ed_entered := ed_entered (editor_of s) \<or> key_enters c (ed_text (editor_of s))\<rparr>"
proof -
  let ?t = "ed_text (editor_of s)"
  have pos: "sp_pos s = int (length ?t)" using assms by (rule editor_text_length)
  have id: "out [] io = io" by (simp add: out_def)
  have "key_text c ?t = ?t" if "\<not> ((c = Some BS \<or> c = Some DEL) \<and> ?t \<noteq> [])"
      "\<nexists>x. c = Some x \<and> x \<notin> {BS, DEL, LF, EOT} \<and> length ?t < MAXLINE - 1"
    using that by (cases c) (auto simp: key_text_def)
  then consider (enter) "key_enters c ?t" | (keeps) "key_text c ?t = ?t" "\<not> key_enters c ?t"
    | (rub) "c = Some BS \<or> c = Some DEL" "?t \<noteq> []"
    | (char) x where "c = Some x" "x \<notin> {BS, DEL, LF, EOT}" "length ?t < MAXLINE - 1"
    by blast
  then show ?thesis
  proof cases
    case enter
    then have "edit c s io = Inr (s\<lparr>sp_line_ready := 1\<rparr>, io)" "key_text c ?t = ?t" "key_echo c ?t = []"
      using end_line_wf [OF assms] by (auto simp: edit_def pos key_enters_def key_text_def key_echo_def)
    moreover have "editor_of (s\<lparr>sp_line_ready := 1\<rparr>) = (editor_of s)\<lparr>ed_entered := True\<rparr>" "simpio_wf (s\<lparr>sp_line_ready := 1\<rparr>)"
      using assms by (simp_all add: editor_of_def simpio_wf_def)
    ultimately show ?thesis using enter id by simp
  next
    case keeps
    then show ?thesis using edit_keeps [OF assms keeps, of io] assms id by simp
  next
    case rub
    then have "key_text c ?t = butlast ?t" "key_echo c ?t = [BS, SP, BS]" "\<not> key_enters c ?t"
      by (auto simp: key_enters_def key_text_def key_echo_def)
    then show ?thesis using edit_rubs [OF assms rub, of io] by simp
  next
    case char
    then have "key_text c ?t = ?t @ [x]" "key_echo c ?t = [x]" "\<not> key_enters c ?t"
      by (auto simp: key_enters_def key_text_def key_echo_def)
    then show ?thesis using edit_types [OF assms char(2,3), of io] char(1) by simp
  qed
qed

text \<open>One call of \<open>simpio_get_char\<close> is one key.\<close>

definition next_key :: "string \<Rightarrow> char option" where
  "next_key i = (case i of [] \<Rightarrow> None | c # cs \<Rightarrow> Some c)"

lemma edit_prompt: "edit c s io = Inr (s1, io1) \<Longrightarrow> sp_prompt s1 = sp_prompt s"
  by (auto simp: edit_def end_line_def rub_out_def type_char_def split: if_splits option.splits)

lemma fgetc_next: "fgetc io = (next_key (io_in io), io\<lparr>io_in := tl (io_in io)\<rparr>)"
  by (cases io) (auto simp: fgetc_def next_key_def split: list.split)

lemma get_char_refines:
  assumes "simpio_wf s"
  shows "\<exists>s1. simpio_get_char s io
      = Inr (s1, out (key_echo (next_key (io_in io)) (ed_text (editor_of s))) (io\<lparr>io_in := tl (io_in io)\<rparr>))
    \<and> simpio_wf s1 \<and> editor_of s1 = press (next_key (io_in io)) (editor_of s)
    \<and> sp_prompt s1 = sp_prompt s"
proof -
  let ?c = "next_key (io_in io)" and ?io = "io\<lparr>io_in := tl (io_in io)\<rparr>"
  let ?io2 = "out (key_echo ?c (ed_text (editor_of s))) ?io"
  from edit_refines [OF assms] obtain s2 where s2: "edit ?c s ?io = Inr (s2, ?io2)" "simpio_wf s2"
    "editor_of s2 = (editor_of s)\<lparr>ed_text := key_text ?c (ed_text (editor_of s)),
        ed_entered := ed_entered (editor_of s) \<or> key_enters ?c (ed_text (editor_of s))\<rparr>" by blast
  define s1 where "s1 = (if key_ends ?c then s2\<lparr>sp_end_of_input := 1\<rparr> else s2)"
  have "simpio_get_char s io = Inr (s1, ?io2)"
    using s2(1) by (simp add: simpio_get_char_def fgetc_next s1_def key_ends_def)
  moreover have "simpio_wf s1" using s2(2) by (simp add: s1_def simpio_wf_def)
  moreover have "editor_of s1 = (editor_of s2)\<lparr>ed_ended := ed_ended (editor_of s) \<or> key_ends ?c\<rparr>"
    using arg_cong [OF s2(3), of ed_ended] by (simp add: s1_def editor_of_def)
  then have "editor_of s1 = press ?c (editor_of s)" using s2(3) by (simp add: press_def)
  moreover have "sp_prompt s1 = sp_prompt s" using edit_prompt [OF s2(1)] by (simp add: s1_def)
  ultimately show ?thesis by blast
qed

section \<open>\<open>iprintf\<close> within its bounds\<close>

text \<open>The buffer after some text was written: the text, then the rest of the array.\<close>

lemma snprintf_fits:
  assumes "length s < length r" and "0 < lim" and "int (length s) < lim"
  obtains r1 where "snprintf_at s lim (map Some a @ r, int (length a))
      = Inr (map Some (a @ s) @ r1, int (length (a @ s)))"
    and "length r1 + length s = length r"
  using assms that [of "Some NUL # drop (Suc (length s)) r"] by (simp add: snprintf_at_def)

lemma snprintf_cut:
  assumes "0 < l" and "l \<le> length s" and "l \<le> length r"
  shows "snprintf_at s (int l) (map Some a @ r, int (length a))
    = Inr (map Some (a @ take (l - 1) s) @ Some NUL # drop l r, int (length (a @ s)))"
proof -
  have "map Some (a @ take (l - 1) s) @ Some NUL # drop l r
      = map Some a @ map Some (take (l - 1) s @ [NUL]) @ drop l r" by simp
  moreover have "length (take (l - 1) s @ [NUL]) = l" using assms by simp
  ultimately show ?thesis using assms by (simp add: snprintf_at_def del: map_append)
qed

text \<open>A byte that was skipped stays unwritten.\<close>

lemma snprintf_behind_gap:
  assumes "length a < off" and "0 < lim" and "off + nat lim = length a + Suc (length r)"
  obtains r1 where "snprintf_at s lim (map Some a @ None # r, int off)
      = Inr (map Some a @ None # r1, int (off + length s))"
    and "length r1 = length r"
proof -
  let ?bytes = "take (nat lim - 1) s @ [NUL]"
  obtain k where k: "off = length a + Suc k" using assms(1) by (metis add_Suc_right less_natE)
  have len: "length ?bytes \<le> nat lim" using assms(2) by simp
  let ?r1 = "take k r @ map Some ?bytes @ drop (k + length ?bytes) r"
  have parts: "take off (map Some a @ None # r) = map Some a @ None # take k r"
      "drop (off + n) (map Some a @ None # r) = drop (k + n) r" for n
    by (simp_all add: k)
  have "snprintf_at s lim (map Some a @ None # r, int off)
      = (let bytes = ?bytes in
         if off + length bytes \<le> length (map Some a @ None # r)
         then Inr (take off (map Some a @ None # r) @ map Some bytes
           @ drop (off + length bytes) (map Some a @ None # r), int (off + length s))
         else undef Buffer_Overflow)"
    using assms(2) by (simp add: snprintf_at_def Let_def)
  also have "\<dots> = Inr (map Some a @ None # ?r1, int (off + length s))"
    unfolding Let_def parts using assms(3) len by simp
  finally have "snprintf_at s lim (map Some a @ None # r, int off)
      = Inr (map Some a @ None # ?r1, int (off + length s))" .
  moreover have "length ?r1 = length r" using assms(3) len k by simp
  ultimately show ?thesis by (rule that)
qed

lemma mem_read_gap: "length a < n \<Longrightarrow> mem_read n (map Some a @ None # r) = undef Uninitialised"
proof (induction a arbitrary: n)
  case Nil
  then show ?case by (cases n) auto
next
  case (Cons c a)
  then show ?case by (cases n) auto
qed

lemma mem_read_over: "length a < n \<Longrightarrow> mem_read n (map Some a) = undef Out_Of_Bounds"
proof (induction a arbitrary: n)
  case Nil
  then show ?case by (cases n) auto
next
  case (Cons c a)
  then show ?case by (cases n) auto
qed

lemma mem_read_all: "mem_read (length s) (map Some s @ r) = Inr s"
  by (rule mem_read_prefix) simp

text \<open>The array behind the erase sequence.\<close>

lemma iprintf_start:
  obtains r where "snprintf_at erase_line (int (MAXLINE * 2)) (malloc (MAXLINE * 2), 0)
      = Inr (map Some erase_line @ r, int (length erase_line))"
    and "length r + 5 = 2 * MAXLINE" and "drop 1 r = replicate (2 * MAXLINE - 6) None"
proof -
  have "snprintf_at erase_line (int (MAXLINE * 2)) (malloc (MAXLINE * 2), 0)
      = Inr (map Some erase_line @ Some NUL # replicate (2 * MAXLINE - 6) None, int (length erase_line))"
    by (simp add: snprintf_at_def erase_line_def malloc_def)
  then show ?thesis using that [of "Some NUL # replicate (2 * MAXLINE - 6) None"] by simp
qed

lemma length_erase_line [simp]: "length erase_line = 5"
  by (simp add: erase_line_def)

lemma iprintf_ok:
  assumes "c_string (sp_prompt s) = Inr p" and "c_string (sp_buf s) = Inr b"
    and "length text < MAXLINE" and "5 + length text + length p + length b < 2 * MAXLINE"
  shows "iprintf s text io = Inr (out (erase_line @ text @ p @ b) io)"
proof -
  obtain r1 where r1: "snprintf_at erase_line (int (MAXLINE * 2)) (malloc (MAXLINE * 2), 0)
      = Inr (map Some erase_line @ r1, int (length erase_line))" "length r1 + 5 = 2 * MAXLINE"
    by (rule iprintf_start)
  obtain r2 where r2: "snprintf_at text (int MAXLINE) (map Some erase_line @ r1, int (length erase_line))
      = Inr (map Some (erase_line @ text) @ r2, int (length (erase_line @ text)))"
      "length r2 + length text = length r1"
    using assms r1(2) by (elim snprintf_fits [rotated -1]) auto
  obtain r3 where r3: "snprintf_at p (int (MAXLINE * 2) - int (length (erase_line @ text)))
        (map Some (erase_line @ text) @ r2, int (length (erase_line @ text)))
      = Inr (map Some ((erase_line @ text) @ p) @ r3, int (length ((erase_line @ text) @ p)))"
      "length r3 + length p = length r2"
    using assms r1(2) r2(2) by (elim snprintf_fits [rotated -1]) auto
  obtain r4 where r4: "snprintf_at b (int (MAXLINE * 2) - int (length ((erase_line @ text) @ p)))
        (map Some ((erase_line @ text) @ p) @ r3, int (length ((erase_line @ text) @ p)))
      = Inr (map Some (((erase_line @ text) @ p) @ b) @ r4, int (length (((erase_line @ text) @ p) @ b)))"
      "length r4 + length b = length r3"
    using assms r1(2) r2(2) r3(2) by (elim snprintf_fits [rotated -1]) auto
  have "iprintf s text io = map_res (\<lambda>bytes. out bytes io)
      (mem_read (nat (int (length (((erase_line @ text) @ p) @ b)))) (map Some (((erase_line @ text) @ p) @ b) @ r4))"
    unfolding iprintf_def Let_def r1(1) rbind.simps prod.case r2(1) assms(1) r3(1) assms(2) r4(1) ..
  then show ?thesis unfolding nat_int mem_read_all by simp
qed

text \<open>A message of 1025 characters or more leaves a gap between what was written of it and the
prompt.\<close>

lemma iprintf_long:
  assumes "c_string (sp_prompt s) = Inr p" and "c_string (sp_buf s) = Inr b"
    and "MAXLINE < length text" and "5 + length text + length p < 2 * MAXLINE"
  shows "iprintf s text io = undef Uninitialised"
proof -
  let ?a = "erase_line @ take (MAXLINE - 1) text @ [NUL]"
  obtain r1 where r1: "snprintf_at erase_line (int (MAXLINE * 2)) (malloc (MAXLINE * 2), 0)
      = Inr (map Some erase_line @ r1, int (length erase_line))" "length r1 + 5 = 2 * MAXLINE"
      "drop 1 r1 = replicate (2 * MAXLINE - 6) None"
    by (rule iprintf_start)
  have "drop MAXLINE r1 = drop (MAXLINE - 1) (drop 1 r1)" by simp
  also have "\<dots> = replicate (Suc (2 * MAXLINE - 6 - MAXLINE)) None"
    unfolding r1(3) drop_replicate by simp
  finally have gap: "drop MAXLINE r1 = None # replicate (2 * MAXLINE - 6 - MAXLINE) None"
    by (simp only: replicate_Suc)
  have "snprintf_at text (int MAXLINE) (map Some erase_line @ r1, int (length erase_line))
      = Inr (map Some (erase_line @ take (MAXLINE - 1) text) @ Some NUL # drop MAXLINE r1,
          int (length (erase_line @ text)))"
    using assms(3) r1(2) by (intro snprintf_cut) auto
  then have r2: "snprintf_at text (int MAXLINE) (map Some erase_line @ r1, int (length erase_line))
      = Inr (map Some ?a @ None # replicate (2 * MAXLINE - 6 - MAXLINE) None, int (5 + length text))"
    unfolding gap by simp
  have lim: "0 < int (MAXLINE * 2) - int (5 + length text)"
      "0 < int (MAXLINE * 2) - int (5 + length text + length p)"
    using assms(4) by auto
  have a: "length ?a = MAXLINE + 5" using assms(3) by simp
  obtain r3 where r3: "snprintf_at p (int (MAXLINE * 2) - int (5 + length text))
        (map Some ?a @ None # replicate (2 * MAXLINE - 6 - MAXLINE) None, int (5 + length text))
      = Inr (map Some ?a @ None # r3, int (5 + length text + length p))"
      "length r3 = 2 * MAXLINE - 6 - MAXLINE"
    by (rule snprintf_behind_gap [of ?a "5 + length text" "int (MAXLINE * 2) - int (5 + length text)"
          "replicate (2 * MAXLINE - 6 - MAXLINE) None" p])
      (use a assms(3) lim in auto)
  obtain r4 where r4: "snprintf_at b (int (MAXLINE * 2) - int (5 + length text + length p))
        (map Some ?a @ None # r3, int (5 + length text + length p))
      = Inr (map Some ?a @ None # r4, int (5 + length text + length p + length b))"
    by (rule snprintf_behind_gap [of ?a "5 + length text + length p"
          "int (MAXLINE * 2) - int (5 + length text + length p)" r3 b])
      (use a assms(3) lim r3(2) in auto)
  have "iprintf s text io = map_res (\<lambda>bytes. out bytes io)
      (mem_read (nat (int (5 + length text + length p + length b))) (map Some ?a @ None # r4))"
    unfolding iprintf_def Let_def r1(1) rbind.simps prod.case r2(1) assms(1) r3(1) assms(2) r4(1) ..
  then show ?thesis
    unfolding nat_int using mem_read_gap [of ?a "5 + length text + length p + length b" r4] a assms(3)
    by simp
qed

text \<open>A message that fits, with so much typed text that the offsets add up to more than the array
holds.\<close>

lemma iprintf_over:
  assumes "c_string (sp_prompt s) = Inr p" and "c_string (sp_buf s) = Inr b"
    and "length text < MAXLINE" and "5 + length text + length p < 2 * MAXLINE"
    and "2 * MAXLINE < 5 + length text + length p + length b"
  shows "iprintf s text io = undef Out_Of_Bounds"
proof -
  let ?a = "(erase_line @ text) @ p"
  let ?l = "2 * MAXLINE - length ?a"
  obtain r1 where r1: "snprintf_at erase_line (int (MAXLINE * 2)) (malloc (MAXLINE * 2), 0)
      = Inr (map Some erase_line @ r1, int (length erase_line))" "length r1 + 5 = 2 * MAXLINE"
    by (rule iprintf_start)
  obtain r2 where r2: "snprintf_at text (int MAXLINE) (map Some erase_line @ r1, int (length erase_line))
      = Inr (map Some (erase_line @ text) @ r2, int (length (erase_line @ text)))"
      "length r2 + length text = length r1"
    using assms r1(2) by (elim snprintf_fits [rotated -1]) auto
  obtain r3 where r3: "snprintf_at p (int (MAXLINE * 2) - int (length (erase_line @ text)))
        (map Some (erase_line @ text) @ r2, int (length (erase_line @ text)))
      = Inr (map Some ?a @ r3, int (length ?a))"
      "length r3 + length p = length r2"
    using assms r1(2) r2(2) by (elim snprintf_fits [rotated -1]) auto
  have l: "0 < ?l" "?l \<le> length b" "?l = length r3" "int (MAXLINE * 2) - int (length ?a) = int ?l"
    using assms r1(2) r2(2) r3(2) by auto
  have r4: "snprintf_at b (int (MAXLINE * 2) - int (length ?a)) (map Some ?a @ r3, int (length ?a))
      = Inr (map Some (?a @ take (?l - 1) b @ [NUL]), int (length (?a @ b)))"
  proof -
    have "snprintf_at b (int ?l) (map Some ?a @ r3, int (length ?a))
        = Inr (map Some (?a @ take (?l - 1) b) @ Some NUL # drop ?l r3, int (length (?a @ b)))"
      using l(1,2,3) by (intro snprintf_cut) auto
    moreover have "drop ?l r3 = []" using l(3) by simp
    ultimately show ?thesis unfolding l(4) by simp
  qed
  have "iprintf s text io = map_res (\<lambda>bytes. out bytes io)
      (mem_read (nat (int (length (?a @ b)))) (map Some (?a @ take (?l - 1) b @ [NUL])))"
    unfolding iprintf_def Let_def r1(1) rbind.simps prod.case r2(1) assms(1) r3(1) assms(2) r4(1) ..
  moreover have "length (?a @ take (?l - 1) b @ [NUL]) < length (?a @ b)"
    using l(1,2) assms(5) by simp
  ultimately show ?thesis unfolding nat_int by (simp only: mem_read_over map_res_simps)
qed

section \<open>Properties\<close>

lemma simpio_zero_wf: "simpio_wf simpio_zero"
  by (simp add: simpio_wf_def simpio_zero_def)

text \<open>
  C17. \<open>simpio_get_char\<close> refines the line editor: on a well-formed state it stays inside its
  buffer and keeps it terminated, and it changes text and flags and echoes as the key
  demands, for every key, the end of the file included.
\<close>

theorem simpio_get_char_refines:
  assumes "simpio_wf s"
  shows "\<exists>s1 io1. simpio_get_char s io = Inr (s1, io1) \<and> simpio_wf s1
    \<and> editor_of s1 = press (next_key (io_in io)) (editor_of s)
    \<and> io_in io1 = tl (io_in io)
    \<and> io_out io1 = io_out io @ key_echo (next_key (io_in io)) (ed_text (editor_of s))"
  using get_char_refines [OF assms, of io] by (auto simp: out_def)

theorem simpio_get_char_refines_witness:
  "\<exists>s1 io1. simpio_get_char simpio_zero \<lparr>io_in = ''a'', io_out = []\<rparr> = Inr (s1, io1) \<and> simpio_wf s1
    \<and> editor_of s1 = \<lparr>ed_text = ''a'', ed_entered = False, ed_ended = False\<rparr>
    \<and> io_in io1 = [] \<and> io_out io1 = ''a''"
  using simpio_get_char_refines [OF simpio_zero_wf, of "\<lparr>io_in = ''a'', io_out = []\<rparr>"]
  by (simp add: next_key_def press_def key_text_def key_echo_def key_enters_def key_ends_def
      editor_of_def simpio_zero_def)

text \<open>
  \<open>iprintf\<close> erases the line and prints the message, the prompt and the typed text, whenever
  the message is shorter than 1024 characters and everything together than 2048.
\<close>

theorem iprintf_prints:
  assumes "c_string (sp_prompt s) = Inr p" and "c_string (sp_buf s) = Inr b"
    and "length text < MAXLINE" and "5 + length text + length p + length b < 2 * MAXLINE"
  shows "iprintf s text io = Inr (out (erase_line @ text @ p @ b) io)"
  using assms by (rule iprintf_ok)

theorem iprintf_prints_witness:
  "iprintf (simpio_set_prompt simpio_zero ''bob>> '') ''hello'' \<lparr>io_in = [], io_out = []\<rparr>
    = Inr \<lparr>io_in = [], io_out = erase_line @ ''hello'' @ ''bob>> ''\<rparr>"
proof -
  have "c_string (strncpy_bytes MAXNAME ''bob>> '') = Inr ''bob>> ''"
    by (simp add: c_string_def strncpy_bytes_def cstr_padded [of "''bob>> ''", simplified])
  moreover have "c_string (replicate MAXLINE NUL) = Inr []"
    using cstr_padded [of "[]" MAXLINE] by (simp add: c_string_def)
  ultimately show ?thesis
    using iprintf_prints [of "simpio_set_prompt simpio_zero ''bob>> ''" "''bob>> ''" "[]" "''hello''"]
    by (simp add: simpio_set_prompt_def simpio_zero_def out_def)
qed

text \<open>
  Beyond these bounds \<open>iprintf\<close> writes bytes to the terminal it never put into its array: a
  message of more than 1024 characters leaves a gap of unwritten bytes behind what was kept
  of it, and offsets that add up to more than 2048 make it read beyond the array.
\<close>

theorem iprintf_overruns:
  assumes "c_string (sp_prompt s) = Inr p" and "c_string (sp_buf s) = Inr b"
    and "5 + length text + length p < 2 * MAXLINE"
    and "MAXLINE < length text
      \<or> length text < MAXLINE \<and> 2 * MAXLINE < 5 + length text + length p + length b"
  shows "iprintf s text io = undef (if MAXLINE < length text then Uninitialised else Out_Of_Bounds)"
  using assms iprintf_long [OF assms(1,2) _ assms(3)] iprintf_over [OF assms(1,2) _ assms(3)] by auto

theorem iprintf_overruns_witness:
  "iprintf simpio_zero (replicate 1030 CHR ''x'') \<lparr>io_in = [], io_out = []\<rparr> = undef Uninitialised"
proof -
  have zero: "c_string (replicate n NUL) = Inr []" if "0 < n" for n
    using cstr_padded [of "[]" n] that by (simp add: c_string_def)
  show ?thesis
    using iprintf_overruns [of simpio_zero "[]" "[]" "replicate 1030 CHR ''x''"]
    by (simp add: simpio_zero_def zero)
qed

end
