(* ===== verification/Chat_Types.thy ===== *)
theory Chat_Types
  imports Chat_Simpio
begin

text \<open>
  \<open>Unix_Chat_Service/blather.h\<close>: what the server and its clients exchange over their FIFOs. A
  message is one \<open>write\<close> of a whole struct; both structs are smaller than the size up to
  which the system keeps such writes in one piece, so a FIFO holds a list of them.
\<close>

abbreviation MAXPATH :: nat where "MAXPATH \<equiv> 1024"
abbreviation MAXCLIENTS :: nat where "MAXCLIENTS \<equiv> 256"

section \<open>Kinds of messages\<close>

datatype mesg_kind_t = BL_MESG | BL_JOINED | BL_DEPARTED | BL_SHUTDOWN | BL_DISCONNECTED | BL_PING

fun kind_code :: "mesg_kind_t \<Rightarrow> int" where
  "kind_code BL_MESG = 10"
| "kind_code BL_JOINED = 20"
| "kind_code BL_DEPARTED = 30"
| "kind_code BL_SHUTDOWN = 40"
| "kind_code BL_DISCONNECTED = 50"
| "kind_code BL_PING = 60"

lemma kind_code_eq [simp]: "kind_code k = kind_code l \<longleftrightarrow> k = l"
  by (cases k; cases l) simp_all

text \<open>The enumeration is ordered by its codes.\<close>

instantiation mesg_kind_t :: linorder
begin

definition less_eq_mesg_kind_t :: "mesg_kind_t \<Rightarrow> mesg_kind_t \<Rightarrow> bool" where
  "less_eq_mesg_kind_t k l \<longleftrightarrow> kind_code k \<le> kind_code l"

definition less_mesg_kind_t :: "mesg_kind_t \<Rightarrow> mesg_kind_t \<Rightarrow> bool" where
  "less_mesg_kind_t k l \<longleftrightarrow> kind_code k < kind_code l"

instance
proof
  fix k l :: mesg_kind_t
  show "k \<le> l \<Longrightarrow> l \<le> k \<Longrightarrow> k = l"
    unfolding less_eq_mesg_kind_t_def using kind_code_eq [of k l] by linarith
qed (auto simp: less_eq_mesg_kind_t_def less_mesg_kind_t_def)

end

lemma kind_code_range: "BL_MESG \<le> k \<and> k \<le> BL_PING"
  by (cases k) (simp_all add: less_eq_mesg_kind_t_def)

section \<open>The structs\<close>

text \<open>The kind is kept as the number it is: what is read from a FIFO may be no enumerator.\<close>

record mesg_t =
  m_kind :: int
  m_name :: "char list"
  m_body :: "char list"

record join_t =
  j_name :: "char list"
  j_to_client :: "char list"
  j_to_server :: "char list"

record client_t =
  c_name :: "char list"
  c_to_client_fd :: int
  c_to_server_fd :: int
  c_to_client_fname :: "char list"
  c_to_server_fname :: "char list"
  c_data_ready :: int

text \<open>After \<open>memset(..., 0, ...)\<close>.\<close>

definition mesg_zero :: mesg_t where
  "mesg_zero = \<lparr>m_kind = 0, m_name = replicate MAXNAME NUL, m_body = replicate MAXLINE NUL\<rparr>"

definition join_zero :: join_t where
  "join_zero = \<lparr>j_name = replicate MAXPATH NUL, j_to_client = replicate MAXPATH NUL,
     j_to_server = replicate MAXPATH NUL\<rparr>"

definition client_zero :: client_t where
  "client_zero = \<lparr>c_name = replicate MAXPATH NUL, c_to_client_fd = 0, c_to_server_fd = 0,
     c_to_client_fname = replicate MAXPATH NUL, c_to_server_fname = replicate MAXPATH NUL,
     c_data_ready = 0\<rparr>"

text \<open>
  \<open>strncpy(mesg.name, s, n)\<close>. With a bound beyond the 256 bytes of the array, the C standard leaves this
  undefined (\<open>put_name_strict\<close>). The body follows the name in the struct, so compiled without checks of
  bounds the bytes go there (\<open>put_name\<close>).
\<close>

definition put_name :: "nat \<Rightarrow> string \<Rightarrow> mesg_t \<Rightarrow> mesg_t" where
  "put_name n s m =
     (let bytes = strncpy_bytes n s @ drop n (m_name m @ m_body m)
      in m\<lparr>m_name := take MAXNAME bytes, m_body := drop MAXNAME bytes\<rparr>)"

definition put_name_strict :: "nat \<Rightarrow> string \<Rightarrow> mesg_t \<Rightarrow> mesg_t res" where
  "put_name_strict n s m = (if n \<le> MAXNAME then Inr (put_name n s m) else undef Buffer_Overflow)"

definition put_body :: "string \<Rightarrow> mesg_t \<Rightarrow> mesg_t" where
  "put_body s m = m\<lparr>m_body := strncpy_bytes MAXLINE s\<rparr>"

text \<open>The name and the body as \<open>printf\<close> reads them.\<close>

definition name_text :: "mesg_t \<Rightarrow> string res" where
  "name_text m = c_string (m_name m @ m_body m)"

definition body_text :: "mesg_t \<Rightarrow> string res" where
  "body_text m = c_string (m_body m)"

definition mesg_ok :: "mesg_t \<Rightarrow> bool" where
  "mesg_ok m \<longleftrightarrow> length (m_name m) = MAXNAME \<and> length (m_body m) = MAXLINE \<and> NUL \<in> set (m_body m)"

section \<open>Facts\<close>

lemma mesg_ok_text: "mesg_ok m \<Longrightarrow> \<exists>n b. name_text m = Inr n \<and> body_text m = Inr b"
  by (simp add: mesg_ok_def name_text_def body_text_def c_string_def)

lemma mesg_zero_ok [simp]: "mesg_ok (mesg_zero\<lparr>m_kind := k\<rparr>)" "mesg_ok mesg_zero"
  by (simp_all add: mesg_ok_def mesg_zero_def)

text \<open>A name that fits its own array leaves the body alone.\<close>

lemma put_name_short:
  assumes "length (m_name m) = MAXNAME"
  shows "m_name (put_name MAXNAME s m) = strncpy_bytes MAXNAME s"
    and "m_body (put_name MAXNAME s m) = m_body m" and "m_kind (put_name MAXNAME s m) = m_kind m"
  using assms by (simp_all add: put_name_def Let_def)

lemma cstr_strncpy:
  assumes "NUL \<notin> set s" and "length s < n"
  shows "c_string (strncpy_bytes n s @ r) = Inr s"
proof -
  obtain k where "n = Suc (length s + k)" using assms(2) less_imp_Suc_add by blast
  then have "strncpy_bytes n s @ r = s @ NUL # replicate k NUL @ r"
    by (simp add: strncpy_bytes_def)
  then show ?thesis using assms(1) by (simp add: c_string_def cstr_stop)
qed

end
