(* ===== verification/Chat_Client.thy ===== *)
theory Chat_Client
  imports Chat_Types "HOL-Library.Sublist"
begin

text \<open>
  \<open>Unix_Chat_Service/bl-client.c\<close>: the start of the client, its user thread, which turns typed
  lines into messages, and its server thread, which prints what the server sends. The threads
  share the line editor; one step of the model is one call of \<open>simpio_reset\<close>, \<open>simpio_get_char\<close>,
  \<open>iprintf\<close> or \<open>write\<close> by one of them.
\<close>

section \<open>The start of the program\<close>

text \<open>\<open>strcpy\<close> into an array of \<open>n\<close> bytes that holds zeros.\<close>

definition strcpy_to :: "nat \<Rightarrow> string \<Rightarrow> char list res" where
  "strcpy_to n s = (if length s < n then Inr (strncpy_bytes n s) else undef Buffer_Overflow)"

text \<open>\<open>sprintf(cpid, "%d.fifo", pid)\<close> into 16 bytes.\<close>

definition fifo_suffix :: "int \<Rightarrow> string res" where
  "fifo_suffix pid =
     (let s = show_int pid @ ''.fifo''
      in if length s < 16 then Inr s else undef Buffer_Overflow)"

definition make_join :: "int \<Rightarrow> string \<Rightarrow> string \<Rightarrow> (string \<times> join_t) res" where
  "make_join pid server_arg name_arg =
     rbind (fifo_suffix pid) (\<lambda>cpid.
     let to_client_fname = ''to_user_'' @ cpid;
         to_server_fname = ''to_server_'' @ cpid
     in rbind (strcpy_to MAXPATH server_arg) (\<lambda>server_name.
        rbind (strcpy_to MAXPATH name_arg) (\<lambda>username.
        rbind (strcpy_to MAXPATH to_client_fname) (\<lambda>tc.
        rbind (strcpy_to MAXPATH to_server_fname) (\<lambda>ts.
          Inr (cstr server_name, \<lparr>j_name = username, j_to_client = tc, j_to_server = ts\<rparr>))))))"

definition client_prompt :: "string \<Rightarrow> string" where
  "client_prompt username = snprintf MAXNAME (username @ ''>> '')"

text \<open>
  \<open>main\<close> up to the start of the threads: it ends early with a wrong number of arguments
  or when the server's FIFO cannot be opened; otherwise the join request has been written.
\<close>

datatype start =
    Usage
  | No_Server string
  | Joining join_t simpio_t

definition client_main :: "string list \<Rightarrow> int \<Rightarrow> (string \<Rightarrow> bool) \<Rightarrow> start res" where
  "client_main args pid server_exists =
     (case args of
        [server_arg, name_arg] \<Rightarrow>
          rbind (make_join pid server_arg name_arg) (\<lambda>(server_name, join).
            if \<not> server_exists server_name then Inr (No_Server server_name)
            else map_res (Joining join)
              (simpio_reset (simpio_set_prompt simpio_zero (client_prompt (cstr (j_name join))))))
      | _ \<Rightarrow> Inr Usage)"

section \<open>The threads\<close>

text \<open>
  Where the user thread stands: at the head of its outer loop, behind \<open>simpio_reset\<close>, in the inner
  loop, or done.
\<close>

datatype user_pc = U_Top | U_Prompt | U_Reading | U_Done

text \<open>
  The state of the running client: the editor and the terminal, the name, the messages written
  to the server, those still to be read, and whether a thread has been cancelled or has
  returned.
\<close>

record chat_client =
  k_simpio :: simpio_t
  k_io :: term_io
  k_username :: string
  k_sent :: "mesg_t list"
  k_inbox :: "mesg_t list"
  k_user :: user_pc
  k_user_alive :: bool
  k_server_alive :: bool

definition user_mesg :: "string \<Rightarrow> char list \<Rightarrow> mesg_t" where
  "user_mesg username buf =
     put_body (cstr buf) (put_name MAXNAME username (mesg_zero\<lparr>m_kind := kind_code BL_MESG\<rparr>))"

definition departed_mesg :: "string \<Rightarrow> mesg_t" where
  "departed_mesg username = put_name MAXNAME username (mesg_zero\<lparr>m_kind := kind_code BL_DEPARTED\<rparr>)"

definition send :: "mesg_t \<Rightarrow> chat_client \<Rightarrow> chat_client" where
  "send m k = k\<lparr>k_sent := k_sent k @ [m]\<rparr>"

text \<open>One step of \<open>user_to_server\<close>.\<close>

definition user_step :: "chat_client \<Rightarrow> chat_client res" where
  "user_step k =
     (let s = k_simpio k in
      case k_user k of
        U_Top \<Rightarrow>
          if sp_end_of_input s = 0 then
            map_res (\<lambda>s1. k\<lparr>k_simpio := s1, k_user := U_Prompt\<rparr>) (simpio_reset s)
          else Inr ((send (departed_mesg (k_username k)) k)\<lparr>k_user := U_Done, k_server_alive := False\<rparr>)
      | U_Prompt \<Rightarrow> map_res (\<lambda>io1. k\<lparr>k_io := io1, k_user := U_Reading\<rparr>) (iprintf s [] (k_io k))
      | U_Reading \<Rightarrow>
          if sp_line_ready s = 0 \<and> sp_end_of_input s = 0 then
            map_res (\<lambda>(s1, io1). k\<lparr>k_simpio := s1, k_io := io1\<rparr>) (simpio_get_char s (k_io k))
          else if sp_line_ready s \<noteq> 0 then
            Inr ((send (user_mesg (k_username k) (sp_buf s)) k)\<lparr>k_user := U_Top\<rparr>)
          else Inr (k\<lparr>k_user := U_Top\<rparr>)
      | U_Done \<Rightarrow> Inr k)"

text \<open>What the server thread prints for a message; a kind it does not know prints nothing.\<close>

definition shown :: "mesg_t \<Rightarrow> string option res" where
  "shown m =
     (if m_kind m = kind_code BL_MESG then
        rbind (name_text m) (\<lambda>name. map_res (\<lambda>body.
          Some (''['' @ name @ ''] : '' @ body @ [LF])) (body_text m))
      else if m_kind m = kind_code BL_JOINED then
        map_res (\<lambda>name. Some (''-- '' @ name @ '' JOINED --'' @ [LF])) (name_text m)
      else if m_kind m = kind_code BL_DEPARTED then
        map_res (\<lambda>name. Some (''-- '' @ name @ '' DEPARTED --'' @ [LF])) (name_text m)
      else if m_kind m = kind_code BL_SHUTDOWN then
        Inr (Some (''!!! server is shutting down !!!'' @ [LF]))
      else Inr None)"

text \<open>
  One round of \<open>server_to_user\<close> on a message. After the one that announces the shutdown it leaves
  the loop and cancels the user thread.
\<close>

definition show_mesg :: "mesg_t \<Rightarrow> chat_client \<Rightarrow> chat_client res" where
  "show_mesg m k =
     rbind (shown m) (\<lambda>text.
       case text of
         None \<Rightarrow> Inr k
       | Some t \<Rightarrow> map_res (\<lambda>io1. k\<lparr>k_io := io1\<rparr>) (iprintf (k_simpio k) t (k_io k)))"

definition server_step :: "chat_client \<Rightarrow> chat_client res" where
  "server_step k =
     (case k_inbox k of
        [] \<Rightarrow> Inl Blocked
      | m # ms \<Rightarrow>
          map_res (\<lambda>k1.
              if m_kind m = kind_code BL_SHUTDOWN
              then k1\<lparr>k_io := out [LF] (k_io k1), k_server_alive := False, k_user_alive := False\<rparr>
              else k1)
            (show_mesg m (k\<lparr>k_inbox := ms\<rparr>)))"

text \<open>
  The steps of the client: either thread, while it is there, or a message arrives. At the end
  of the file \<open>read\<close> leaves the struct zeroed: then \<open>mesg_zero\<close> arrives, again and again.
\<close>

inductive client_step :: "chat_client \<Rightarrow> chat_client \<Rightarrow> bool" where
  user: "k_user_alive k \<Longrightarrow> k_user k \<noteq> U_Done \<Longrightarrow> user_step k = Inr k1 \<Longrightarrow> client_step k k1"
| server: "k_server_alive k \<Longrightarrow> server_step k = Inr k1 \<Longrightarrow> client_step k k1"
| arrival: "client_step k (k\<lparr>k_inbox := k_inbox k @ [m]\<rparr>)"

definition client_start :: "simpio_t \<Rightarrow> string \<Rightarrow> string \<Rightarrow> chat_client" where
  "client_start s username input =
     \<lparr>k_simpio = s, k_io = \<lparr>io_in = input, io_out = []\<rparr>, k_username = username, k_sent = [],
      k_inbox = [], k_user = U_Top, k_user_alive = True, k_server_alive = True\<rparr>"

inductive client_reach :: "chat_client \<Rightarrow> chat_client \<Rightarrow> bool" for k0 where
  start: "client_reach k0 k0"
| step: "client_reach k0 k \<Longrightarrow> client_step k k1 \<Longrightarrow> client_reach k0 k1"

section \<open>The messages of a session\<close>

text \<open>
  The lines a user enters, as a function of the keys: the text typed so far and the keys to come.
  A line is entered with the enter key or, as the last one, with the end-of-transmission key; at
  the end of the file, what was typed is lost.
\<close>

fun session :: "string \<Rightarrow> string \<Rightarrow> string list" where
  "session t [] = []"
| "session t (c # cs) =
     (if key_enters (Some c) t then t # (if c = EOT then [] else session [] cs)
      else if c = EOT then []
      else session (key_text (Some c) t) cs)"

definition session_mesgs :: "string \<Rightarrow> string list \<Rightarrow> mesg_t list" where
  "session_mesgs username ls = map (user_mesg username) ls @ [departed_mesg username]"

text \<open>The lines still to be sent in a state.\<close>

definition to_send :: "chat_client \<Rightarrow> string list" where
  "to_send k =
     (let e = editor_of (k_simpio k); i = io_in (k_io k) in
      case k_user k of
        U_Top \<Rightarrow> if ed_ended e then [] else session [] i
      | U_Done \<Rightarrow> []
      | _ \<Rightarrow>
          (if ed_entered e then ed_text e # (if ed_ended e then [] else session [] i)
           else if ed_ended e then [] else session (ed_text e) i))"

definition client_wf :: "chat_client \<Rightarrow> bool" where
  "client_wf k \<longleftrightarrow> simpio_wf (k_simpio k)"

text \<open>Everything sent and to be sent.\<close>

definition all_mesgs :: "chat_client \<Rightarrow> mesg_t list" where
  "all_mesgs k =
     k_sent k @ (if k_user k = U_Done then [] else session_mesgs (k_username k) (to_send k))"

lemma cstr_take_nul: "n < length b \<Longrightarrow> b ! n = NUL \<Longrightarrow> cstr (take n b) = cstr b"
proof (induction b arbitrary: n)
  case (Cons c b)
  then show ?case by (cases n) (auto simp: cstr_def)
qed simp

lemma user_mesg_cstr: "cstr a = cstr b \<Longrightarrow> user_mesg u a = user_mesg u b"
  by (simp add: user_mesg_def)

lemma simpio_reset_wf:
  assumes "simpio_wf s"
  shows "\<exists>s1. simpio_reset s = Inr s1 \<and> simpio_wf s1 \<and> sp_prompt s1 = sp_prompt s
    \<and> editor_of s1 = \<lparr>ed_text = [], ed_entered = False, ed_ended = False\<rparr> \<and> sp_buf s1 ! 0 = NUL"
  using assms by (auto simp: simpio_reset_def set_byte_Inr simpio_wf_def editor_of_def)

lemma flags_zero:
  "simpio_wf s \<Longrightarrow> sp_line_ready s = 0 \<longleftrightarrow> \<not> ed_entered (editor_of s)"
  "simpio_wf s \<Longrightarrow> sp_end_of_input s = 0 \<longleftrightarrow> \<not> ed_ended (editor_of s)"
  by (auto simp: simpio_wf_def editor_of_def)

section \<open>One step of a thread\<close>

lemma iprintf_io: "iprintf s t io = Inr io1 \<Longrightarrow> io_in io1 = io_in io"
  by (auto simp: iprintf_def Let_def out_def split: prod.splits)

lemma session_Cons_key:
  "\<not> key_enters (Some c) t \<Longrightarrow> c \<noteq> EOT \<Longrightarrow> session t (c # cs) = session (key_text (Some c) t) cs"
  by simp

text \<open>A key, seen from the lines still to be entered.\<close>

lemma session_key:
  "session t i =
     (let c = next_key i in
      if key_enters c t then t # (if key_ends c then [] else session [] (tl i))
      else if key_ends c then [] else session (key_text c t) (tl i))"
  by (cases i) (auto simp: next_key_def key_ends_def key_enters_def key_text_def Let_def)

lemma key_enters_text: "key_enters c t \<Longrightarrow> key_text c t = t"
  by (auto simp: key_enters_def key_text_def)

lemma user_step_reading:
  assumes "client_wf k" and "k_user k = U_Reading"
    and "\<not> ed_entered (editor_of (k_simpio k))" and "\<not> ed_ended (editor_of (k_simpio k))"
    and "user_step k = Inr k1"
  shows "client_wf k1 \<and> to_send k1 = to_send k \<and> k_sent k1 = k_sent k \<and> k_user k1 = U_Reading
    \<and> k_username k1 = k_username k \<and> io_in (k_io k1) = tl (io_in (k_io k))"
proof -
  let ?s = "k_simpio k" and ?c = "next_key (io_in (k_io k))"
  have wf: "simpio_wf ?s" using assms(1) by (simp add: client_wf_def)
  from get_char_refines [OF wf] obtain s1 where s1:
    "simpio_get_char ?s (k_io k) = Inr (s1, out (key_echo ?c (ed_text (editor_of ?s))) ((k_io k)\<lparr>io_in := tl (io_in (k_io k))\<rparr>))"
    "simpio_wf s1" "editor_of s1 = press ?c (editor_of ?s)" by blast
  have k1: "k1 = k\<lparr>k_simpio := s1, k_io := out (key_echo ?c (ed_text (editor_of ?s)))
      ((k_io k)\<lparr>io_in := tl (io_in (k_io k))\<rparr>)\<rparr>"
    using assms(2-5) s1(1) flags_zero [OF wf] by (simp add: user_step_def)
  let ?t = "ed_text (editor_of ?s)" and ?i = "io_in (k_io k)"
  have "to_send k1 = (if key_enters ?c ?t then ?t # (if key_ends ?c then [] else session [] (tl ?i))
      else if key_ends ?c then [] else session (key_text ?c ?t) (tl ?i))"
    using assms(2-4) s1(3) by (simp add: to_send_def k1 press_def Let_def out_def key_enters_text)
  also have "\<dots> = session ?t ?i" using session_key [of ?t ?i] by (simp only: Let_def)
  also have "\<dots> = to_send k" using assms(2-4) by (simp add: to_send_def Let_def)
  finally have "to_send k1 = to_send k" .
  then show ?thesis using s1(2) assms(2) by (simp add: k1 client_wf_def out_def)
qed

lemma user_step_top:
  assumes "client_wf k" and "k_user k = U_Top" and "user_step k = Inr k1"
  shows "client_wf k1 \<and> all_mesgs k1 = all_mesgs k \<and> k_username k1 = k_username k"
proof -
  have wf: "simpio_wf (k_simpio k)" using assms(1) by (simp add: client_wf_def)
  obtain s1 where s1: "simpio_reset (k_simpio k) = Inr s1" "simpio_wf s1"
      "editor_of s1 = \<lparr>ed_text = [], ed_entered = False, ed_ended = False\<rparr>"
    using simpio_reset_wf [OF wf] by blast
  show ?thesis
  proof (cases "ed_ended (editor_of (k_simpio k))")
    case True
    with assms flags_zero [OF wf] show ?thesis
      by (auto simp: user_step_def all_mesgs_def session_mesgs_def to_send_def Let_def send_def client_wf_def)
  next
    case False
    with assms(2,3) flags_zero [OF wf] s1(1) have "k1 = k\<lparr>k_simpio := s1, k_user := U_Prompt\<rparr>"
      by (simp add: user_step_def)
    with False assms(2) s1 show ?thesis
      by (simp add: all_mesgs_def to_send_def Let_def client_wf_def)
  qed
qed

lemma user_step_prompt:
  assumes "client_wf k" and "k_user k = U_Prompt" and "user_step k = Inr k1"
  shows "client_wf k1 \<and> all_mesgs k1 = all_mesgs k \<and> k_username k1 = k_username k"
proof -
  from assms(2,3) obtain io1 where "iprintf (k_simpio k) [] (k_io k) = Inr io1" "k1 = k\<lparr>k_io := io1, k_user := U_Reading\<rparr>"
    by (auto simp: user_step_def)
  with assms(1,2) iprintf_io show ?thesis by (simp add: all_mesgs_def to_send_def Let_def client_wf_def)
qed

text \<open>The text of the editor and the buffer behind it make the same message.\<close>

lemma user_mesg_text:
  assumes "simpio_wf s"
  shows "user_mesg u (ed_text (editor_of s)) = user_mesg u (sp_buf s)"
proof -
  obtain n where "n < length (sp_buf s)" "sp_buf s ! n = NUL" "ed_text (editor_of s) = take n (sp_buf s)"
    using simpio_wf_pos [OF assms] by metis
  then show ?thesis by (intro user_mesg_cstr) (simp add: cstr_take_nul)
qed

text \<open>A step of the user thread neither invents nor forgets a message.\<close>

lemma user_step_mesgs:
  assumes "client_wf k" and "k_user k \<noteq> U_Done" and "user_step k = Inr k1"
  shows "client_wf k1 \<and> all_mesgs k1 = all_mesgs k \<and> k_username k1 = k_username k"
proof (cases "k_user k")
  case U_Top
  from user_step_top [OF assms(1) this assms(3)] show ?thesis .
next
  case U_Prompt
  from user_step_prompt [OF assms(1) this assms(3)] show ?thesis .
next
  case U_Reading
  have wf: "simpio_wf (k_simpio k)" using assms(1) by (simp add: client_wf_def)
  let ?e = "editor_of (k_simpio k)"
  consider (key) "\<not> ed_entered ?e" "\<not> ed_ended ?e" | (line) "ed_entered ?e" | (eof) "\<not> ed_entered ?e" "ed_ended ?e"
    by blast
  then show ?thesis
  proof cases
    case key
    then show ?thesis
      using user_step_reading [OF assms(1) U_Reading key assms(3)] U_Reading by (auto simp: all_mesgs_def)
  next
    case line
    with U_Reading assms(3) flags_zero [OF wf]
    have "k1 = (send (user_mesg (k_username k) (sp_buf (k_simpio k))) k)\<lparr>k_user := U_Top\<rparr>"
      by (simp add: user_step_def)
    with line U_Reading assms(1) show ?thesis
      by (simp add: all_mesgs_def session_mesgs_def to_send_def Let_def send_def client_wf_def user_mesg_text [OF wf])
  next
    case eof
    with U_Reading assms(3) flags_zero [OF wf] have "k1 = k\<lparr>k_user := U_Top\<rparr>"
      by (simp add: user_step_def)
    with eof U_Reading assms(1) show ?thesis
      by (simp add: all_mesgs_def to_send_def Let_def client_wf_def)
  qed
qed (use assms(2) in simp)

text \<open>The server thread writes to the terminal and leaves the editor alone.\<close>

definition same_user :: "chat_client \<Rightarrow> chat_client \<Rightarrow> bool" where
  "same_user k k1 \<longleftrightarrow> k_simpio k1 = k_simpio k \<and> io_in (k_io k1) = io_in (k_io k)
     \<and> k_username k1 = k_username k \<and> k_sent k1 = k_sent k \<and> k_user k1 = k_user k"

lemma show_mesg_frame: "show_mesg m k = Inr k1 \<Longrightarrow> same_user k k1"
  by (auto simp: show_mesg_def same_user_def iprintf_io split: option.splits)

lemma server_step_frame:
  assumes "server_step k = Inr k1"
  shows "same_user k k1"
proof -
  obtain m ms k2 where k2: "show_mesg m (k\<lparr>k_inbox := ms\<rparr>) = Inr k2" "k_inbox k = m # ms"
      "k1 = (if m_kind m = kind_code BL_SHUTDOWN
             then k2\<lparr>k_io := out [LF] (k_io k2), k_server_alive := False, k_user_alive := False\<rparr> else k2)"
    using assms by (auto simp: server_step_def split: list.splits)
  from show_mesg_frame [OF k2(1)] show ?thesis by (simp add: k2(3) same_user_def out_def)
qed

lemma same_user_mesgs:
  "same_user k k1 \<Longrightarrow> client_wf k \<Longrightarrow>
   client_wf k1 \<and> all_mesgs k1 = all_mesgs k \<and> k_username k1 = k_username k"
  by (simp add: same_user_def client_wf_def all_mesgs_def to_send_def)

lemma client_step_mesgs:
  assumes "client_step k k1" and "client_wf k"
  shows "client_wf k1 \<and> all_mesgs k1 = all_mesgs k \<and> k_username k1 = k_username k"
  using assms(1)
proof (cases rule: client_step.cases)
  case user
  from user_step_mesgs [OF assms(2) user(2,3)] show ?thesis .
next
  case server
  from same_user_mesgs [OF server_step_frame [OF server(2)] assms(2)] show ?thesis .
next
  case (arrival m)
  then have "same_user k k1" by (simp add: same_user_def)
  from same_user_mesgs [OF this assms(2)] show ?thesis .
qed

lemma client_reach_mesgs:
  "client_reach k0 k \<Longrightarrow> client_wf k0 \<Longrightarrow> client_wf k \<and> all_mesgs k = all_mesgs k0"
  by (induction rule: client_reach.induct) (auto dest: client_step_mesgs)

lemma client_start_mesgs:
  assumes "simpio_wf s" and "sp_end_of_input s = 0"
  shows "client_wf (client_start s u i) \<and> all_mesgs (client_start s u i) = session_mesgs u (session [] i)"
  using assms flags_zero(2) [of s]
  by (simp add: client_wf_def client_start_def all_mesgs_def to_send_def Let_def)

section \<open>The user thread comes to its end\<close>

fun user_run :: "nat \<Rightarrow> chat_client \<Rightarrow> chat_client res" where
  "user_run 0 k = Inr k"
| "user_run (Suc n) k = rbind (user_step k) (user_run n)"

text \<open>An upper bound of the steps to come.\<close>

definition steps_left :: "chat_client \<Rightarrow> nat" where
  "steps_left k =
     (let e = editor_of (k_simpio k); l = 4 * length (io_in (k_io k)) in
      case k_user k of
        U_Done \<Rightarrow> 0
      | U_Top \<Rightarrow> if ed_ended e then 1 else l + 5
      | U_Prompt \<Rightarrow> if ed_ended e then 3 else if ed_entered e then l + 7 else l + 4
      | U_Reading \<Rightarrow> if ed_ended e then 2 else if ed_entered e then l + 6 else l + 3)"

definition prompt_ok :: "simpio_t \<Rightarrow> bool" where
  "prompt_ok s \<longleftrightarrow> length (cstr (sp_prompt s)) < MAXNAME"

lemma simpio_wf_prompt: "simpio_wf s \<Longrightarrow> c_string (sp_prompt s) = Inr (cstr (sp_prompt s)) \<and> prompt_ok s"
  using cstr_length_nul [of "sp_prompt s"] by (simp add: simpio_wf_def c_string_def prompt_ok_def)

lemma empty_buf: "b ! 0 = NUL \<Longrightarrow> b \<noteq> [] \<Longrightarrow> c_string b = Inr []"
  by (cases b) (auto simp: c_string_def cstr_def)

lemma wf_buf:
  assumes "simpio_wf s"
  shows "c_string (sp_buf s) = Inr (cstr (ed_text (editor_of s)))" and "length (cstr (ed_text (editor_of s))) < MAXLINE"
proof -
  obtain n where n: "n < MAXLINE" "length (sp_buf s) = MAXLINE" "sp_buf s ! n = NUL"
      "ed_text (editor_of s) = take n (sp_buf s)"
    using assms by (rule simpio_wf_pos)
  then have "NUL \<in> set (sp_buf s)" by (metis nth_mem)
  with n show "c_string (sp_buf s) = Inr (cstr (ed_text (editor_of s)))" by (simp add: c_string_def cstr_take_nul)
  show "length (cstr (ed_text (editor_of s))) < MAXLINE" using n length_cstr_le [of "ed_text (editor_of s)"] by simp
qed

text \<open>What \<open>iprintf\<close> shows: the text, and under it the prompt and what is typed.\<close>

definition redrawn :: "simpio_t \<Rightarrow> string \<Rightarrow> string" where
  "redrawn s t = erase_line @ t @ cstr (sp_prompt s) @ cstr (ed_text (editor_of s))"

lemma iprintf_redraws:
  assumes "simpio_wf s" and "length t < MAXLINE"
    and "5 + length t + length (cstr (sp_prompt s)) + length (cstr (ed_text (editor_of s))) < 2 * MAXLINE"
  shows "iprintf s t io = Inr (out (redrawn s t) io)"
  unfolding redrawn_def using simpio_wf_prompt [OF assms(1)] wf_buf [OF assms(1)] assms(2,3) by (intro iprintf_ok) auto

lemma new_prompt:
  assumes "simpio_wf s"
  shows "iprintf s [] io = Inr (out (redrawn s []) io)"
  using assms wf_buf(2) [OF assms] simpio_wf_prompt [OF assms] by (intro iprintf_redraws) (auto simp: prompt_ok_def)

lemma user_step_progress:
  assumes "client_wf k" and "k_user k \<noteq> U_Done"
  shows "\<exists>k1. user_step k = Inr k1 \<and> steps_left k1 < steps_left k"
proof -
  have wf: "simpio_wf (k_simpio k)" using assms(1) by (simp add: client_wf_def)
  let ?e = "editor_of (k_simpio k)"
  consider (top) "k_user k = U_Top" "\<not> ed_ended ?e" | (prompt) "k_user k = U_Prompt" | (last) "k_user k = U_Top" "ed_ended ?e"
    | (key) "k_user k = U_Reading" "\<not> ed_entered ?e" "\<not> ed_ended ?e"
    | (leave) "k_user k = U_Reading" "ed_entered ?e \<or> ed_ended ?e"
    using assms(2) by (cases "k_user k") auto
  then show ?thesis
  proof cases
    case top
    then show ?thesis
      using simpio_reset_wf [OF wf] flags_zero [OF wf]
      by (auto simp: user_step_def steps_left_def Let_def)
  next
    case prompt
    then show ?thesis
      using new_prompt [OF wf, of "k_io k"] by (simp add: user_step_def steps_left_def Let_def out_def)
  next
    case last
    then show ?thesis using flags_zero [OF wf]
      by (simp add: user_step_def steps_left_def Let_def send_def)
  next
    case key
    obtain s1 io1 where s1: "simpio_get_char (k_simpio k) (k_io k) = Inr (s1, io1)"
        "editor_of s1 = press (next_key (io_in (k_io k))) ?e" "io_in io1 = tl (io_in (k_io k))"
      using get_char_refines [OF wf, of "k_io k"] by (auto simp: out_def)
    then show ?thesis
      using key flags_zero [OF wf]
      by (cases "io_in (k_io k)")
        (auto simp: user_step_def steps_left_def Let_def press_def next_key_def key_ends_def)
  next
    case leave
    then show ?thesis using flags_zero [OF wf]
      by (auto simp: user_step_def steps_left_def Let_def send_def)
  qed
qed

lemma user_run_ends:
  assumes "client_wf k"
  shows "\<exists>n k1. n \<le> steps_left k \<and> user_run n k = Inr k1 \<and> k_user k1 = U_Done
    \<and> k_sent k1 = all_mesgs k"
  using assms
proof (induction "steps_left k" arbitrary: k rule: less_induct)
  case less
  show ?case
  proof (cases "k_user k = U_Done")
    case True
    then show ?thesis by (intro exI [of _ 0]) (simp add: all_mesgs_def)
  next
    case False
    obtain k1 where k1: "user_step k = Inr k1" "steps_left k1 < steps_left k"
      using user_step_progress [OF less.prems False] by blast
    note mesgs = user_step_mesgs [OF less.prems False k1(1)]
    with less.hyps [OF k1(2)] obtain n k2 where "n \<le> steps_left k1" "user_run n k1 = Inr k2"
        "k_user k2 = U_Done" "k_sent k2 = all_mesgs k1" by blast
    with k1 mesgs show ?thesis by (intro exI [of _ "Suc n"]) auto
  qed
qed

section \<open>The server thread shows what it reads\<close>

fun server_run :: "nat \<Rightarrow> chat_client \<Rightarrow> chat_client res" where
  "server_run 0 k = Inr k"
| "server_run (Suc n) k = rbind (server_step k) (server_run n)"

text \<open>A text for which \<open>iprintf\<close> has room: its bound for the text, and its array for the line as it is.\<close>

definition fits :: "chat_client \<Rightarrow> string \<Rightarrow> bool" where
  "fits k t \<longleftrightarrow> length t < MAXLINE
     \<and> 5 + length t + length (cstr (sp_prompt (k_simpio k))) + length (cstr (ed_text (editor_of (k_simpio k)))) < 2 * MAXLINE"

lemma show_mesg_fits:
  assumes "client_wf k" and "shown m = Inr (Some t)" and "fits k t"
  shows "show_mesg m k = Inr (k\<lparr>k_io := out (redrawn (k_simpio k) t) (k_io k)\<rparr>)"
  using assms iprintf_redraws [of "k_simpio k" t] by (simp add: show_mesg_def fits_def client_wf_def)

lemma show_mesg_long:
  assumes "client_wf k" and "shown m = Inr (Some t)" and "MAXLINE < length t"
    and "5 + length t + length (cstr (sp_prompt (k_simpio k))) < 2 * MAXLINE"
  shows "show_mesg m k = undef Uninitialised"
proof -
  have wf: "simpio_wf (k_simpio k)" using assms(1) by (simp add: client_wf_def)
  have "iprintf (k_simpio k) t (k_io k) = undef Uninitialised"
    using simpio_wf_prompt [OF wf] wf_buf [OF wf] assms(3,4) by (intro iprintf_long) auto
  then show ?thesis by (simp add: show_mesg_def assms(2))
qed

lemma server_run_shows:
  assumes "client_wf k" and "k_inbox k = ms" and "map shown ms = map (\<lambda>t. Inr (Some t)) ts"
    and "\<forall>t \<in> set ts. fits k t" and "\<forall>m \<in> set ms. m_kind m \<noteq> kind_code BL_SHUTDOWN"
  shows "server_run (length ms) k
    = Inr (k\<lparr>k_inbox := [], k_io := out (concat (map (redrawn (k_simpio k)) ts)) (k_io k)\<rparr>)"
  using assms
proof (induction ms arbitrary: k ts)
  case Nil
  then show ?case by (simp add: out_def)
next
  case (Cons m ms)
  then obtain t us where ts: "ts = t # us" "shown m = Inr (Some t)" "map shown ms = map (\<lambda>t. Inr (Some t)) us"
    by (cases ts) auto
  let ?k = "k\<lparr>k_inbox := ms, k_io := out (redrawn (k_simpio k) t) (k_io k)\<rparr>"
  have wf: "client_wf (k\<lparr>k_inbox := ms\<rparr>)" "fits (k\<lparr>k_inbox := ms\<rparr>) t"
    using Cons.prems(1,4) ts(1) by (simp_all add: client_wf_def fits_def)
  have "server_step k = Inr ?k"
    using Cons.prems(2,5) show_mesg_fits [OF wf(1) ts(2) wf(2)] by (simp add: server_step_def)
  moreover have "client_wf ?k" "\<forall>t \<in> set us. fits ?k t"
    using Cons.prems(1,4) ts(1) by (simp_all add: client_wf_def fits_def)
  then have "server_run (length ms) ?k
      = Inr (?k\<lparr>k_inbox := [], k_io := out (concat (map (redrawn (k_simpio ?k)) us)) (k_io ?k)\<rparr>)"
    using Cons.prems(5) ts(3) by (intro Cons.IH) simp_all
  ultimately show ?case by (simp add: ts(1) out_def)
qed

section \<open>Names\<close>

lemma fifo_suffix_fits:
  assumes "0 \<le> pid" and "pid \<le> INT_MAX"
  shows "fifo_suffix pid = Inr (show_int pid @ ''.fifo'')"
proof -
  have "length (show_nat (nat pid)) \<le> 10" using assms by (intro length_show_nat) auto
  then show ?thesis using assms by (simp add: fifo_suffix_def show_int_def)
qed

text \<open>What the server thread displays for the messages of a client with a short name.\<close>

lemma user_mesg_parts:
  "m_kind (user_mesg u b) = kind_code BL_MESG" "m_name (user_mesg u b) = strncpy_bytes MAXNAME u"
  "m_body (user_mesg u b) = strncpy_bytes MAXLINE (cstr b)"
  by (simp_all add: user_mesg_def put_body_def put_name_short mesg_zero_def)

lemma shown_user_mesg:
  assumes "NUL \<notin> set u" and "length u < MAXNAME" and "NUL \<notin> set t" and "length t < MAXLINE"
  shows "shown (user_mesg u t) = Inr (Some (''['' @ u @ ''] : '' @ t @ [LF]))"
  using cstr_strncpy [OF assms(1,2), of "strncpy_bytes MAXLINE (cstr t)"]
    cstr_strncpy [OF assms(3,4), of "[]"]
  by (simp add: shown_def user_mesg_parts name_text_def body_text_def cstr_id [OF assms(3)])

section \<open>Properties\<close>

text \<open>
  C9. Whatever the interleaving of the two threads and the arriving messages, the client has at
  every moment sent a prefix of: one message for each entered line, in order, then the notice
  that it departed; and exactly that when its user thread has ended.
\<close>

theorem client_sends_lines:
  assumes "client_reach (client_start s u input) k" and "simpio_wf s" and "sp_end_of_input s = 0"
  shows "prefix (k_sent k) (session_mesgs u (session [] input))
    \<and> (k_user k = U_Done \<longrightarrow> k_sent k = session_mesgs u (session [] input))"
proof -
  have "all_mesgs k = session_mesgs u (session [] input)"
    using client_reach_mesgs [OF assms(1)] client_start_mesgs [OF assms(2,3)] by simp
  then show ?thesis unfolding all_mesgs_def prefix_def by (metis append_Nil2)
qed

theorem client_sends_lines_witness:
  "\<exists>k. client_reach (client_start simpio_zero ''bob'' ''hi\<newline>'') k \<and> k_user k = U_Reading
    \<and> prefix (k_sent k) [user_mesg ''bob'' ''hi'', departed_mesg ''bob'']"
proof -
  let ?k = "client_start simpio_zero ''bob'' ''hi\<newline>''"
  obtain k0 where k0: "user_step ?k = Inr k0" "k_user k0 = U_Prompt" "k_user_alive k0" "simpio_wf (k_simpio k0)"
    using simpio_reset_wf [OF simpio_zero_wf] by (auto simp: user_step_def client_start_def simpio_zero_def)
  obtain k1 where k1: "user_step k0 = Inr k1" "k_user k1 = U_Reading"
    using new_prompt [OF k0(4), of "k_io k0"] k0(2) by (auto simp: user_step_def)
  have "k_user_alive ?k" "k_user ?k \<noteq> U_Done" by (simp_all add: client_start_def)
  then have "client_reach ?k k0" using k0(1) by (blast intro: client_reach.intros client_step.user)
  moreover have "client_step k0 k1" using k0(2,3) k1(1) by (intro client_step.user) simp_all
  ultimately have "client_reach ?k k1" by (rule client_reach.step)
  moreover have "session [] ''hi\<newline>'' = [''hi'']" by (simp add: key_enters_def key_text_def)
  ultimately show ?thesis
    using client_sends_lines [of simpio_zero "''bob''" "''hi\<newline>''" k1] simpio_zero_wf k1(2)
    by (auto simp: simpio_zero_def session_mesgs_def)
qed

text \<open>
  C30. The user thread ends: on any input, left alone, it returns after at most four steps for each
  byte of input and five more, and has then sent every message of the session.
\<close>

theorem user_thread_finishes:
  assumes "simpio_wf s" and "sp_end_of_input s = 0"
  shows "\<exists>n k. n \<le> 4 * length input + 5 \<and> user_run n (client_start s u input) = Inr k
    \<and> k_user k = U_Done \<and> k_sent k = session_mesgs u (session [] input)"
proof -
  let ?k = "client_start s u input"
  note start = client_start_mesgs [OF assms, of u input]
  have "steps_left ?k = 4 * length input + 5"
    using flags_zero(2) [OF assms(1)] assms(2) by (simp add: steps_left_def client_start_def Let_def)
  with user_run_ends [of ?k] start show ?thesis by auto
qed

theorem user_thread_finishes_witness:
  "\<exists>n k. n \<le> 29 \<and> user_run n (client_start simpio_zero ''bob'' ''hi\<newline>yo\<newline>'') = Inr k
    \<and> k_user k = U_Done
    \<and> k_sent k = [user_mesg ''bob'' ''hi'', user_mesg ''bob'' ''yo'', departed_mesg ''bob'']"
  using user_thread_finishes [OF simpio_zero_wf, of "''hi\<newline>yo\<newline>''" "''bob''"]
  by (simp add: simpio_zero_def session_mesgs_def key_enters_def key_text_def)

text \<open>
  What one client types is what another displays: the message made of a name of less than 256
  characters and a line of less than 1024 is shown with that name and that line.
\<close>

theorem shown_as_typed:
  assumes "NUL \<notin> set u" and "length u < MAXNAME" and "NUL \<notin> set t" and "length t < MAXLINE"
  shows "shown (user_mesg u t) = Inr (Some (''['' @ u @ ''] : '' @ t @ [LF]))"
  using assms by (rule shown_user_mesg)

theorem shown_as_typed_witness:
  "shown (user_mesg ''bob'' ''hello'') = Inr (Some ''[bob] : hello\<newline>'')"
  using shown_as_typed [of "''bob''" "''hello''"] by simp

end
