(* ===== verification/Chat_Terminal.thy ===== *)
theory Chat_Terminal
  imports Prelude "HOL-Library.Word"
begin

unbundle bit_operations_syntax

text \<open>
  \<open>Unix_Chat_Service/simpio.c\<close>, the two functions that switch the terminal driver, and the part of
  \<open>termios.h\<close> they use. The client calls the first before its threads start and the second when
  they have ended.
\<close>

section \<open>The terminal driver\<close>

text \<open>The flags of a terminal and its control characters; two bits of the local flags matter here.\<close>

record termios =
  c_iflag :: "32 word"
  c_oflag :: "32 word"
  c_cflag :: "32 word"
  c_lflag :: "32 word"
  c_cc :: "8 word list"

abbreviation ICANON :: "32 word" where "ICANON \<equiv> 0x2"
abbreviation ECHO :: "32 word" where "ECHO \<equiv> 0x8"

definition termios_zero :: termios where
  "termios_zero = \<lparr>c_iflag = 0, c_oflag = 0, c_cflag = 0, c_lflag = 0, c_cc = replicate 32 0\<rparr>"

text \<open>
  The settings of the terminal that is standard input (none when it is no terminal), the two
  static variables of the file, and whether standard output is buffered.
\<close>

record tty =
  y_settings :: "termios option"
  y_oldt :: termios
  y_newt :: termios
  y_buffered :: bool

text \<open>Without a terminal both calls fail and change nothing.\<close>

definition tcgetattr :: "tty \<Rightarrow> termios \<Rightarrow> termios" where
  "tcgetattr y t = (case y_settings y of None \<Rightarrow> t | Some u \<Rightarrow> u)"

definition tcsetattr :: "termios \<Rightarrow> tty \<Rightarrow> tty" where
  "tcsetattr t y = (if y_settings y = None then y else y\<lparr>y_settings := Some t\<rparr>)"

section \<open>The code\<close>

definition simpio_noncanonical_terminal_mode :: "tty \<Rightarrow> tty" where
  "simpio_noncanonical_terminal_mode y =
     (let y1 = y\<lparr>y_buffered := False\<rparr>;
          y2 = y1\<lparr>y_oldt := tcgetattr y1 (y_oldt y1)\<rparr>;
          newt = y_oldt y2;
          y3 = y2\<lparr>y_newt := newt\<lparr>c_lflag := c_lflag newt AND NOT (ICANON OR ECHO)\<rparr>\<rparr>
      in tcsetattr (y_newt y3) y3)"

definition simpio_reset_terminal_mode :: "tty \<Rightarrow> tty" where
  "simpio_reset_terminal_mode y = tcsetattr (y_oldt y) y"

section \<open>Properties\<close>

text \<open>The settings in which every key is available at once and not echoed.\<close>

definition raw_of :: "termios \<Rightarrow> termios \<Rightarrow> bool" where
  "raw_of t u \<longleftrightarrow> (\<forall>n < 32. bit (c_lflag u) n \<longleftrightarrow> bit (c_lflag t) n \<and> n \<noteq> 1 \<and> n \<noteq> 3)
     \<and> u = t\<lparr>c_lflag := c_lflag u\<rparr>"

lemma mode_bits: "bit (ICANON OR ECHO) n \<longleftrightarrow> n = 1 \<or> n = 3"
proof -
  have "ICANON = push_bit 1 1" "ECHO = push_bit 3 1" by simp_all
  then show ?thesis by (auto simp only: bit_or_iff bit_push_bit_iff bit_1_iff possible_bit_word) auto
qed

lemma raw_settings: "raw_of t (t\<lparr>c_lflag := c_lflag t AND NOT (ICANON OR ECHO)\<rparr>)"
proof -
  have "bit (c_lflag t AND NOT (ICANON OR ECHO)) n \<longleftrightarrow> bit (c_lflag t) n \<and> n \<noteq> 1 \<and> n \<noteq> 3" if "n < 32" for n
    using that mode_bits [of n] by (simp only: bit_and_iff bit_not_iff possible_bit_word) auto
  then show ?thesis unfolding raw_of_def termios.select_convs by simp
qed

text \<open>Set and reset, the terminal has the settings it had.\<close>

lemma mode_reset:
  "y_settings (simpio_reset_terminal_mode (simpio_noncanonical_terminal_mode y)) = y_settings y"
  by (simp add: simpio_noncanonical_terminal_mode_def simpio_reset_terminal_mode_def
      tcgetattr_def tcsetattr_def Let_def split: option.splits)

text \<open>
  While the client runs, exactly the line mode and the echo of the terminal are off, and
  everything else is as it was; after the client has reset it, the terminal has the settings
  it had. Where there is no terminal, nothing is set.
\<close>

theorem terminal_restored:
  "case y_settings y of
     None \<Rightarrow> y_settings (simpio_noncanonical_terminal_mode y) = None
       \<and> y_settings (simpio_reset_terminal_mode (simpio_noncanonical_terminal_mode y)) = None
   | Some t \<Rightarrow> (\<exists>u. y_settings (simpio_noncanonical_terminal_mode y) = Some u \<and> raw_of t u)
       \<and> y_settings (simpio_reset_terminal_mode (simpio_noncanonical_terminal_mode y)) = Some t"
  using raw_settings
  by (auto simp: simpio_noncanonical_terminal_mode_def simpio_reset_terminal_mode_def
      tcgetattr_def tcsetattr_def Let_def split: option.splits)

definition sample_tty :: tty where
  "sample_tty = \<lparr>y_settings = Some (termios_zero\<lparr>c_lflag := 0x8A3B\<rparr>), y_oldt = termios_zero,
     y_newt = termios_zero, y_buffered = True\<rparr>"

end
