(* ===== verification/Chat_Demo.thy ===== *)
theory Chat_Demo
  imports Chat_Client Chat_Terminal
begin

text \<open>
  \<open>Unix_Chat_Service/simpio-demo.c\<close>: the program that shows the line editor. Its user thread
  numbers the lines that are entered, its background thread prints a text every three seconds
  until it is cancelled. A step is one call of \<open>simpio_reset\<close>, \<open>simpio_get_char\<close> or
  \<open>iprintf\<close>, as in \<^theory_text>\<open>Chat_Client\<close>; a schedule says which thread takes which step.
\<close>

section \<open>The code\<close>

record demo =
  d_simpio :: simpio_t
  d_io :: term_io
  d_tty :: tty
  d_user :: user_pc
  d_count :: int
  d_turn :: int
  d_background :: bool

text \<open>The texts of the two calls of \<open>iprintf\<close>; \<open>%2d\<close> fills up with a space on the left.\<close>

definition entered_text :: "int \<Rightarrow> string \<Rightarrow> string" where
  "entered_text n t =
     (let k = show_int n in replicate (2 - length k) SP @ k @ '' You entered: '' @ t @ [LF])"

definition background_text :: "string list" where
  "background_text = [''Background text #1'', ''Background text #2'', ''Background text #3'']"

definition note_text :: "int \<Rightarrow> string" where
  "note_text i = ''BKGND: '' @ background_text ! nat (i mod 3) @ [LF]"

definition succ_int :: "int \<Rightarrow> int res" where
  "succ_int i = (if i = INT_MAX then undef Signed_Overflow else Inr (i + 1))"

definition user_worker :: "demo \<Rightarrow> demo res" where
  "user_worker d =
     (let s = d_simpio d in
      case d_user d of
        U_Top \<Rightarrow>
          if sp_end_of_input s = 0 then
            map_res (\<lambda>s1. d\<lparr>d_simpio := s1, d_user := U_Prompt\<rparr>) (simpio_reset s)
          else Inr (d\<lparr>d_user := U_Done, d_background := False\<rparr>)
      | U_Prompt \<Rightarrow> map_res (\<lambda>io1. d\<lparr>d_io := io1, d_user := U_Reading\<rparr>) (iprintf s [] (d_io d))
      | U_Reading \<Rightarrow>
          if sp_line_ready s = 0 \<and> sp_end_of_input s = 0 then
            map_res (\<lambda>(s1, io1). d\<lparr>d_simpio := s1, d_io := io1\<rparr>) (simpio_get_char s (d_io d))
          else if sp_line_ready s \<noteq> 0 then
            rbind (c_string (sp_buf s)) (\<lambda>t.
            rbind (iprintf s (entered_text (d_count d) t) (d_io d)) (\<lambda>io1.
            map_res (\<lambda>n. d\<lparr>d_io := io1, d_count := n, d_user := U_Top\<rparr>) (succ_int (d_count d))))
          else Inr (d\<lparr>d_user := U_Top\<rparr>)
      | U_Done \<Rightarrow> Inr d)"

definition background_worker :: "demo \<Rightarrow> demo res" where
  "background_worker d =
     rbind (iprintf (d_simpio d) (note_text (d_turn d)) (d_io d)) (\<lambda>io1.
     map_res (\<lambda>i. d\<lparr>d_io := io1, d_turn := i\<rparr>) (succ_int (d_turn d)))"

datatype demo_thread = User_Thread | Background_Thread

text \<open>A thread that has returned or is cancelled takes no step.\<close>

definition demo_step :: "demo_thread \<Rightarrow> demo \<Rightarrow> demo res" where
  "demo_step th d =
     (case th of
        User_Thread \<Rightarrow> user_worker d
      | Background_Thread \<Rightarrow> if d_background d then background_worker d else Inr d)"

fun demo_run :: "demo_thread list \<Rightarrow> demo \<Rightarrow> demo res" where
  "demo_run [] d = Inr d"
| "demo_run (th # ths) d = rbind (demo_step th d) (demo_run ths)"

text \<open>
  \<open>main\<close> up to the start of the threads and, when both are joined, to its end. The editor is a
  global variable: it holds zeros.
\<close>

definition demo_start :: "tty \<Rightarrow> string \<Rightarrow> demo res" where
  "demo_start y input =
     map_res (\<lambda>s. \<lparr>d_simpio = s, d_io = \<lparr>io_in = input, io_out = []\<rparr>,
         d_tty = simpio_noncanonical_terminal_mode y, d_user = U_Top, d_count = 1, d_turn = 0,
         d_background = True\<rparr>)
       (simpio_reset (simpio_set_prompt simpio_zero (snprintf MAXNAME ''fgnd>> '')))"

definition demo_end :: "demo \<Rightarrow> demo" where
  "demo_end d =
     (if d_user d = U_Done
      then d\<lparr>d_tty := simpio_reset_terminal_mode (d_tty d), d_io := out [LF] (d_io d)\<rparr> else d)"

definition demo_main :: "tty \<Rightarrow> demo_thread list \<Rightarrow> string \<Rightarrow> demo res" where
  "demo_main y ths input = map_res demo_end (rbind (demo_start y input) (demo_run ths))"

section \<open>What the terminal shows\<close>

text \<open>
  The events of a run: the line is cleared, shown with its prompt, a key, the confirmation of a line, a
  text of the background thread. What an event displays depends on the text typed so far.
\<close>

datatype event = Cleared | Fresh | Key char | Confirm int | Note int

fun typed :: "string \<Rightarrow> event list \<Rightarrow> string" where
  "typed t [] = t"
| "typed t (Cleared # es) = typed [] es"
| "typed t (Fresh # es) = typed t es"
| "typed t (Key c # es) = typed (key_text (Some c) t) es"
| "typed t (Confirm n # es) = typed t es"
| "typed t (Note i # es) = typed t es"

definition demo_line :: "string \<Rightarrow> string \<Rightarrow> string" where
  "demo_line msg t = erase_line @ msg @ ''fgnd>> '' @ cstr t"

fun displayed :: "string \<Rightarrow> event list \<Rightarrow> string" where
  "displayed t [] = []"
| "displayed t (Cleared # es) = displayed [] es"
| "displayed t (Fresh # es) = demo_line [] t @ displayed t es"
| "displayed t (Key c # es) = key_echo (Some c) t @ displayed (key_text (Some c) t) es"
| "displayed t (Confirm n # es) = demo_line (entered_text n (cstr t)) t @ displayed t es"
| "displayed t (Note i # es) = demo_line (note_text i) t @ displayed t es"

text \<open>The keys, the confirmed lines with their numbers, and the background texts in a run.\<close>

fun keys_of :: "event list \<Rightarrow> string" where
  "keys_of [] = []"
| "keys_of (e # es) = (case e of Key c \<Rightarrow> c # keys_of es | _ \<Rightarrow> keys_of es)"

fun confirmed :: "string \<Rightarrow> event list \<Rightarrow> (int \<times> string) list" where
  "confirmed t [] = []"
| "confirmed t (e # es) =
     (case e of Confirm n \<Rightarrow> (n, t) # confirmed t es | _ \<Rightarrow> confirmed (typed t [e]) es)"

fun notes_of :: "event list \<Rightarrow> int list" where
  "notes_of [] = []"
| "notes_of (e # es) = (case e of Note i \<Rightarrow> i # notes_of es | _ \<Rightarrow> notes_of es)"

definition numbered :: "string list \<Rightarrow> (int \<times> string) list" where
  "numbered ls = zip [1..int (length ls)] ls"

lemma typed_append: "typed t (es @ fs) = typed (typed t es) fs"
  by (induction t es rule: typed.induct) auto

lemma displayed_append: "displayed t (es @ fs) = displayed t es @ displayed (typed t es) fs"
  by (induction t es rule: typed.induct) auto

lemma keys_append: "keys_of (es @ fs) = keys_of es @ keys_of fs"
  by (induction es) (auto split: event.splits)

lemma notes_append: "notes_of (es @ fs) = notes_of es @ notes_of fs"
  by (induction es) (auto split: event.splits)

lemma confirmed_append: "confirmed t (es @ fs) = confirmed t es @ confirmed (typed t es) fs"
  by (induction t es rule: typed.induct) auto

lemmas event_appends = typed_append displayed_append keys_append notes_append confirmed_append

lemma numbered_snoc: "numbered (ls @ [l]) = numbered ls @ [(int (length ls) + 1, l)]"
proof -
  have "[1..int (length ls) + 1] = [1..int (length ls)] @ [int (length ls) + 1]"
    using upto_rec2 [of 1 "int (length ls) + 1"] by simp
  then show ?thesis by (simp add: numbered_def zip_append1 add.commute)
qed

section \<open>One step\<close>

text \<open>The longest line for which \<open>iprintf\<close> certainly stays within its array, and the number of
lines and texts that \<open>int\<close> can count.\<close>

abbreviation SHORT_LINE :: nat where "SHORT_LINE \<equiv> 998"

definition as_client :: "demo \<Rightarrow> chat_client" where
  "as_client d =
     \<lparr>k_simpio = d_simpio d, k_io = d_io d, k_username = [], k_sent = [], k_inbox = [],
      k_user = d_user d, k_user_alive = True, k_server_alive = True\<rparr>"

definition demo_inv :: "string \<Rightarrow> event list \<Rightarrow> string list \<Rightarrow> demo \<Rightarrow> bool" where
  "demo_inv input es ls d \<longleftrightarrow>
     simpio_wf (d_simpio d) \<and> cstr (sp_prompt (d_simpio d)) = ''fgnd>> ''
     \<and> ed_text (editor_of (d_simpio d)) = typed [] es
     \<and> io_out (d_io d) = displayed [] es \<and> keys_of es @ io_in (d_io d) = input
     \<and> confirmed [] es = numbered ls \<and> ls @ to_send (as_client d) = session [] input
     \<and> d_count d = int (length ls) + 1
     \<and> notes_of es = [0..d_turn d - 1] \<and> 0 \<le> d_turn d
     \<and> int (length ls) + d_turn d \<le> int (length es)
     \<and> d_background d = (d_user d \<noteq> U_Done)"

text \<open>A text of the demo above what is typed.\<close>

lemma demo_print:
  assumes "simpio_wf s" and "cstr (sp_prompt s) = ''fgnd>> ''" and "t = ed_text (editor_of s)"
    and "length msg < MAXLINE" and "length msg + length t < 2 * MAXLINE - 12"
  shows "iprintf s msg io = Inr (out (demo_line msg t) io)"
proof -
  have "c_string (sp_prompt s) = Inr ''fgnd>> ''" using simpio_wf_prompt [OF assms(1)] assms(2) by simp
  moreover have "c_string (sp_buf s) = Inr (cstr t)" using wf_buf [OF assms(1)] assms(3) by simp
  ultimately show ?thesis
    unfolding demo_line_def using assms(4,5) length_cstr_le [of t] by (intro iprintf_ok) auto
qed


text \<open>
  What a step of the user thread leaves: the invariant, for at most one more event, the terminal
  as it is, and fewer steps to come.
\<close>

definition goes_on :: "string \<Rightarrow> event list \<Rightarrow> demo \<Rightarrow> demo res \<Rightarrow> bool" where
  "goes_on input es d r \<longleftrightarrow>
     (\<exists>es1 ls1 d1. r = Inr d1 \<and> demo_inv input es1 ls1 d1 \<and> length es1 \<le> Suc (length es)
       \<and> d_tty d1 = d_tty d \<and> steps_left (as_client d1) < steps_left (as_client d))"

lemma goes_onI:
  "r = Inr d1 \<Longrightarrow> demo_inv input evs lns d1 \<Longrightarrow> length evs \<le> Suc (length es) \<Longrightarrow>
   d_tty d1 = d_tty d \<Longrightarrow> steps_left (as_client d1) < steps_left (as_client d) \<Longrightarrow> goes_on input es d r"
  unfolding goes_on_def by blast

lemma demo_inv_wf: "demo_inv input es ls d \<Longrightarrow> simpio_wf (d_simpio d)"
  by (simp add: demo_inv_def)

lemma demo_fresh:
  assumes inv: "demo_inv input es ls d" and top: "d_user d = U_Top"
    and more_input: "\<not> ed_ended (editor_of (d_simpio d))"
  shows "goes_on input es d (user_worker d)"
proof -
  obtain s1 where s1: "simpio_reset (d_simpio d) = Inr s1" "simpio_wf s1"
      "sp_prompt s1 = sp_prompt (d_simpio d)"
      "editor_of s1 = \<lparr>ed_text = [], ed_entered = False, ed_ended = False\<rparr>"
    using simpio_reset_wf [OF demo_inv_wf [OF inv]] by blast
  then have "user_worker d = Inr (d\<lparr>d_simpio := s1, d_user := U_Prompt\<rparr>)"
    using top more_input flags_zero(2) [OF demo_inv_wf [OF inv]] by (simp add: user_worker_def)
  then show ?thesis
    by (rule goes_onI [where evs = "es @ [Cleared]" and lns = ls])
      (use inv top more_input s1 in \<open>simp_all add: demo_inv_def event_appends out_def to_send_def as_client_def steps_left_def Let_def\<close>)
qed

lemma demo_prompt:
  assumes inv: "demo_inv input es ls d" and pc: "d_user d = U_Prompt"
  shows "goes_on input es d (user_worker d)"
proof -
  let ?t = "ed_text (editor_of (d_simpio d))"
  obtain n where "n < MAXLINE" "?t = take n (sp_buf (d_simpio d))" using demo_inv_wf [OF inv] by (rule simpio_wf_pos)
  then have "length ?t \<le> MAXLINE" by simp
  then have "iprintf (d_simpio d) [] (d_io d) = Inr (out (demo_line [] ?t) (d_io d))"
    using inv by (intro demo_print) (auto simp: demo_inv_def)
  then have "user_worker d = Inr (d\<lparr>d_io := out (demo_line [] ?t) (d_io d), d_user := U_Reading\<rparr>)"
    using pc by (simp add: user_worker_def)
  then show ?thesis
    by (rule goes_onI [where evs = "es @ [Fresh]" and lns = ls])
      (use inv pc in \<open>simp_all add: demo_inv_def event_appends out_def to_send_def as_client_def steps_left_def Let_def\<close>)
qed

lemma demo_key:
  assumes inv: "demo_inv input es ls d" and pc: "d_user d = U_Reading"
    and reading: "\<not> ed_entered (editor_of (d_simpio d))" "\<not> ed_ended (editor_of (d_simpio d))"
  shows "goes_on input es d (user_worker d)"
proof -
  note wf = demo_inv_wf [OF inv]
  let ?c = "next_key (io_in (d_io d))" and ?t = "ed_text (editor_of (d_simpio d))"
  let ?io = "out (key_echo ?c ?t) ((d_io d)\<lparr>io_in := tl (io_in (d_io d))\<rparr>)"
  let ?es = "case ?c of None \<Rightarrow> es | Some c \<Rightarrow> es @ [Key c]"
  obtain s1 where s1: "simpio_get_char (d_simpio d) (d_io d) = Inr (s1, ?io)" "simpio_wf s1"
      "editor_of s1 = press ?c (editor_of (d_simpio d))" "sp_prompt s1 = sp_prompt (d_simpio d)"
    using get_char_refines [OF wf] by blast
  let ?d = "d\<lparr>d_simpio := s1, d_io := ?io\<rparr>"
  have "user_step (as_client d) = Inr (as_client ?d)"
    using pc reading flags_zero [OF wf] s1(1) by (simp add: user_step_def as_client_def)
  from user_step_reading [OF _ _ _ _ this] have send: "to_send (as_client ?d) = to_send (as_client d)"
    using pc reading wf by (simp add: as_client_def client_wf_def)
  have step: "user_worker d = Inr ?d"
    using pc reading flags_zero [OF wf] s1(1) by (simp add: user_worker_def)
  have steps: "steps_left (as_client ?d) < steps_left (as_client d)"
    using pc reading s1(3) by (cases "io_in (d_io d)")
      (auto simp: steps_left_def as_client_def Let_def out_def next_key_def press_def key_ends_def)
  have keys: "typed [] ?es = key_text ?c ?t" "displayed [] ?es = io_out ?io"
      "keys_of ?es @ io_in ?io = input" "confirmed [] ?es = confirmed [] es" "notes_of ?es = notes_of es"
      "length es \<le> length ?es" "length ?es \<le> Suc (length es)"
    using inv by (cases "io_in (d_io d)";
      simp add: demo_inv_def event_appends out_def next_key_def key_echo_def key_text_def)+
  have "demo_inv input ?es ls ?d"
    using inv s1(2-4) keys send unfolding demo_inv_def press_def by auto
  then show ?thesis using keys(7) steps by (intro goes_onI [OF step]) auto
qed

lemma length_entered_text: "1 \<le> n \<Longrightarrow> n \<le> INT_MAX \<Longrightarrow> length (entered_text n t) \<le> length t + 25"
proof -
  assume n: "1 \<le> n" "n \<le> INT_MAX"
  then have "length (show_nat (nat n)) \<le> 10" by (intro length_show_nat) auto
  with n show "length (entered_text n t) \<le> length t + 25"
    by (auto simp: entered_text_def show_int_def Let_def)
qed

lemma demo_confirm:
  assumes inv: "demo_inv input es ls d" and pc: "d_user d = U_Reading"
    and line: "ed_entered (editor_of (d_simpio d))"
    and short: "\<forall>l \<in> set (session [] input). length l \<le> SHORT_LINE"
    and bound: "int (length es) + 1 < INT_MAX"
  shows "goes_on input es d (user_worker d)"
proof -
  note wf = demo_inv_wf [OF inv]
  let ?t = "ed_text (editor_of (d_simpio d))" and ?n = "d_count d"
  have send: "to_send (as_client d) = ?t # to_send (as_client (d\<lparr>d_user := U_Top\<rparr>))"
    using pc line by (simp add: to_send_def as_client_def Let_def)
  then have "?t \<in> set (session [] input)"
    using inv unfolding demo_inv_def by (metis in_set_conv_decomp)
  with short have t: "length ?t \<le> SHORT_LINE" by blast
  have n: "1 \<le> ?n" "?n < INT_MAX" using inv bound by (auto simp: demo_inv_def)
  then have "length (entered_text ?n (cstr ?t)) \<le> length (cstr ?t) + 25"
    by (intro length_entered_text) auto
  then have "iprintf (d_simpio d) (entered_text ?n (cstr ?t)) (d_io d)
      = Inr (out (demo_line (entered_text ?n (cstr ?t)) ?t) (d_io d))"
    using inv t length_cstr_le [of ?t] by (intro demo_print) (auto simp: demo_inv_def)
  with pc line flags_zero [OF wf] wf_buf [OF wf] n have step: "user_worker d
      = Inr (d\<lparr>d_io := out (demo_line (entered_text ?n (cstr ?t)) ?t) (d_io d), d_count := ?n + 1, d_user := U_Top\<rparr>)"
    by (simp add: user_worker_def succ_int_def Let_def)
  show ?thesis
    by (rule goes_onI [OF step, where evs = "es @ [Confirm ?n]" and lns = "ls @ [?t]"])
      (use inv send pc line in \<open>auto simp: demo_inv_def event_appends out_def numbered_snoc as_client_def to_send_def steps_left_def Let_def split: if_splits\<close>)
qed

lemma demo_leave:
  assumes inv: "demo_inv input es ls d" and ended: "ed_ended (editor_of (d_simpio d))"
    and pc: "d_user d = U_Top \<or> d_user d = U_Reading \<and> \<not> ed_entered (editor_of (d_simpio d))"
  shows "goes_on input es d (user_worker d)"
proof -
  let ?d = "if d_user d = U_Top then d\<lparr>d_user := U_Done, d_background := False\<rparr> else d\<lparr>d_user := U_Top\<rparr>"
  have step: "user_worker d = Inr ?d"
    using pc ended flags_zero [OF demo_inv_wf [OF inv]] by (auto simp: user_worker_def Let_def)
  show ?thesis
    by (rule goes_onI [OF step, where evs = es and lns = ls])
      (use inv ended pc in \<open>auto simp: demo_inv_def as_client_def to_send_def steps_left_def Let_def\<close>)
qed


lemma demo_note:
  assumes inv: "demo_inv input es ls d" and bound: "int (length es) + 1 < INT_MAX"
  shows "\<exists>d1. background_worker d = Inr d1 \<and> demo_inv input (es @ [Note (d_turn d)]) ls d1
    \<and> d_tty d1 = d_tty d \<and> steps_left (as_client d1) = steps_left (as_client d)"
proof -
  let ?t = "ed_text (editor_of (d_simpio d))" and ?i = "d_turn d"
  note wf = demo_inv_wf [OF inv]
  have "background_text ! nat (?i mod 3) \<in> set background_text"
    by (rule nth_mem) (simp add: background_text_def nat_less_iff)
  then have len: "length (note_text ?i) \<le> 26" by (auto simp: note_text_def background_text_def)
  obtain n where "n < MAXLINE" "?t = take n (sp_buf (d_simpio d))" using wf by (rule simpio_wf_pos)
  then have "length ?t \<le> MAXLINE" by simp
  with len have "iprintf (d_simpio d) (note_text ?i) (d_io d) = Inr (out (demo_line (note_text ?i) ?t) (d_io d))"
    using inv by (intro demo_print) (auto simp: demo_inv_def)
  moreover have i: "0 \<le> ?i" "?i < INT_MAX" using inv bound by (auto simp: demo_inv_def)
  ultimately have step: "background_worker d
      = Inr (d\<lparr>d_io := out (demo_line (note_text ?i) ?t) (d_io d), d_turn := ?i + 1\<rparr>)"
    by (simp add: background_worker_def succ_int_def)
  have "[0..?i] = [0..?i - 1] @ [?i]" using i(1) by (rule upto_rec2)
  with step inv show ?thesis
    by (simp add: demo_inv_def event_appends out_def as_client_def to_send_def steps_left_def)
qed

text \<open>A step of either thread; a schedule.\<close>

lemma demo_user:
  assumes "demo_inv input es ls d" and "d_user d \<noteq> U_Done"
    and "\<forall>l \<in> set (session [] input). length l \<le> SHORT_LINE" and "int (length es) + 1 < INT_MAX"
  shows "goes_on input es d (user_worker d)"
  using demo_fresh [OF assms(1)] demo_prompt [OF assms(1)] demo_key [OF assms(1)] demo_confirm [OF assms(1) _ _ assms(3,4)]
    demo_leave [OF assms(1)] assms(2)
  by (cases "d_user d") blast+

lemma demo_step_ok:
  assumes "demo_inv input es ls d" and "\<forall>l \<in> set (session [] input). length l \<le> SHORT_LINE"
    and "int (length es) + 1 < INT_MAX"
  shows "\<exists>d1 es1 ls1. demo_step th d = Inr d1 \<and> demo_inv input es1 ls1 d1 \<and> length es1 \<le> Suc (length es)
    \<and> d_tty d1 = d_tty d
    \<and> steps_left (as_client d1) \<le> steps_left (as_client d) - (if th = User_Thread then 1 else 0)"
proof (cases th)
  case User_Thread
  show ?thesis
  proof (cases "d_user d = U_Done")
    case True
    with assms(1) User_Thread show ?thesis
      by (intro exI [of _ d] exI [of _ es] exI [of _ ls])
        (simp add: demo_step_def user_worker_def Let_def steps_left_def as_client_def)
  next
    case False
    from demo_user [OF assms(1) this assms(2,3)] User_Thread show ?thesis
      unfolding goes_on_def demo_step_def by fastforce
  qed
next
  case Background_Thread
  with assms(1) demo_note [OF assms(1,3)] show ?thesis unfolding demo_step_def by fastforce
qed

lemma demo_run_ok:
  assumes "demo_inv input es ls d" and "\<forall>l \<in> set (session [] input). length l \<le> SHORT_LINE"
    and "int (length es) + int (length ths) + 1 < INT_MAX"
  shows "\<exists>d1 es1 ls1. demo_run ths d = Inr d1 \<and> demo_inv input es1 ls1 d1 \<and> d_tty d1 = d_tty d
    \<and> steps_left (as_client d1) \<le> steps_left (as_client d) - count_list ths User_Thread"
  using assms(1,3)
proof (induction ths arbitrary: es ls d)
  case Nil
  then show ?case by auto
next
  case (Cons th ths)
  from Cons.prems(2) have "int (length es) + 1 < INT_MAX" by simp
  from demo_step_ok [OF Cons.prems(1) assms(2) this, of th] obtain d1 es1 ls1 where d1:
    "demo_step th d = Inr d1" "demo_inv input es1 ls1 d1" "length es1 \<le> Suc (length es)" "d_tty d1 = d_tty d"
    "steps_left (as_client d1) \<le> steps_left (as_client d) - (if th = User_Thread then 1 else 0)"
    by blast
  from d1(3) Cons.prems(2) have "int (length es1) + int (length ths) + 1 < INT_MAX" by simp
  from Cons.IH [OF d1(2) this] d1 show ?case by (fastforce split: if_splits)
qed

lemma demo_start_ok:
  "\<exists>d. demo_start y input = Inr d \<and> demo_inv input [] [] d
    \<and> d_tty d = simpio_noncanonical_terminal_mode y \<and> steps_left (as_client d) = 4 * length input + 5"
proof -
  let ?p = "snprintf MAXNAME ''fgnd>> ''"
  have p: "?p = ''fgnd>> ''" by (simp add: snprintf_def)
  let ?s = "simpio_set_prompt simpio_zero ?p"
  have prompt: "cstr (sp_prompt ?s) = ''fgnd>> ''" "NUL \<in> set (sp_prompt ?s)" "length (sp_prompt ?s) = MAXNAME"
    unfolding p using cstr_padded [of "''fgnd>> ''" "MAXNAME - 7"]
    by (simp_all add: simpio_set_prompt_def strncpy_bytes_def)
  then have "simpio_wf ?s" using simpio_zero_wf by (simp add: simpio_wf_def simpio_set_prompt_def)
  from simpio_reset_wf [OF this] obtain s1 where s1: "simpio_reset ?s = Inr s1" "simpio_wf s1"
      "sp_prompt s1 = sp_prompt ?s" "editor_of s1 = \<lparr>ed_text = [], ed_entered = False, ed_ended = False\<rparr>"
    by blast
  then show ?thesis
    by (simp add: demo_start_def demo_inv_def prompt(1) numbered_def to_send_def as_client_def steps_left_def)
qed

text \<open>
  A line that is too long for the buffer: the confirmation is cut, and \<open>iprintf\<close> sends bytes
  of its array that were never written.
\<close>

lemma demo_long_line:
  assumes "simpio_wf (d_simpio d)" and "d_user d = U_Reading" and "ed_entered (editor_of (d_simpio d))"
    and "cstr (sp_prompt (d_simpio d)) = ''fgnd>> ''" and "0 \<le> d_count d" and "d_count d \<le> INT_MAX"
    and "MAXLINE - 16 \<le> length (cstr (ed_text (editor_of (d_simpio d))))"
  shows "user_worker d = undef Uninitialised"
proof -
  let ?s = "d_simpio d" let ?t = "cstr (ed_text (editor_of ?s))"
  let ?k = "show_nat (nat (d_count d))" and ?msg = "entered_text (d_count d) ?t"
  have k: "length ?k \<le> 10" using assms(5,6) by (intro length_show_nat) auto
  have msg: "length ?msg = length ?t + 15 + max 2 (length ?k)"
    using assms(5) by (auto simp: entered_text_def show_int_def Let_def)
  obtain n where "n < MAXLINE" "ed_text (editor_of ?s) = take n (sp_buf ?s)"
    using assms(1) by (rule simpio_wf_pos)
  then have "length ?t < MAXLINE"
    using length_cstr_le [of "ed_text (editor_of ?s)"] by simp
  then have "iprintf ?s ?msg (d_io d) = undef Uninitialised"
    using simpio_wf_prompt [OF assms(1)] wf_buf [OF assms(1)] assms(4,7) msg k by (intro iprintf_long) auto
  then show ?thesis
    using assms(2,3) flags_zero [OF assms(1)] wf_buf [OF assms(1)] by (simp add: user_worker_def Let_def)
qed

section \<open>Properties\<close>

text \<open>
  C31. Whatever the schedule, while the lines are at most 998 characters long the demo stays
  defined and its terminal shows: the keys as they are echoed, one confirmation for each line
  entered, with its text and the numbers 1, 2, and so on, and the texts of the background
  thread in their order, each above the prompt and what is typed. After four turns of the
  user thread for each key and five more, all lines are confirmed, the background thread is
  cancelled and the settings of the terminal are restored.
\<close>

theorem demo_shows:
  assumes "\<forall>l \<in> set (session [] input). length l \<le> SHORT_LINE" and "int (length ths) + 1 < INT_MAX"
  shows "\<exists>d es ls. demo_main y ths input = Inr d
    \<and> io_out (d_io d) = displayed [] es @ (if d_user d = U_Done then [LF] else [])
    \<and> prefix (keys_of es) input \<and> notes_of es = [0..d_turn d - 1]
    \<and> confirmed [] es = numbered ls \<and> prefix ls (session [] input)
    \<and> (d_user d = U_Done \<longrightarrow> ls = session [] input \<and> \<not> d_background d \<and> y_settings (d_tty d) = y_settings y)
    \<and> (4 * length input + 5 \<le> count_list ths User_Thread \<longrightarrow> d_user d = U_Done)"
proof -
  obtain d0 where d0: "demo_start y input = Inr d0" "demo_inv input [] [] d0"
      "d_tty d0 = simpio_noncanonical_terminal_mode y" "steps_left (as_client d0) = 4 * length input + 5"
    using demo_start_ok by blast
  obtain d es ls where d: "demo_run ths d0 = Inr d" "demo_inv input es ls d" "d_tty d = d_tty d0"
      "steps_left (as_client d) \<le> 4 * length input + 5 - count_list ths User_Thread"
    using demo_run_ok [OF d0(2) assms(1), of ths] assms(2) d0(4) by auto
  have main: "demo_main y ths input = Inr (demo_end d)" by (simp add: demo_main_def d0(1) d(1))
  have finished: "d_user d = U_Done" if "4 * length input + 5 \<le> count_list ths User_Thread"
    using d(4) that by (auto simp: steps_left_def as_client_def Let_def split: user_pc.splits if_splits)
  have lines: "ls = session [] input \<and> \<not> d_background d" if "d_user d = U_Done"
    using d(2) that by (simp add: demo_inv_def to_send_def as_client_def Let_def)
  have shown: "io_out (d_io d) = displayed [] es" "prefix (keys_of es) input" "notes_of es = [0..d_turn d - 1]"
      "confirmed [] es = numbered ls" "prefix ls (session [] input)"
    using d(2) unfolding demo_inv_def prefix_def by metis+
  show ?thesis
    by (rule exI [of _ "demo_end d"], rule exI [of _ es], rule exI [of _ ls])
      (use main finished lines shown d(3) d0(3) mode_reset in \<open>auto simp: demo_end_def out_def\<close>)
qed

theorem demo_shows_witness:
  "\<exists>d es. demo_main sample_tty (Background_Thread # replicate 17 User_Thread) ''hi\<newline>'' = Inr d \<and> d_user d = U_Done
    \<and> io_out (d_io d) = displayed [] es @ [LF] \<and> confirmed [] es = [(1, ''hi'')]"
proof -
  have lines: "session [] ''hi\<newline>'' = [''hi'']" by (simp add: key_enters_def key_text_def)
  have "numbered [''hi''] = [(1, ''hi'')]" by (simp add: numbered_def)
  with demo_shows [of "''hi\<newline>''" "Background_Thread # replicate 17 User_Thread" sample_tty] show ?thesis
    unfolding lines by (fastforce simp: numeral_eq_Suc)
qed

end
