(* ===== verification/Chat_Server.thy ===== *)
theory Chat_Server
  imports Chat_Types Bounded_Table
begin

text \<open>
  \<open>Unix_Chat_Service/server.c\<close>: the chat server's array of clients, the requests it reads from
  the join FIFO, and the messages it passes on. The file system and the processes at the other
  ends of the FIFOs are the record \<open>sys\<close>.
\<close>

section \<open>The system\<close>

text \<open>The other end of a FIFO: not opened yet, open, or closed again.\<close>

datatype peer = Absent | Present | Gone

text \<open>
  The paths that exist, the other ends, what is waiting in the FIFOs of the clients and in the join
  FIFO, the open descriptors with their paths, what was written to which path, and standard
  output. A descriptor number is not used twice.
\<close>

record sys =
  v_files :: "string set"
  v_peer :: "string \<Rightarrow> peer"
  v_fifo :: "string \<Rightarrow> mesg_t list"
  v_joins :: "join_t list"
  v_join_peer :: peer
  v_fds :: "int \<Rightarrow> string option"
  v_next_fd :: int
  v_sent :: "(string \<times> mesg_t) list"
  v_out :: string

definition say :: "string \<Rightarrow> sys \<Rightarrow> sys" where
  "say s w = w\<lparr>v_out := v_out w @ s @ [LF]\<rparr>"

text \<open>Opening a FIFO waits for the other end. An empty path names no file.\<close>

definition fd_open :: "string \<Rightarrow> sys \<Rightarrow> (int \<times> sys) res" where
  "fd_open p w =
     (if p = [] \<or> p \<notin> v_files w then Inr (-1, w)
      else if v_peer w p = Present then
        Inr (v_next_fd w, w\<lparr>v_next_fd := v_next_fd w + 1, v_fds := (v_fds w)(v_next_fd w := Some p)\<rparr>)
      else Inl Blocked)"

definition fd_close :: "int \<Rightarrow> sys \<Rightarrow> int \<times> sys" where
  "fd_close fd w = (if v_fds w fd = None then (-1, w) else (0, w\<lparr>v_fds := (v_fds w)(fd := None)\<rparr>))"

definition unlink :: "string \<Rightarrow> sys \<Rightarrow> int \<times> sys" where
  "unlink p w = (if p \<in> v_files w then (0, w\<lparr>v_files := v_files w - {p}\<rparr>) else (-1, w))"

text \<open>The sizes of the structs, which are what \<open>read\<close> and \<open>write\<close> return.\<close>

abbreviation MESG_SIZE :: int where "MESG_SIZE \<equiv> 1284"
abbreviation JOIN_SIZE :: int where "JOIN_SIZE \<equiv> 3072"

text \<open>
  A message is written when the other end reads. When it has been closed, the signal
  \<open>SIGPIPE\<close>, for which the server has no handler, ends the process.
\<close>

definition fd_write :: "int \<Rightarrow> mesg_t \<Rightarrow> sys \<Rightarrow> (int \<times> sys) res" where
  "fd_write fd m w =
     (case v_fds w fd of
        None \<Rightarrow> Inr (-1, w)
      | Some p \<Rightarrow>
          if v_peer w p = Present then Inr (MESG_SIZE, w\<lparr>v_sent := v_sent w @ [(p, m)]\<rparr>)
          else Inl (Killed 13))"

text \<open>Reading a message into a struct of zeros; at the end of the file it stays so.\<close>

definition fd_read :: "int \<Rightarrow> sys \<Rightarrow> ((int \<times> mesg_t) \<times> sys) res" where
  "fd_read fd w =
     (case v_fds w fd of
        None \<Rightarrow> Inr ((-1, mesg_zero), w)
      | Some p \<Rightarrow>
          (case v_fifo w p of
             m # ms \<Rightarrow> Inr ((MESG_SIZE, m), w\<lparr>v_fifo := (v_fifo w)(p := ms)\<rparr>)
           | [] \<Rightarrow> if v_peer w p = Gone then Inr ((0, mesg_zero), w) else Inl Blocked))"

text \<open>The join FIFO is opened without blocking: with nothing to read, \<open>read\<close> fails while there
are writers, and gives 0 when there are none.\<close>

definition read_join :: "int \<Rightarrow> sys \<Rightarrow> (int \<times> join_t) \<times> sys" where
  "read_join fd w =
     (if v_fds w fd = None then ((-1, join_zero), w)
      else case v_joins w of
        j # js \<Rightarrow> ((JOIN_SIZE, j), w\<lparr>v_joins := js\<rparr>)
      | [] \<Rightarrow> if v_join_peer w = Present then ((-1, join_zero), w) else ((0, join_zero), w))"

text \<open>What \<open>select\<close> reports as readable: data, or the end of the file.\<close>

definition fd_readable :: "sys \<Rightarrow> int \<Rightarrow> bool" where
  "fd_readable w fd =
     (case v_fds w fd of None \<Rightarrow> False | Some p \<Rightarrow> v_fifo w p \<noteq> [] \<or> v_peer w p = Gone)"

definition join_readable :: "sys \<Rightarrow> bool" where
  "join_readable w \<longleftrightarrow> v_joins w \<noteq> [] \<or> v_join_peer w = Gone"

section \<open>The code\<close>

record server_t =
  s_name :: "char list"
  s_join_fd :: int
  s_join_ready :: int
  s_n_clients :: int
  s_client :: "client_t list"

text \<open>The server is a global of its program: zero at the start.\<close>

definition server_zero :: server_t where
  "server_zero = \<lparr>s_name = replicate MAXPATH NUL, s_join_fd = 0, s_join_ready = 0, s_n_clients = 0,
     s_client = replicate MAXCLIENTS client_zero\<rparr>"

definition check_fail :: "bool \<Rightarrow> unit res" where
  "check_fail condition = (if condition then Inl (Exit 1) else Inr ())"

definition server_get_client :: "server_t \<Rightarrow> int \<Rightarrow> client_t res" where
  "server_get_client server idx =
     (if 0 \<le> idx \<and> idx < int (length (s_client server)) then Inr (s_client server ! nat idx)
      else undef Out_Of_Bounds)"

definition store_client :: "int \<Rightarrow> client_t \<Rightarrow> server_t \<Rightarrow> server_t res" where
  "store_client idx c server =
     (if 0 \<le> idx \<and> idx < int (length (s_client server))
      then Inr (server\<lparr>s_client := (s_client server)[nat idx := c]\<rparr>)
      else undef Out_Of_Bounds)"

text \<open>\<open>mkfifo\<close>'s success and the value of \<open>errno\<close> that is printed are given.\<close>

definition server_start :: "server_t \<Rightarrow> string \<Rightarrow> bool \<Rightarrow> int \<Rightarrow> sys \<Rightarrow> (server_t \<times> sys) res" where
  "server_start server name made errno w =
     (let w1 = snd (unlink name (say ''server_start()'' w));
          w2 = say (show_int errno) (if made then w1\<lparr>v_files := insert name (v_files w1)\<rparr> else w1)
      in rbind (check_fail (\<not> made)) (\<lambda>_.
         let fd = v_next_fd w2;
             w3 = w2\<lparr>v_next_fd := fd + 1, v_fds := (v_fds w2)(fd := Some name)\<rparr>
         in Inr (server\<lparr>s_join_fd := fd, s_join_ready := 0, s_n_clients := 0,
                        s_name := strncpy_bytes MAXPATH name\<rparr>,
                 say ''server_start(): end'' w3)))"

text \<open>Adding an entry behind the last one, as \<open>server_add_client\<close> does when there is room.\<close>

definition append_client :: "client_t \<Rightarrow> server_t \<Rightarrow> server_t res" where
  "append_client c server =
     map_res (\<lambda>s. s\<lparr>s_n_clients := s_n_clients server + 1\<rparr>)
       (store_client (s_n_clients server) c server)"

definition new_client :: "string \<Rightarrow> int \<Rightarrow> int \<Rightarrow> string \<Rightarrow> string \<Rightarrow> client_t" where
  "new_client name tc_fd ts_fd tc ts =
     client_zero\<lparr>c_name := strncpy_bytes MAXPATH name, c_to_client_fd := tc_fd,
       c_to_server_fd := ts_fd, c_to_client_fname := strncpy_bytes MAXPATH tc,
       c_to_server_fname := strncpy_bytes MAXPATH ts, c_data_ready := 0\<rparr>"

definition server_add_client :: "server_t \<Rightarrow> join_t \<Rightarrow> sys \<Rightarrow> (int \<times> server_t \<times> sys) res" where
  "server_add_client server join w =
     rbind (c_string (j_name join)) (\<lambda>name.
     rbind (c_string (j_to_client join)) (\<lambda>tc.
     rbind (c_string (j_to_server join)) (\<lambda>ts.
     let w0 = say (''server_add_client(): '' @ name @ '' '' @ tc @ '' '' @ ts) w in
     if s_n_clients server = int MAXCLIENTS then Inr (-1, server, w0)
     else
       rbind (fd_open tc w0) (\<lambda>(to_client_fd, w1).
       rbind (check_fail (to_client_fd = -1)) (\<lambda>_.
       rbind (fd_open ts w1) (\<lambda>(to_server_fd, w2).
       rbind (check_fail (to_server_fd = -1)) (\<lambda>_.
         map_res (\<lambda>server1. (0, server1, w2))
           (append_client (new_client name to_client_fd to_server_fd tc ts) server))))))))"

text \<open>The shift behind a removed entry, and the new count.\<close>

definition copy_down :: "nat \<Rightarrow> server_t \<Rightarrow> server_t res" where
  "copy_down i server =
     rbind (server_get_client server (int i)) (\<lambda>c. store_client (int i - 1) c server)"

definition shift_clients :: "int \<Rightarrow> server_t \<Rightarrow> server_t res" where
  "shift_clients idx server =
     map_res (\<lambda>s. s\<lparr>s_n_clients := s_n_clients server - 1\<rparr>)
       (if idx < s_n_clients server - 1
        then for_range [nat idx + 1..<nat (s_n_clients server)] copy_down server
        else Inr server)"

text \<open>Closing the descriptors of a client and removing its FIFOs; all four calls are made.\<close>

definition release_client :: "client_t \<Rightarrow> string \<Rightarrow> string \<Rightarrow> sys \<Rightarrow> bool \<times> sys" where
  "release_client client tc ts w =
     (let (tc_fd, w1) = fd_close (c_to_client_fd client) w;
          (ts_fd, w2) = fd_close (c_to_server_fd client) w1;
          (tc_fname, w3) = unlink tc w2;
          (ts_fname, w4) = unlink ts w3
      in (tc_fd \<noteq> 0 \<or> ts_fd \<noteq> 0 \<or> tc_fname \<noteq> 0 \<or> ts_fname \<noteq> 0, w4))"

definition server_remove_client :: "server_t \<Rightarrow> int \<Rightarrow> sys \<Rightarrow> (int \<times> server_t \<times> sys) res" where
  "server_remove_client server idx w =
     rbind (server_get_client server idx) (\<lambda>client.
     rbind (c_string (c_to_client_fname client)) (\<lambda>tc.
     rbind (c_string (c_to_server_fname client)) (\<lambda>ts.
     let (failed, w1) = release_client client tc ts
           (say (''server_remove_client(): '' @ show_int idx) w)
     in if failed then Inr (-1, server, w1)
        else map_res (\<lambda>server1. (0, server1, w1)) (shift_clients idx server))))"

text \<open>The loop that writes one message to the clients with the given positions.\<close>

fun write_loop :: "nat list \<Rightarrow> server_t \<Rightarrow> mesg_t \<Rightarrow> sys \<Rightarrow> (int \<times> sys) res" where
  "write_loop [] server mesg w = Inr (0, w)"
| "write_loop (i # is) server mesg w =
     rbind (server_get_client server (int i)) (\<lambda>client.
     rbind (fd_write (c_to_client_fd client) mesg w) (\<lambda>(err, w1).
     rbind (check_fail (err = -1)) (\<lambda>_.
       if err < 0 then Inr (-1, w1) else write_loop is server mesg w1)))"

text \<open>What the loop has written when it is over, also when a signal ends the process in it.\<close>

fun delivered :: "nat list \<Rightarrow> server_t \<Rightarrow> mesg_t \<Rightarrow> sys \<Rightarrow> (string \<times> mesg_t) list" where
  "delivered [] server mesg w = []"
| "delivered (i # is) server mesg w =
     (case rbind (server_get_client server (int i)) (\<lambda>client. fd_write (c_to_client_fd client) mesg w) of
        Inl e \<Rightarrow> []
      | Inr (err, w1) \<Rightarrow>
          drop (length (v_sent w)) (v_sent w1) @ (if err < 0 then [] else delivered is server mesg w1))"

definition server_broadcast :: "server_t \<Rightarrow> mesg_t \<Rightarrow> sys \<Rightarrow> (int \<times> sys) res" where
  "server_broadcast server mesg w =
     rbind (name_text mesg) (\<lambda>name.
     rbind (body_text mesg) (\<lambda>body.
       write_loop [0..<nat (s_n_clients server)] server mesg
         (say (''server_broadcast(): '' @ show_int (m_kind mesg) @ '' from '' @ name @ '' - '' @ body) w)))"

definition shutdown_remove :: "int \<Rightarrow> server_t \<Rightarrow> sys \<Rightarrow> (server_t \<times> sys) res" where
  "shutdown_remove i server w =
     rbind (server_remove_client server i w) (\<lambda>(err, server1, w1).
     rbind (check_fail (err = -1)) (\<lambda>_. Inr (server1, w1)))"

lemma shift_clients_count: "shift_clients i s = Inr s1 \<Longrightarrow> s_n_clients s1 = s_n_clients s - 1"
  by (auto simp: shift_clients_def split: if_splits)

lemma remove_client_cases:
  assumes "server_remove_client s i w = Inr (r, s1, w1)"
  obtains client tc ts failed where "server_get_client s i = Inr client"
    and "c_string (c_to_client_fname client) = Inr tc" and "c_string (c_to_server_fname client) = Inr ts"
    and "release_client client tc ts (say (''server_remove_client(): '' @ show_int i) w) = (failed, w1)"
    and "if failed then r = -1 \<and> s1 = s else r = 0 \<and> shift_clients i s = Inr s1"
proof -
  from assms obtain client tc ts where c: "server_get_client s i = Inr client"
      "c_string (c_to_client_fname client) = Inr tc" "c_string (c_to_server_fname client) = Inr ts"
    by (auto simp: server_remove_client_def)
  obtain failed w2 where rel:
    "release_client client tc ts (say (''server_remove_client(): '' @ show_int i) w) = (failed, w2)"
    by (metis surj_pair)
  from assms c rel that [OF c, of failed] show ?thesis
    by (auto simp: server_remove_client_def split: if_splits)
qed

lemma remove_client_count:
  assumes "server_remove_client s i w = Inr (r, s1, w1)"
  shows "s1 = s \<and> r = -1 \<or> s_n_clients s1 = s_n_clients s - 1 \<and> r = 0"
  using assms by (rule remove_client_cases) (auto dest: shift_clients_count split: if_splits)

lemma shutdown_body_count:
  "shutdown_remove i s w = Inr (s1, w1) \<Longrightarrow> s_n_clients s1 = s_n_clients s - 1"
  by (auto simp: shutdown_remove_def check_fail_def dest: remove_client_count split: if_splits)

function remove_loop :: "int \<Rightarrow> server_t \<Rightarrow> sys \<Rightarrow> (server_t \<times> sys) res" where
  "remove_loop i server w =
     (if i < s_n_clients server
      then rbind (shutdown_remove i server w) (\<lambda>(server1, w1). remove_loop (i + 1) server1 w1)
      else Inr (server, w))"
  by pat_completeness auto
termination
  by (relation "measure (\<lambda>(i, server, w). nat (s_n_clients server - i))")
    (auto dest: shutdown_body_count)

declare remove_loop.simps [simp del]

definition server_shutdown :: "server_t \<Rightarrow> sys \<Rightarrow> (server_t \<times> sys) res" where
  "server_shutdown server w =
     rbind (c_string (s_name server)) (\<lambda>name.
     let w1 = snd (unlink name (snd (fd_close (s_join_fd server) w)));
         mesg = mesg_zero\<lparr>m_kind := kind_code BL_SHUTDOWN\<rparr>
     in rbind (write_loop [0..<nat (s_n_clients server)] server mesg w1) (\<lambda>(_, w2).
          remove_loop 0 server w2))"

text \<open>\<open>select\<close> fails when one of its descriptors is closed, and waits when none is readable.\<close>

definition select_fails :: "server_t \<Rightarrow> sys \<Rightarrow> bool" where
  "select_fails server w \<longleftrightarrow> v_fds w (s_join_fd server) = None \<or>
     (\<exists>c \<in> set (take (nat (s_n_clients server)) (s_client server)). v_fds w (c_to_server_fd c) = None)"

definition select_waits :: "server_t \<Rightarrow> sys \<Rightarrow> bool" where
  "select_waits server w \<longleftrightarrow> \<not> join_readable w \<and>
     (\<forall>c \<in> set (take (nat (s_n_clients server)) (s_client server)). \<not> fd_readable w (c_to_server_fd c))"

definition mark_ready :: "sys \<Rightarrow> nat \<Rightarrow> server_t \<Rightarrow> server_t res" where
  "mark_ready w i server =
     rbind (server_get_client server (int i)) (\<lambda>c.
       if fd_readable w (c_to_server_fd c) then store_client (int i) (c\<lparr>c_data_ready := 1\<rparr>) server
       else Inr server)"

definition server_check_sources :: "server_t \<Rightarrow> sys \<Rightarrow> server_t res" where
  "server_check_sources server w =
     rbind (check_fail (select_fails server w)) (\<lambda>_.
     if select_waits server w then Inl Blocked
     else for_range [0..<nat (s_n_clients server)] (mark_ready w)
       (if join_readable w then server\<lparr>s_join_ready := 1\<rparr> else server))"

definition server_join_ready :: "server_t \<Rightarrow> int" where
  "server_join_ready server = s_join_ready server"

definition joined_mesg :: "string \<Rightarrow> mesg_t" where
  "joined_mesg name = put_name MAXPATH name (mesg_zero\<lparr>m_kind := kind_code BL_JOINED\<rparr>)"

text \<open>
  The name is copied with \<open>MAXPATH\<close> as its bound. The handler takes what comes of this as an
  argument: the message with the name spilling into the body, or undefined behaviour.
\<close>

definition joined_mesg_strict :: "string \<Rightarrow> mesg_t res" where
  "joined_mesg_strict name = put_name_strict MAXPATH name (mesg_zero\<lparr>m_kind := kind_code BL_JOINED\<rparr>)"

definition handle_join_with :: "(string \<Rightarrow> mesg_t res) \<Rightarrow> server_t \<Rightarrow> sys \<Rightarrow> (int \<times> server_t \<times> sys) res" where
  "handle_join_with announcement server w =
     (let ((err, join), w1) = read_join (s_join_fd server) (say ''server_handle_join()'' w)
      in rbind (check_fail (err = -1)) (\<lambda>_.
         rbind (server_add_client server join w1) (\<lambda>(_, server1, w2).
         rbind (c_string (j_name join)) (\<lambda>name.
         rbind (announcement name) (\<lambda>mesg.
         rbind (server_broadcast server1 mesg w2) (\<lambda>(_, w3).
           Inr (0, server1\<lparr>s_join_ready := 0\<rparr>, w3)))))))"

definition server_handle_join :: "server_t \<Rightarrow> sys \<Rightarrow> (int \<times> server_t \<times> sys) res" where
  "server_handle_join = handle_join_with (\<lambda>name. Inr (joined_mesg name))"

definition server_handle_join_strict :: "server_t \<Rightarrow> sys \<Rightarrow> (int \<times> server_t \<times> sys) res" where
  "server_handle_join_strict = handle_join_with joined_mesg_strict"

lemma server_handle_join_eq:
  "server_handle_join server w =
     (let ((err, join), w1) = read_join (s_join_fd server) (say ''server_handle_join()'' w)
      in rbind (check_fail (err = -1)) (\<lambda>_.
         rbind (server_add_client server join w1) (\<lambda>(_, server1, w2).
         rbind (c_string (j_name join)) (\<lambda>name.
         rbind (server_broadcast server1 (joined_mesg name) w2) (\<lambda>(_, w3).
           Inr (0, server1\<lparr>s_join_ready := 0\<rparr>, w3))))))"
  by (simp add: server_handle_join_def handle_join_with_def)

lemma joined_mesg_overflows: "joined_mesg_strict name = undef Buffer_Overflow"
  by (simp add: joined_mesg_strict_def put_name_strict_def)

definition server_client_ready :: "server_t \<Rightarrow> int \<Rightarrow> int res" where
  "server_client_ready server idx = map_res c_data_ready (server_get_client server idx)"

text \<open>The action on a message, by its kind.\<close>

definition take_action :: "server_t \<Rightarrow> int \<Rightarrow> mesg_t \<Rightarrow> sys \<Rightarrow> (server_t \<times> sys) res" where
  "take_action server idx mesg w =
     (if m_kind mesg = kind_code BL_MESG then
        rbind (name_text mesg) (\<lambda>name. rbind (body_text mesg) (\<lambda>body.
        map_res (\<lambda>(_, w2). (server, w2))
          (server_broadcast server mesg
            (say (''server: mesg received from client '' @ show_int idx @ '' '' @ name @ '' : '' @ body) w))))
      else if m_kind mesg = kind_code BL_DEPARTED then
        rbind (name_text mesg) (\<lambda>name.
        rbind (server_remove_client server idx
            (say (''server: departed client '' @ show_int idx @ '' '' @ name) w)) (\<lambda>(_, server1, w2).
        map_res (\<lambda>(_, w3). (server1, w3)) (server_broadcast server1 mesg w2)))
      else Inr (server, w))"

definition server_handle_client :: "server_t \<Rightarrow> int \<Rightarrow> sys \<Rightarrow> (int \<times> server_t \<times> sys) res" where
  "server_handle_client server idx w =
     rbind (server_get_client server idx) (\<lambda>client.
     rbind (fd_read (c_to_server_fd client) w) (\<lambda>((err, mesg), w1).
     rbind (check_fail (err = -1)) (\<lambda>_.
     rbind (take_action server idx mesg w1) (\<lambda>(server1, w2).
     rbind (server_get_client server1 idx) (\<lambda>entry.
     map_res (\<lambda>server2. (0, server2, w2))
       (store_client idx (entry\<lparr>c_data_ready := 0\<rparr>) server1))))))"

section \<open>The array of clients as a table\<close>

definition table_wf :: "server_t \<Rightarrow> bool" where
  "table_wf s \<longleftrightarrow> length (s_client s) = MAXCLIENTS \<and> 0 \<le> s_n_clients s \<and> s_n_clients s \<le> int MAXCLIENTS"

definition clients :: "server_t \<Rightarrow> client_t list" where
  "clients s = take (nat (s_n_clients s)) (s_client s)"

lemma table_wf_count:
  "table_wf s \<Longrightarrow> s_n_clients s = int (length (clients s)) \<and> length (clients s) \<le> MAXCLIENTS"
  by (auto simp: table_wf_def clients_def min_def)

lemma get_client:
  assumes "table_wf s" and "i < length (clients s)"
  shows "server_get_client s (int i) = Inr (clients s ! i)"
  using assms by (auto simp: server_get_client_def table_wf_def clients_def)

lemma store_client_wf:
  assumes "table_wf s" and "0 \<le> i" and "i < int MAXCLIENTS"
  shows "\<exists>s1. store_client i c s = Inr s1 \<and> table_wf s1 \<and> clients s1 = (clients s)[nat i := c]
    \<and> s_client s1 = (s_client s)[nat i := c] \<and> s_n_clients s1 = s_n_clients s"
  using assms by (auto simp: store_client_def table_wf_def clients_def take_update_swap)

lemma append_client_wf:
  assumes "table_wf s" and "length (clients s) < MAXCLIENTS"
  shows "\<exists>s1. append_client c s = Inr s1 \<and> table_wf s1 \<and> clients s1 = clients s @ [c]
    \<and> s_name s1 = s_name s \<and> s_join_fd s1 = s_join_fd s"
proof -
  let ?n = "length (clients s)"
  have n: "s_n_clients s = int ?n" using table_wf_count [OF assms(1)] by simp
  have L: "length (s_client s) = MAXCLIENTS" using assms(1) by (simp add: table_wf_def)
  have old: "take ?n (s_client s) = clients s" using n by (simp add: clients_def)
  let ?s1 = "s\<lparr>s_client := (s_client s)[?n := c], s_n_clients := int ?n + 1\<rparr>"
  have "append_client c s = Inr ?s1"
    using assms(2) L by (simp add: append_client_def store_client_def n)
  moreover have "table_wf ?s1" using assms(2) L by (simp add: table_wf_def)
  moreover have "nat (int ?n + 1) = Suc ?n" by simp
  then have "clients ?s1 = take (Suc ?n) ((s_client s)[?n := c])" by (simp add: clients_def)
  then have "clients ?s1 = clients s @ [c]"
    using assms(2) L old by (simp add: take_Suc_conv_app_nth)
  ultimately show ?thesis by auto
qed

lemma copy_down_Suc:
  assumes "Suc j < length (s_client s)"
  shows "copy_down (Suc j) s = Inr (s\<lparr>s_client := (s_client s)[j := s_client s ! Suc j]\<rparr>)"
proof -
  have "int (Suc j) - 1 = int j" by simp
  then show ?thesis
    unfolding copy_down_def server_get_client_def store_client_def using assms
    by (simp only: nat_int) simp
qed

text \<open>The copying loop after \<open>k\<close> rounds.\<close>

lemma copy_down_loop:
  assumes "Suc i + k \<le> length (s_client s)"
  shows "for_range [Suc i..<Suc i + k] copy_down s
    = Inr (s\<lparr>s_client := take i (s_client s) @ take k (drop (Suc i) (s_client s)) @ drop (i + k) (s_client s)\<rparr>)"
  using assms
proof (induction k)
  case 0
  then show ?case by simp
next
  case (Suc k)
  let ?L = "s_client s"
  let ?M = "take i ?L @ take k (drop (Suc i) ?L) @ drop (i + k) ?L"
  have M: "length ?M = length ?L" using Suc.prems by simp
  have d: "drop (i + k) ?L = ?L ! (i + k) # ?L ! Suc (i + k) # drop (Suc (Suc (i + k))) ?L"
    using Suc.prems by (simp add: Cons_nth_drop_Suc)
  have front: "length (take i ?L @ take k (drop (Suc i) ?L)) = i + k" using Suc.prems by simp
  have M2: "?M = (take i ?L @ take k (drop (Suc i) ?L)) @ ?L ! (i + k) # ?L ! Suc (i + k) # drop (Suc (Suc (i + k))) ?L"
    using d by simp
  have at: "?M ! Suc (i + k) = ?L ! Suc (i + k)"
    unfolding M2 using front by (simp add: nth_append del: append_assoc)
  have upd: "?M[i + k := ?L ! Suc (i + k)]
      = take i ?L @ take (Suc k) (drop (Suc i) ?L) @ drop (i + Suc k) ?L"
  proof -
    have "?M[i + k := ?L ! Suc (i + k)]
        = (take i ?L @ take k (drop (Suc i) ?L)) @ ?L ! Suc (i + k) # ?L ! Suc (i + k) # drop (Suc (Suc (i + k))) ?L"
      unfolding M2 using front by (simp add: list_update_append del: append_assoc)
    moreover have "take (Suc k) (drop (Suc i) ?L) = take k (drop (Suc i) ?L) @ [?L ! Suc (i + k)]"
      using Suc.prems by (simp add: take_Suc_conv_app_nth)
    moreover have "drop (i + Suc k) ?L = ?L ! Suc (i + k) # drop (Suc (Suc (i + k))) ?L"
      using Suc.prems by (simp add: Cons_nth_drop_Suc)
    ultimately show ?thesis by simp
  qed
  have range: "[Suc i..<Suc i + Suc k] = [Suc i..<Suc i + k] @ [Suc (i + k)]" by simp
  have "copy_down (Suc (i + k)) (s\<lparr>s_client := ?M\<rparr>) = Inr (s\<lparr>s_client := ?M[i + k := ?L ! Suc (i + k)]\<rparr>)"
    using copy_down_Suc [of "i + k" "s\<lparr>s_client := ?M\<rparr>"] Suc.prems M at by simp
  then show ?case unfolding range for_range_append upd using Suc by simp
qed

lemma shift_clients_wf:
  assumes "table_wf s" and "i < length (clients s)"
  shows "\<exists>s1. shift_clients (int i) s = Inr s1 \<and> table_wf s1
    \<and> clients s1 = take i (clients s) @ drop (Suc i) (clients s)
    \<and> s_name s1 = s_name s \<and> s_join_fd s1 = s_join_fd s \<and> s_join_ready s1 = s_join_ready s"
proof -
  let ?n = "length (clients s)" and ?L = "s_client s"
  let ?k = "?n - Suc i"
  have n: "s_n_clients s = int ?n" "?n \<le> MAXCLIENTS" using table_wf_count [OF assms(1)] by auto
  have L: "length ?L = MAXCLIENTS" using assms(1) by (simp add: table_wf_def)
  let ?M = "take i ?L @ take ?k (drop (Suc i) ?L) @ drop (i + ?k) ?L"
  let ?s1 = "s\<lparr>s_client := ?M, s_n_clients := int ?n - 1\<rparr>"
  have k: "Suc i + ?k = ?n" using assms(2) by simp
  have "for_range [Suc i..<Suc i + ?k] copy_down s = Inr (s\<lparr>s_client := ?M\<rparr>)"
    by (rule copy_down_loop) (use n L k in linarith)
  then have loop: "for_range [Suc i..<?n] copy_down s = Inr (s\<lparr>s_client := ?M\<rparr>)" unfolding k .
  have shift: "shift_clients (int i) s = Inr ?s1"
  proof (cases "int i < int ?n - 1")
    case True
    then show ?thesis using loop by (simp add: shift_clients_def n)
  next
    case False
    then have "?k = 0" by simp
    then have "?M = ?L" by simp
    then show ?thesis using False by (simp add: shift_clients_def n)
  qed
  have M: "length ?M = MAXCLIENTS" using n L k by simp
  then have wf: "table_wf ?s1" using n(2) assms(2) L by (auto simp: table_wf_def)
  have "nat (int ?n - 1) = i + ?k" using k by simp
  then have "clients ?s1 = take (i + ?k) ?M" by (simp add: clients_def)
  also have "\<dots> = take i ?L @ take ?k (drop (Suc i) ?L)" using L n(2) k by simp
  also have "\<dots> = take i (clients s) @ drop (Suc i) (clients s)"
  proof -
    have c: "clients s = take ?n ?L" using n by (simp add: clients_def)
    have "take i (clients s) = take i ?L" using assms(2) by (subst c) (simp add: min_def)
    moreover have "drop (Suc i) (clients s) = take ?k (drop (Suc i) ?L)" by (subst c) (simp add: drop_take)
    ultimately show ?thesis by simp
  qed
  finally show ?thesis using shift wf by auto
qed

text \<open>The changes of the table as total functions, to state that they provide its contract.\<close>

definition client_add :: "client_t \<Rightarrow> server_t \<Rightarrow> server_t" where
  "client_add c s =
     (if s_n_clients s = int MAXCLIENTS then s
      else case append_client c s of Inr s1 \<Rightarrow> s1 | Inl e \<Rightarrow> s)"

definition client_remove :: "nat \<Rightarrow> server_t \<Rightarrow> server_t" where
  "client_remove i s = (case shift_clients (int i) s of Inr s1 \<Rightarrow> s1 | Inl e \<Rightarrow> s)"

interpretation chat: bounded_table_remove table_wf clients MAXCLIENTS client_add client_remove
proof
  fix s :: server_t and x and i :: nat
  assume wf: "table_wf s"
  then show le: "length (clients s) \<le> MAXCLIENTS" using table_wf_count by blast
  have n: "s_n_clients s = int (length (clients s))" using table_wf_count [OF wf] by simp
  show "length (clients s) = MAXCLIENTS \<Longrightarrow> client_add x s = s"
    using n by (simp add: client_add_def)
  show "length (clients s) < MAXCLIENTS \<Longrightarrow> clients (client_add x s) = clients s @ [x]"
    using append_client_wf [OF wf, of x] n by (auto simp: client_add_def)
  show "table_wf (client_add x s)"
    using append_client_wf [OF wf, of x] n wf le by (auto simp: client_add_def)
  show "i < length (clients s) \<Longrightarrow> table_wf (client_remove i s)"
    and "i < length (clients s) \<Longrightarrow> clients (client_remove i s) = take i (clients s) @ drop (Suc i) (clients s)"
    using shift_clients_wf [OF wf, of i] by (auto simp: client_remove_def)
qed

end
