(* ===== verification/Chat_Room.thy ===== *)
theory Chat_Room
  imports Chat_Server
begin

text \<open>
  The chat room the server keeps, and \<open>Unix_Chat_Service/bl-server.c\<close>, its main loop: what a
  message, a departure, a join and a shutdown do to it, what every state between two turns of
  the loop satisfies, and the ways the loop ends.
\<close>

section \<open>The main loop\<close>

lemma take_action_count:
  "take_action s idx m w = Inr (s1, w1) \<Longrightarrow> s_n_clients s1 \<le> s_n_clients s"
  by (auto simp: take_action_def dest!: remove_client_count split: if_splits)

lemma handle_client_count:
  "server_handle_client s idx w = Inr (r, s1, w1) \<Longrightarrow> s_n_clients s1 \<le> s_n_clients s"
  by (auto simp: server_handle_client_def store_client_def dest!: take_action_count split: if_splits)

text \<open>The loop over the clients; its bound is read again in each round.\<close>

definition serve_client :: "int \<Rightarrow> server_t \<Rightarrow> sys \<Rightarrow> (server_t \<times> sys) res" where
  "serve_client i server w =
     rbind (server_client_ready server i) (\<lambda>ready.
       if ready \<noteq> 0 then map_res snd (server_handle_client server i w) else Inr (server, w))"

lemma serve_client_count: "serve_client i s w = Inr (s1, w1) \<Longrightarrow> s_n_clients s1 \<le> s_n_clients s"
  by (auto simp: serve_client_def dest: handle_client_count split: if_splits)

function client_loop :: "int \<Rightarrow> server_t \<Rightarrow> sys \<Rightarrow> (server_t \<times> sys) res" where
  "client_loop i server w =
     (if i < s_n_clients server
      then rbind (serve_client i server w) (\<lambda>(server1, w1). client_loop (i + 1) server1 w1)
      else Inr (server, w))"
  by pat_completeness auto
termination
  by (relation "measure (\<lambda>(i, server, w). nat (s_n_clients server - i))")
    (auto dest!: serve_client_count)

declare client_loop.simps [simp del]

text \<open>One round of the loop, with either reading of the name's copy in \<open>server_handle_join\<close>.\<close>

definition turn_with ::
  "(server_t \<Rightarrow> sys \<Rightarrow> (int \<times> server_t \<times> sys) res) \<Rightarrow> server_t \<Rightarrow> sys \<Rightarrow> (server_t \<times> sys) res" where
  "turn_with handle_join server w =
     rbind (server_check_sources server w) (\<lambda>server1.
     rbind (if server_join_ready server1 \<noteq> 0 then map_res snd (handle_join server1 w)
            else Inr (server1, w)) (\<lambda>(server2, w2).
       client_loop 0 server2 w2))"

definition server_turn :: "server_t \<Rightarrow> sys \<Rightarrow> (server_t \<times> sys) res" where
  "server_turn = turn_with server_handle_join"

definition server_turn_strict :: "server_t \<Rightarrow> sys \<Rightarrow> (server_t \<times> sys) res" where
  "server_turn_strict = turn_with server_handle_join_strict"

lemma server_turn_eq:
  "server_turn server w =
     rbind (server_check_sources server w) (\<lambda>server1.
     rbind (if server_join_ready server1 \<noteq> 0 then map_res snd (server_handle_join server1 w)
            else Inr (server1, w)) (\<lambda>(server2, w2).
       client_loop 0 server2 w2))"
  by (simp add: server_turn_def turn_with_def)

text \<open>\<open>main\<close> before the loop; \<open>None\<close> is the end with a wrong number of arguments.\<close>

definition bl_server :: "string list \<Rightarrow> bool \<Rightarrow> int \<Rightarrow> sys \<Rightarrow> (server_t \<times> sys) option res" where
  "bl_server args made errno w =
     (case args of
        [server_name] \<Rightarrow> map_res Some (server_start server_zero server_name made errno w)
      | _ \<Rightarrow> Inr None)"

text \<open>The handler of \<open>SIGTERM\<close> and \<open>SIGINT\<close>.\<close>

definition handle_signals :: "server_t \<Rightarrow> sys \<Rightarrow> (server_t \<times> sys) res" where
  "handle_signals server w = rbind (server_shutdown server w) (\<lambda>_. Inl (Exit 0))"

section \<open>No undefined behaviour\<close>

definition join_ok :: "join_t \<Rightarrow> bool" where
  "join_ok j \<longleftrightarrow> length (j_name j) = MAXPATH \<and> NUL \<in> set (j_name j)
     \<and> length (j_to_client j) = MAXPATH \<and> NUL \<in> set (j_to_client j)
     \<and> length (j_to_server j) = MAXPATH \<and> NUL \<in> set (j_to_server j)"

definition sys_ok :: "sys \<Rightarrow> bool" where
  "sys_ok w \<longleftrightarrow> (\<forall>p. \<forall>m \<in> set (v_fifo w p). mesg_ok m) \<and> (\<forall>j \<in> set (v_joins w). join_ok j)
     \<and> (\<forall>x \<in> set (v_sent w). mesg_ok (snd x))"

definition client_ok :: "client_t \<Rightarrow> bool" where
  "client_ok c \<longleftrightarrow> NUL \<in> set (c_to_client_fname c) \<and> NUL \<in> set (c_to_server_fname c)"

definition room_ok :: "server_t \<Rightarrow> bool" where
  "room_ok s \<longleftrightarrow> table_wf s \<and> (\<forall>c \<in> set (clients s). client_ok c) \<and> NUL \<in> set (s_name s)"

abbreviation both_ok :: "server_t \<times> sys \<Rightarrow> bool" where
  "both_ok \<equiv> \<lambda>(s, w). room_ok s \<and> sys_ok w"

lemma c_string_safe: "NUL \<in> set bs \<Longrightarrow> safe (\<lambda>s. s = cstr bs \<and> length s < length bs) (c_string bs)"
  by (simp add: c_string_def cstr_length_nul)

lemma check_fail_safe [intro]: "safe (\<lambda>_. True) (check_fail b)"
  by (simp add: check_fail_def)

lemma say_ok [simp]: "sys_ok (say s w) = sys_ok w"
  by (simp add: sys_ok_def say_def)

lemma unlink_ok: "sys_ok w \<Longrightarrow> sys_ok (snd (unlink p w))"
  by (simp add: sys_ok_def unlink_def)

lemma fd_close_ok: "sys_ok w \<Longrightarrow> sys_ok (snd (fd_close fd w))"
  by (simp add: sys_ok_def fd_close_def)

lemma release_ok: "sys_ok w \<Longrightarrow> sys_ok (snd (release_client c tc ts w))"
  using unlink_ok fd_close_ok by (auto simp: release_client_def split: prod.splits) (metis snd_conv)+

lemma fd_open_safe: "sys_ok w \<Longrightarrow> safe (\<lambda>(fd, w1). sys_ok w1) (fd_open p w)"
  by (simp add: fd_open_def sys_ok_def)

lemma fd_write_safe: "sys_ok w \<Longrightarrow> mesg_ok m \<Longrightarrow> safe (\<lambda>(n, w1). sys_ok w1) (fd_write fd m w)"
  by (auto simp: fd_write_def sys_ok_def split: option.splits)

lemma fd_read_safe: "sys_ok w \<Longrightarrow> safe (\<lambda>((n, m), w1). mesg_ok m \<and> sys_ok w1) (fd_read fd w)"
proof (cases "v_fds w fd")
  case (Some p)
  assume ok: "sys_ok w"
  show ?thesis
  proof (cases "v_fifo w p")
    case (Cons m ms)
    have "\<forall>x \<in> set (v_fifo w p). mesg_ok x" using ok by (simp add: sys_ok_def)
    then show ?thesis using ok Some Cons by (simp add: fd_read_def sys_ok_def)
  qed (use Some ok in \<open>simp add: fd_read_def\<close>)
qed (simp add: fd_read_def)

lemma safe_bind_read:
  assumes "sys_ok w" and "\<And>n m w1. mesg_ok m \<Longrightarrow> sys_ok w1 \<Longrightarrow> safe Q (f n m w1)"
  shows "safe Q (rbind (fd_read fd w) (\<lambda>((n, m), w1). f n m w1))"
  using assms by (intro safe_bind [OF fd_read_safe]) auto

lemma join_zero_ok: "join_ok join_zero"
  by (simp add: join_ok_def join_zero_def)

lemma read_join_ok: "sys_ok w \<Longrightarrow> join_ok (snd (fst (read_join fd w))) \<and> sys_ok (snd (read_join fd w))"
  by (auto simp: read_join_def sys_ok_def join_zero_ok split: list.splits)

lemma get_client_safe:
  "room_ok s \<Longrightarrow> i < length (clients s) \<Longrightarrow> safe (\<lambda>c. c = clients s ! i \<and> client_ok c) (server_get_client s (int i))"
  by (simp add: get_client room_ok_def)

text \<open>Messages to all clients.\<close>

lemma write_loop_safe:
  assumes "room_ok s" and "mesg_ok m" and "sys_ok w" and "\<forall>i \<in> set is. i < length (clients s)"
  shows "safe (\<lambda>(n, w1). sys_ok w1) (write_loop is s m w)"
  using assms(3,4)
proof (induction "is" arbitrary: w)
  case (Cons i "is")
  have "safe (\<lambda>c. True) (server_get_client s (int i))"
    using get_client_safe [OF assms(1)] Cons.prems(2) by (auto intro: safe_weaken)
  then show ?case
    unfolding write_loop.simps
  proof (rule safe_bind, intro safe_bind [OF fd_write_safe [OF Cons.prems(1) assms(2)]])
    fix x :: "int \<times> sys" assume "case x of (n, w1) \<Rightarrow> sys_ok w1"
    then show "safe (\<lambda>(n, w1). sys_ok w1) (case x of (err, w1) \<Rightarrow>
        rbind (check_fail (err = -1)) (\<lambda>_. if err < 0 then Inr (-1, w1) else write_loop is s m w1))"
      using Cons.IH Cons.prems(2) by (cases x) (auto intro!: safe_bind [OF check_fail_safe])
  qed
qed simp

lemma all_positions: "table_wf s \<Longrightarrow> \<forall>i \<in> set [0..<nat (s_n_clients s)]. i < length (clients s)"
  using table_wf_count [of s] by auto

lemma broadcast_safe:
  assumes "room_ok s" and "sys_ok w" and "mesg_ok m"
  shows "safe (\<lambda>(n, w1). sys_ok w1) (server_broadcast s m w)"
proof -
  obtain n b where t: "name_text m = Inr n" "body_text m = Inr b" using mesg_ok_text [OF assms(3)] by blast
  show ?thesis
    using write_loop_safe [OF assms(1,3)] assms(1,2) all_positions [of s]
    by (simp add: server_broadcast_def t room_ok_def)
qed

text \<open>Removing and adding a client.\<close>

lemma remove_client_safe:
  assumes "room_ok s" and "sys_ok w" and "i < length (clients s)"
  shows "safe (\<lambda>(r, x). both_ok x) (server_remove_client s (int i) w)"
proof -
  let ?c = "clients s ! i"
  have ok: "table_wf s" "client_ok ?c" using assms(1,3) by (auto simp: room_ok_def)
  obtain s1 where s1: "shift_clients (int i) s = Inr s1" "table_wf s1"
      "clients s1 = take i (clients s) @ drop (Suc i) (clients s)" "s_name s1 = s_name s"
    using shift_clients_wf [OF ok(1) assms(3)] by blast
  then have "room_ok s1"
    using assms(1) by (auto simp: room_ok_def dest: in_set_takeD in_set_dropD)
  moreover have "sys_ok (snd (release_client ?c tc ts (say t w)))" for tc ts t
    using release_ok assms(2) by simp
  ultimately show ?thesis
    using get_client [OF ok(1) assms(3)] ok(2) assms(1) s1(1)
    by (auto simp: server_remove_client_def client_ok_def c_string_def split: prod.split) (metis snd_conv)+
qed

lemma new_client_ok:
  "length tc < MAXPATH \<Longrightarrow> length ts < MAXPATH \<Longrightarrow> client_ok (new_client n f g tc ts)"
  by (simp add: client_ok_def new_client_def strncpy_bytes_def)

lemma add_client_safe:
  assumes "room_ok s" and "sys_ok w" and "join_ok j"
  shows "safe (\<lambda>(r, x). both_ok x) (server_add_client s j w)"
proof -
  let ?tc = "cstr (j_to_client j)" and ?ts = "cstr (j_to_server j)"
  have str: "c_string (j_name j) = Inr (cstr (j_name j))" "c_string (j_to_client j) = Inr ?tc"
      "c_string (j_to_server j) = Inr ?ts" "length ?tc < MAXPATH" "length ?ts < MAXPATH"
    using assms(3) cstr_length_nul [of "j_to_client j"] cstr_length_nul [of "j_to_server j"]
    by (auto simp: join_ok_def c_string_def)
  have wf: "table_wf s" using assms(1) by (simp add: room_ok_def)
  have app: "safe (\<lambda>s1. room_ok s1) (append_client (new_client n f g ?tc ?ts) s)"
    if "s_n_clients s \<noteq> int MAXCLIENTS" for n f g
  proof -
    have "length (clients s) < MAXCLIENTS" using that table_wf_count [OF wf] by auto
    from append_client_wf [OF wf this, of "new_client n f g ?tc ?ts"] show ?thesis
      using assms(1) new_client_ok [OF str(4,5)] by (auto simp: room_ok_def)
  qed
  show ?thesis
  proof (cases "s_n_clients s = int MAXCLIENTS")
    case True
    then show ?thesis using assms(1,2) by (simp add: server_add_client_def str)
  next
    case False
    have s2: "safe (\<lambda>(r, x). both_ok x) (rbind (fd_open ?ts w1) (\<lambda>(to_server_fd, w2).
        rbind (check_fail (to_server_fd = -1)) (\<lambda>_.
          map_res (\<lambda>server1. (0, server1, w2)) (append_client (new_client n f to_server_fd ?tc ?ts) s))))"
      if "sys_ok w1" for w1 n f
      using fd_open_safe [OF that] app [OF False]
      by (auto intro!: safe_bind [OF fd_open_safe [OF that]] safe_bind [OF check_fail_safe]
          safe_map [OF app [OF False]])
    show ?thesis
      unfolding server_add_client_def str rbind.simps Let_def using False assms(2)
      by (auto intro!: safe_bind [OF fd_open_safe] safe_bind [OF check_fail_safe] s2)
  qed
qed

text \<open>The handlers.\<close>

lemma set_update_ok:
  "\<forall>x \<in> set xs. P x \<Longrightarrow> P y \<Longrightarrow> \<forall>x \<in> set (xs[i := y]). P x"
  using set_update_subset_insert [of xs i y] by auto

lemma store_client_safe:
  assumes "room_ok s" and "0 \<le> i" and "i < int MAXCLIENTS" and "client_ok c"
  shows "safe room_ok (store_client i c s)"
proof -
  have "table_wf s" using assms(1) by (simp add: room_ok_def)
  from store_client_wf [OF this assms(2,3), of c] obtain s1 where s1: "store_client i c s = Inr s1"
      "table_wf s1" "clients s1 = (clients s)[nat i := c]" by blast
  moreover have "s_name s1 = s_name s" using s1(1) by (auto simp: store_client_def split: if_splits)
  moreover have "\<forall>x \<in> set ((clients s)[nat i := c]). client_ok x"
    using assms(1,4) by (intro set_update_ok) (auto simp: room_ok_def)
  ultimately show ?thesis using assms(1) by (simp add: room_ok_def)
qed

lemma joined_mesg_ok: "mesg_ok (joined_mesg name)"
  by (simp add: mesg_ok_def joined_mesg_def put_name_def mesg_zero_def Let_def)

lemma join_safe:
  assumes "room_ok s" and "sys_ok w"
  shows "safe (\<lambda>(r, x). both_ok x) (server_handle_join s w)"
proof -
  obtain err j w1 where r: "read_join (s_join_fd s) (say ''server_handle_join()'' w) = ((err, j), w1)"
    by (metis surj_pair)
  with read_join_ok [of "say ''server_handle_join()'' w" "s_join_fd s"] assms(2)
  have j: "join_ok j" "sys_ok w1" by auto
  have name: "c_string (j_name j) = Inr (cstr (j_name j))" using j(1) by (simp add: join_ok_def c_string_def)
  have rest: "safe (\<lambda>(r, x). both_ok x) (rbind (server_broadcast s1 (joined_mesg n) w2) (\<lambda>(_, w3).
      Inr (0, s1\<lparr>s_join_ready := 0\<rparr>, w3)))" if "both_ok (s1, w2)" for s1 w2 n
  proof -
    have "room_ok (s1\<lparr>s_join_ready := 0\<rparr>)"
      using that by (simp add: room_ok_def table_wf_def clients_def)
    with that show ?thesis
      by (intro safe_bind2 [OF broadcast_safe]) (auto simp: joined_mesg_ok)
  qed
  show ?thesis
    unfolding server_handle_join_eq Let_def r prod.case name rbind.simps
    by (rule safe_bind [OF check_fail_safe], rule safe_bind3 [where P = "\<lambda>r a b. both_ok (a, b)"])
      (use add_client_safe [OF assms(1) j(2,1)] rest in \<open>auto intro: safe_weaken\<close>)
qed

lemma action_safe:
  assumes "room_ok s" and "sys_ok w" and "mesg_ok m" and "i < length (clients s)"
  shows "safe both_ok (take_action s (int i) m w)"
proof -
  obtain n b where t: "name_text m = Inr n" "body_text m = Inr b" using mesg_ok_text [OF assms(3)] by blast
  have 1: "safe both_ok (map_res (\<lambda>(_, w2). (s, w2)) (server_broadcast s m w0))" if "sys_ok w0" for w0
    by (rule safe_map [OF broadcast_safe [OF assms(1) that assms(3)]]) (use assms(1) in auto)
  have 2: "safe both_ok (rbind (server_remove_client s (int i) w0) (\<lambda>(_, s1, w2).
      map_res (\<lambda>(_, w3). (s1, w3)) (server_broadcast s1 m w2)))" if "sys_ok w0" for w0
    by (auto intro!: safe_bind [OF remove_client_safe [OF assms(1) that assms(4)]]
        safe_map [OF broadcast_safe] simp: assms(3))
  show ?thesis using 1 2 assms(1,2) by (simp add: take_action_def t)
qed

lemma get_any_client:
  "table_wf s \<Longrightarrow> 0 \<le> i \<Longrightarrow> i < int MAXCLIENTS \<Longrightarrow> server_get_client s i = Inr (s_client s ! nat i)"
  by (simp add: server_get_client_def table_wf_def)

text \<open>
  The flag is reset in the entry at the same position afterwards: the client that moved there,
  or a stale entry behind the last one.
\<close>

lemma reset_flag_safe:
  assumes "room_ok s" and "0 \<le> i" and "i < int MAXCLIENTS"
  shows "safe room_ok (rbind (server_get_client s i) (\<lambda>entry. store_client i (entry\<lparr>c_data_ready := 0\<rparr>) s))"
proof -
  have wf: "table_wf s" using assms(1) by (simp add: room_ok_def)
  let ?e = "s_client s ! nat i"
  obtain s1 where s1: "store_client i (?e\<lparr>c_data_ready := 0\<rparr>) s = Inr s1" "table_wf s1"
      "clients s1 = (clients s)[nat i := ?e\<lparr>c_data_ready := 0\<rparr>]"
    using store_client_wf [OF wf assms(2,3)] by blast
  have "room_ok s1"
  proof (cases "nat i < length (clients s)")
    case True
    then have "clients s ! nat i = ?e" by (simp add: clients_def)
    with True have "client_ok ?e" using assms(1) nth_mem by (fastforce simp: room_ok_def)
    then show ?thesis using s1 assms(1) store_client_safe [OF assms, of "?e\<lparr>c_data_ready := 0\<rparr>"]
      by (simp add: client_ok_def)
  next
    case False
    moreover have "s_name s1 = s_name s" using s1(1) by (auto simp: store_client_def split: if_splits)
    ultimately show ?thesis using s1 assms(1) by (simp add: room_ok_def list_update_beyond not_less)
  qed
  then show ?thesis by (simp add: get_any_client [OF wf assms(2,3)] s1(1))
qed

lemma handle_client_safe:
  assumes "room_ok s" and "sys_ok w" and "i < length (clients s)"
  shows "safe (\<lambda>(r, x). both_ok x) (server_handle_client s (int i) w)"
proof -
  have wf: "table_wf s" using assms(1) by (simp add: room_ok_def)
  then have i: "int i < int MAXCLIENTS" using assms(3) table_wf_count [OF wf] by simp
  have last: "safe (\<lambda>(r, x). both_ok x) (rbind (server_get_client s1 (int i)) (\<lambda>entry.
      map_res (\<lambda>server2. (0 :: int, server2, w2)) (store_client (int i) (entry\<lparr>c_data_ready := 0\<rparr>) s1)))"
    if "both_ok (s1, w2)" for s1 w2
    using reset_flag_safe [of s1 "int i"] that i
    by (cases "server_get_client s1 (int i)") (auto intro!: safe_map)
  show ?thesis
    unfolding server_handle_client_def get_client [OF wf assms(3)] rbind.simps
  proof (rule safe_bind_read [OF assms(2)])
    fix err :: int and m w1
    assume m: "mesg_ok m" "sys_ok w1"
    show "safe (\<lambda>(r, x). both_ok x) (rbind (check_fail (err = -1)) (\<lambda>_.
        rbind (take_action s (int i) m w1) (\<lambda>(server1, w2).
          rbind (server_get_client server1 (int i)) (\<lambda>entry.
            map_res (\<lambda>server2. (0 :: int, server2, w2))
              (store_client (int i) (entry\<lparr>c_data_ready := 0\<rparr>) server1)))))"
      by (rule safe_bind [OF check_fail_safe],
          rule safe_bind2 [OF action_safe [OF assms(1) m(2,1) assms(3)]], rule last) simp
  qed
qed

section \<open>The turns\<close>

lemma check_sources_safe:
  assumes "room_ok s"
  shows "safe room_ok (server_check_sources s w)"
proof -
  let ?s = "if join_readable w then s\<lparr>s_join_ready := 1\<rparr> else s"
  let ?P = "\<lambda>s1. room_ok s1 \<and> s_n_clients s1 = s_n_clients s"
  have s: "?P ?s" using assms by (simp add: room_ok_def table_wf_def clients_def)
  have "safe ?P (mark_ready w i s1)" if "i \<in> set [0..<nat (s_n_clients s)]" "?P s1" for i s1
  proof -
    have wf: "table_wf s1" and i: "i < length (clients s1)"
      using that by (auto simp: room_ok_def clients_def table_wf_def)
    from i wf have "int i < int MAXCLIENTS" using table_wf_count [OF wf] by simp
    moreover have "client_ok (clients s1 ! i)" using that(2) i by (auto simp: room_ok_def)
    ultimately have "safe room_ok (store_client (int i) ((clients s1 ! i)\<lparr>c_data_ready := 1\<rparr>) s1)"
      using that(2) by (intro store_client_safe) (auto simp: client_ok_def)
    then show ?thesis
      using that(2) by (auto simp: mark_ready_def get_client [OF wf i] safe_def store_client_def
          split: if_splits)
  qed
  from for_range_safe [of _ ?P, OF this s]
  have "safe ?P (for_range [0..<nat (s_n_clients s)] (mark_ready w) ?s)" .
  then have "safe room_ok (for_range [0..<nat (s_n_clients s)] (mark_ready w) ?s)"
    by (rule safe_weaken) simp
  then show ?thesis by (auto simp: server_check_sources_def intro!: safe_bind [OF check_fail_safe])
qed

lemma client_loop_safe:
  assumes "room_ok s" and "sys_ok w" and "0 \<le> i"
  shows "safe both_ok (client_loop i s w)"
  using assms
proof (induction i s w rule: client_loop.induct)
  case (1 i s w)
  show ?case
  proof (cases "i < s_n_clients s")
    case False
    then show ?thesis using "1.prems" by (subst client_loop.simps) simp
  next
    case True
    have wf: "table_wf s" using "1.prems"(1) by (simp add: room_ok_def)
    have i: "nat i < length (clients s)" "i = int (nat i)"
      using True "1.prems"(3) table_wf_count [OF wf] by auto
    have "safe both_ok (serve_client i s w)"
      using handle_client_safe [OF "1.prems"(1,2) i(1)] get_client [OF wf i(1)] "1.prems"(1,2) i(2)
      by (auto simp: serve_client_def server_client_ready_def intro!: safe_map)
    then have "safe both_ok (rbind (serve_client i s w) (\<lambda>(s1, w1). client_loop (i + 1) s1 w1))"
      by (rule safe_bind) (use "1.IH" [OF True] "1.prems"(3) in auto)
    then show ?thesis using True by (subst client_loop.simps) simp
  qed
qed

lemma turn_safe:
  assumes "room_ok s" and "sys_ok w"
  shows "safe both_ok (server_turn s w)"
proof -
  have "safe both_ok (if server_join_ready s1 \<noteq> 0 then map_res snd (server_handle_join s1 w)
      else Inr (s1, w))" if "room_ok s1" for s1
    using join_safe [OF that assms(2)] that assms(2) by (auto intro!: safe_map)
  then show ?thesis
    unfolding server_turn_eq
    by (auto intro!: safe_bind [OF check_sources_safe [OF assms(1)]] safe_bind client_loop_safe)
qed

text \<open>
  By the letter of the standard, a turn that handles a request has undefined behaviour where the name is
  copied, unless it has ended the process before; any other turn is as it is.
\<close>

definition handles_join :: "server_t \<Rightarrow> sys \<Rightarrow> bool" where
  "handles_join s w \<longleftrightarrow>
     (case server_check_sources s w of Inl e \<Rightarrow> False | Inr s1 \<Rightarrow> server_join_ready s1 \<noteq> 0)"

lemma join_strict:
  assumes "sys_ok w"
  shows "server_handle_join_strict s w = undef Buffer_Overflow
    \<or> (\<exists>e. server_handle_join s w = Inl e \<and> server_handle_join_strict s w = Inl e)"
proof -
  obtain err j w1 where r: "read_join (s_join_fd s) (say ''server_handle_join()'' w) = ((err, j), w1)"
    by (metis surj_pair)
  with read_join_ok [of "say ''server_handle_join()'' w" "s_join_fd s"] assms
  have name: "c_string (j_name j) = Inr (cstr (j_name j))" by (simp add: join_ok_def c_string_def)
  show ?thesis
    unfolding server_handle_join_strict_def server_handle_join_def handle_join_with_def r Let_def prod.case name
    by (cases "server_add_client s j w1") (auto simp: check_fail_def joined_mesg_overflows)
qed

lemma turn_strict:
  assumes "sys_ok w"
  shows "if handles_join s w
    then server_turn_strict s w = undef Buffer_Overflow \<or> (\<exists>e. server_turn s w = Inl e \<and> server_turn_strict s w = Inl e)
    else server_turn_strict s w = server_turn s w"
proof (cases "server_check_sources s w")
  case (Inl e)
  then show ?thesis by (simp add: handles_join_def server_turn_strict_def server_turn_def turn_with_def)
next
  case (Inr s1)
  then show ?thesis
    using join_strict [OF assms, of s1]
    by (auto simp: handles_join_def server_turn_strict_def server_turn_def turn_with_def)
qed

lemma remove_loop_safe:
  assumes "room_ok s" and "sys_ok w" and "0 \<le> i"
  shows "safe both_ok (remove_loop i s w)"
  using assms
proof (induction i s w rule: remove_loop.induct)
  case (1 i s w)
  show ?case
  proof (cases "i < s_n_clients s")
    case False
    then show ?thesis using "1.prems" by (subst remove_loop.simps) simp
  next
    case True
    have wf: "table_wf s" using "1.prems"(1) by (simp add: room_ok_def)
    have i: "nat i < length (clients s)" "i = int (nat i)"
      using True "1.prems"(3) table_wf_count [OF wf] by auto
    have "safe both_ok (shutdown_remove i s w)"
      unfolding shutdown_remove_def
      by (subst i(2), rule safe_bind [OF remove_client_safe [OF "1.prems"(1,2) i(1)]])
        (auto intro!: safe_bind [OF check_fail_safe])
    then have "safe both_ok (rbind (shutdown_remove i s w) (\<lambda>(s1, w1). remove_loop (i + 1) s1 w1))"
      by (rule safe_bind) (use "1.IH" [OF True] "1.prems"(3) in auto)
    then show ?thesis using True by (subst remove_loop.simps) simp
  qed
qed

lemma shutdown_safe:
  assumes "room_ok s" and "sys_ok w"
  shows "safe both_ok (server_shutdown s w)"
proof -
  have name: "c_string (s_name s) = Inr (cstr (s_name s))"
    using assms(1) by (simp add: room_ok_def c_string_def)
  have "sys_ok (snd (unlink n (snd (fd_close fd w))))" for n fd
    using unlink_ok fd_close_ok assms(2) by blast
  then show ?thesis
    unfolding server_shutdown_def name rbind.simps Let_def
    using assms(1)
    by (intro safe_bind2 [OF write_loop_safe [OF assms(1)]] remove_loop_safe)
      (auto simp: room_ok_def all_positions)
qed

section \<open>Reachable states\<close>

text \<open>What the clients and the file system do between two turns.\<close>

inductive env_step :: "sys \<Rightarrow> sys \<Rightarrow> bool" where
  message: "mesg_ok m \<Longrightarrow> env_step w (w\<lparr>v_fifo := (v_fifo w)(p := v_fifo w p @ [m])\<rparr>)"
| request: "join_ok j \<Longrightarrow> env_step w (w\<lparr>v_joins := v_joins w @ [j], v_join_peer := Present\<rparr>)"
| joiners_gone: "env_step w (w\<lparr>v_join_peer := Gone\<rparr>)"
| other_end: "env_step w (w\<lparr>v_peer := (v_peer w)(p := e)\<rparr>)"
| new_fifo: "env_step w (w\<lparr>v_files := insert p (v_files w)\<rparr>)"

inductive chat_reach :: "server_t \<Rightarrow> sys \<Rightarrow> server_t \<Rightarrow> sys \<Rightarrow> bool" for s0 w0 where
  start: "chat_reach s0 w0 s0 w0"
| turn: "chat_reach s0 w0 s w \<Longrightarrow> server_turn s w = Inr (s1, w1) \<Longrightarrow> chat_reach s0 w0 s1 w1"
| env: "chat_reach s0 w0 s w \<Longrightarrow> env_step w w1 \<Longrightarrow> chat_reach s0 w0 s w1"

lemma env_step_ok: "env_step w w1 \<Longrightarrow> sys_ok w \<Longrightarrow> sys_ok w1"
  by (induction rule: env_step.induct) (auto simp: sys_ok_def)

lemma chat_reach_ok:
  "chat_reach s0 w0 s w \<Longrightarrow> room_ok s0 \<Longrightarrow> sys_ok w0 \<Longrightarrow> room_ok s \<and> sys_ok w"
proof (induction rule: chat_reach.induct)
  case (turn s w s1 w1)
  then show ?case using turn_safe [of s w] by simp
qed (auto dest: env_step_ok)

lemma server_start_ok:
  assumes "bl_server [name] made e w0 = Inr (Some (s, w))" and "length name < MAXPATH" and "sys_ok w0"
  shows "room_ok s \<and> sys_ok w"
proof -
  from assms(1) have s: "s_n_clients s = 0" "s_client s = s_client server_zero"
      "s_name s = strncpy_bytes MAXPATH name"
      and w: "sys_ok w = sys_ok (snd (unlink name (say ''server_start()'' w0)))"
    by (auto simp: bl_server_def server_start_def check_fail_def Let_def sys_ok_def say_def split: if_splits)
  moreover have "NUL \<in> set (strncpy_bytes MAXPATH name)" using assms(2) by (simp add: strncpy_bytes_def)
  ultimately have "room_ok s" by (simp add: room_ok_def table_wf_def clients_def server_zero_def)
  moreover have "sys_ok w" unfolding w by (rule unlink_ok) (use assms(3) in simp)
  ultimately show ?thesis ..
qed

section \<open>Delivery\<close>

definition tc_path :: "client_t \<Rightarrow> string" where "tc_path c = cstr (c_to_client_fname c)"
definition ts_path :: "client_t \<Rightarrow> string" where "ts_path c = cstr (c_to_server_fname c)"

text \<open>A client that reads what is sent to it.\<close>

definition listening :: "sys \<Rightarrow> client_t \<Rightarrow> bool" where
  "listening w c \<longleftrightarrow> v_fds w (c_to_client_fd c) = Some (tc_path c) \<and> v_peer w (tc_path c) = Present"

definition copies :: "mesg_t \<Rightarrow> client_t list \<Rightarrow> (string \<times> mesg_t) list" where
  "copies m cs = map (\<lambda>c. (tc_path c, m)) cs"

lemma copies_simps [simp]:
  "copies m [] = []" "copies m (c # cs) = (tc_path c, m) # copies m cs"
  "copies m (a @ b) = copies m a @ copies m b"
  by (simp_all add: copies_def)

lemma fd_write_listening:
  "listening w c \<Longrightarrow>
   fd_write (c_to_client_fd c) m w = Inr (MESG_SIZE, w\<lparr>v_sent := v_sent w @ [(tc_path c, m)]\<rparr>)"
  by (simp add: listening_def fd_write_def)

lemma listening_sent [simp]: "listening (w\<lparr>v_sent := x\<rparr>) c = listening w c"
  by (simp add: listening_def)

text \<open>The loop from one position up to another, over the entries between them.\<close>

lemma write_loop_clients:
  assumes "table_wf s" and "clients s = a @ cs @ b" and "\<forall>c \<in> set cs. listening w c"
  shows "write_loop ([length a..<length a + length cs] @ is) s m w
    = write_loop is s m (w\<lparr>v_sent := v_sent w @ copies m cs\<rparr>)"
  using assms(2,3)
proof (induction cs arbitrary: a w)
  case Nil
  then show ?case by simp
next
  case (Cons c cs)
  let ?w = "w\<lparr>v_sent := v_sent w @ [(tc_path c, m)]\<rparr>"
  have "length a < length (clients s)" "clients s ! length a = c" using Cons.prems(1) by simp_all
  with get_client [OF assms(1)] have c: "server_get_client s (int (length a)) = Inr c" by metis
  have range: "[length a..<length a + length (c # cs)]
      = length a # [length (a @ [c])..<length (a @ [c]) + length cs]"
    using upt_conv_Cons [of "length a" "length a + length (c # cs)"] by (simp del: upt_Suc)
  have "write_loop ([length (a @ [c])..<length (a @ [c]) + length cs] @ is) s m ?w
      = write_loop is s m (?w\<lparr>v_sent := v_sent ?w @ copies m cs\<rparr>)"
    using Cons.prems by (intro Cons.IH) auto
  then show ?case
    using c Cons.prems(2) unfolding range by (simp add: fd_write_listening check_fail_def)
qed

lemma delivered_clients:
  assumes "table_wf s" and "clients s = a @ cs @ b" and "\<forall>c \<in> set cs. listening w c"
  shows "delivered ([length a..<length a + length cs] @ is) s m w
    = copies m cs @ delivered is s m (w\<lparr>v_sent := v_sent w @ copies m cs\<rparr>)"
  using assms(2,3)
proof (induction cs arbitrary: a w)
  case Nil
  then show ?case by simp
next
  case (Cons c cs)
  let ?w = "w\<lparr>v_sent := v_sent w @ [(tc_path c, m)]\<rparr>"
  have "length a < length (clients s)" "clients s ! length a = c" using Cons.prems(1) by simp_all
  with get_client [OF assms(1)] have c: "server_get_client s (int (length a)) = Inr c" by metis
  have range: "[length a..<length a + length (c # cs)]
      = length a # [length (a @ [c])..<length (a @ [c]) + length cs]"
    using upt_conv_Cons [of "length a" "length a + length (c # cs)"] by (simp del: upt_Suc)
  have "delivered ([length (a @ [c])..<length (a @ [c]) + length cs] @ is) s m ?w
      = copies m cs @ delivered is s m (?w\<lparr>v_sent := v_sent ?w @ copies m cs\<rparr>)"
    using Cons.prems by (intro Cons.IH) auto
  then show ?case
    using c Cons.prems(2) unfolding range by (simp add: fd_write_listening)
qed

text \<open>A loop that returns has put into the system what it delivered.\<close>

lemma write_loop_delivered:
  "write_loop is s m w = Inr (n, w1) \<Longrightarrow> v_sent w1 = v_sent w @ delivered is s m w"
proof (induction "is" arbitrary: w)
  case (Cons i "is")
  then obtain c where c: "server_get_client s (int i) = Inr c" by (cases "server_get_client s (int i)") simp_all
  with Cons.prems obtain err w2 where w2: "fd_write (c_to_client_fd c) m w = Inr (err, w2)"
    by (cases "fd_write (c_to_client_fd c) m w") auto
  have err: "err \<noteq> -1" using Cons.prems c w2 by (simp add: check_fail_def split: if_splits)
  then have pos: "\<not> err < 0" "v_sent w2 = v_sent w @ drop (length (v_sent w)) (v_sent w2)"
    using w2 by (auto simp: fd_write_def split: option.splits if_splits)
  have "write_loop is s m w2 = Inr (n, w1)" using Cons.prems c w2 err pos(1) by (simp add: check_fail_def)
  from Cons.IH [OF this] have "v_sent w1 = v_sent w2 @ delivered is s m w2" .
  then show ?case using c w2 pos by simp
qed simp

lemma write_all:
  assumes "table_wf s" and "\<forall>c \<in> set (clients s). listening w c"
  shows "write_loop [0..<nat (s_n_clients s)] s m w = Inr (0, w\<lparr>v_sent := v_sent w @ copies m (clients s)\<rparr>)"
  using write_loop_clients [of s "[]" "clients s" "[]" w "[]" m] assms table_wf_count [OF assms(1)] by simp

lemma broadcast_loop:
  assumes "mesg_ok m"
  obtains t where "server_broadcast s m w = write_loop [0..<nat (s_n_clients s)] s m (say t w)"
proof -
  obtain n b where "name_text m = Inr n" "body_text m = Inr b" using mesg_ok_text [OF assms] by blast
  then show ?thesis using that by (simp add: server_broadcast_def)
qed

lemma listening_say [simp]: "listening (say t w) c = listening w c"
  by (simp add: listening_def say_def)

lemma broadcast_all:
  assumes "table_wf s" and "\<forall>c \<in> set (clients s). listening w c" and "mesg_ok m"
  shows "\<exists>t. server_broadcast s m w = Inr (0, (say t w)\<lparr>v_sent := v_sent w @ copies m (clients s)\<rparr>)"
proof -
  obtain t where t: "server_broadcast s m w = write_loop [0..<nat (s_n_clients s)] s m (say t w)"
    using assms(3) by (rule broadcast_loop)
  have "\<forall>c \<in> set (clients s). listening (say t w) c" using assms(2) by simp
  from write_all [OF assms(1) this] show ?thesis unfolding t by (auto simp: say_def)
qed

text \<open>A client that has gone takes the server with it.\<close>

lemma broadcast_killed:
  assumes "table_wf s" and "clients s = a @ c # b" and "\<forall>x \<in> set a. listening w x"
    and "v_fds w (c_to_client_fd c) = Some (tc_path c)" and "v_peer w (tc_path c) = Gone" and "mesg_ok m"
  shows "server_broadcast s m w = Inl (Killed 13)"
proof -
  obtain t where t: "server_broadcast s m w = write_loop [0..<nat (s_n_clients s)] s m (say t w)"
    using assms(6) by (rule broadcast_loop)
  let ?is = "length a # [Suc (length a)..<nat (s_n_clients s)]"
  have n: "nat (s_n_clients s) = length a + length (c # b)"
    using table_wf_count [OF assms(1)] assms(2) by simp
  have range: "[0..<nat (s_n_clients s)] = [length ([] :: client_t list)..<length ([] :: client_t list) + length a] @ ?is"
    unfolding n using upt_add_eq_append [of 0 "length a" "length (c # b)"] upt_conv_Cons [of "length a"]
    by (simp del: upt_Suc)
  have c: "server_get_client s (int (length a)) = Inr c"
    using get_client [OF assms(1), of "length a"] assms(2) by simp
  let ?w = "(say t w)\<lparr>v_sent := v_sent (say t w) @ copies m a\<rparr>"
  have "write_loop ([length ([] :: client_t list)..<length ([] :: client_t list) + length a] @ ?is) s m (say t w)
      = write_loop ?is s m ?w"
    by (rule write_loop_clients [OF assms(1)]) (use assms(2,3) in simp_all)
  then have "server_broadcast s m w = write_loop ?is s m ?w" unfolding t range .
  moreover have "fd_write (c_to_client_fd c) m ?w = Inl (Killed 13)"
    using assms(4,5) by (simp add: fd_write_def say_def)
  ultimately show ?thesis by (simp add: c)
qed

section \<open>Clients come and go\<close>

text \<open>Those before it have the message then, and nobody else.\<close>

lemma killed_delivered:
  assumes "table_wf s" and "clients s = a @ c # b" and "\<forall>x \<in> set a. listening w x"
    and "v_fds w (c_to_client_fd c) = Some (tc_path c)" and "v_peer w (tc_path c) = Gone"
  shows "delivered [0..<nat (s_n_clients s)] s m w = copies m a"
proof -
  have n: "nat (s_n_clients s) = length a + Suc (length b)"
    using table_wf_count [OF assms(1)] assms(2) by simp
  let ?is = "length a # [Suc (length a)..<nat (s_n_clients s)]"
  have range: "[0..<nat (s_n_clients s)] = [length ([] :: client_t list)..<length ([] :: client_t list) + length a] @ ?is"
    unfolding n using upt_add_eq_append [of 0 "length a" "Suc (length b)"] upt_conv_Cons [of "length a"]
    by (simp del: upt_Suc)
  have c: "server_get_client s (int (length a)) = Inr c"
    using get_client [OF assms(1), of "length a"] assms(2) by simp
  have "delivered ([length ([] :: client_t list)..<length ([] :: client_t list) + length a] @ ?is) s m w
      = copies m a @ delivered ?is s m (w\<lparr>v_sent := v_sent w @ copies m a\<rparr>)"
    by (rule delivered_clients [OF assms(1)]) (use assms(2,3) in simp_all)
  then show ?thesis unfolding range using c assms(4,5) by (simp add: fd_write_def)
qed

definition fds_of :: "client_t \<Rightarrow> int list" where
  "fds_of c = [c_to_client_fd c, c_to_server_fd c]"

definition paths_of :: "client_t \<Rightarrow> string list" where
  "paths_of c = [tc_path c, ts_path c]"

text \<open>Every client has two descriptors and two FIFOs of its own.\<close>

definition room_live :: "server_t \<Rightarrow> sys \<Rightarrow> bool" where
  "room_live s w \<longleftrightarrow> table_wf s
     \<and> (\<forall>c \<in> set (clients s). client_ok c \<and> v_fds w (c_to_client_fd c) = Some (tc_path c)
          \<and> v_fds w (c_to_server_fd c) = Some (ts_path c))
     \<and> distinct (concat (map fds_of (clients s)))
     \<and> distinct (concat (map paths_of (clients s)))
     \<and> set (concat (map paths_of (clients s))) \<subseteq> v_files w"

lemma room_live_say [simp]: "room_live s (say t w) = room_live s w"
  by (simp add: room_live_def say_def)

text \<open>The system without a client's descriptors and FIFOs.\<close>

definition without :: "client_t \<Rightarrow> sys \<Rightarrow> sys" where
  "without c w =
     w\<lparr>v_fds := (v_fds w)(c_to_client_fd c := None, c_to_server_fd c := None),
       v_files := v_files w - set (paths_of c)\<rparr>"

lemma release_live:
  assumes "v_fds w (c_to_client_fd c) \<noteq> None" and "v_fds w (c_to_server_fd c) \<noteq> None"
    and "set (paths_of c) \<subseteq> v_files w" and "distinct (fds_of c)" and "distinct (paths_of c)"
  shows "release_client c (tc_path c) (ts_path c) w = (False, without c w)"
proof -
  have "v_files w - {tc_path c} - {ts_path c} = v_files w - set (paths_of c)" by (auto simp: paths_of_def)
  then show ?thesis
    using assms by (simp add: release_client_def fd_close_def unlink_def without_def fds_of_def paths_of_def)
qed

lemma remove_live:
  assumes "room_live s w" and "clients s = a @ c # b"
  shows "\<exists>s1. server_remove_client s (int (length a)) w
      = Inr (0, s1, without c (say (''server_remove_client(): '' @ show_int (int (length a))) w))
    \<and> clients s1 = a @ b \<and> room_live s1 (without c w) \<and> s1 = client_remove (length a) s
    \<and> s_name s1 = s_name s \<and> s_join_fd s1 = s_join_fd s"
proof -
  have wf: "table_wf s" using assms(1) by (simp add: room_live_def)
  have i: "length a < length (clients s)" using assms(2) by simp
  have c: "client_ok c" "v_fds w (c_to_client_fd c) = Some (tc_path c)"
      "v_fds w (c_to_server_fd c) = Some (ts_path c)" "set (paths_of c) \<subseteq> v_files w"
      "distinct (fds_of c)" "distinct (paths_of c)"
    using assms by (auto simp: room_live_def)
  obtain s1 where s1: "shift_clients (int (length a)) s = Inr s1" "table_wf s1" "clients s1 = a @ b"
      "s_name s1 = s_name s" "s_join_fd s1 = s_join_fd s"
    using shift_clients_wf [OF wf i] assms(2) by auto
  let ?w = "say (''server_remove_client(): '' @ show_int (int (length a))) w"
  have "release_client c (tc_path c) (ts_path c) ?w = (False, without c ?w)"
    using c by (intro release_live) (simp_all add: say_def)
  moreover have "c_string (c_to_client_fname c) = Inr (tc_path c)" "c_string (c_to_server_fname c) = Inr (ts_path c)"
    using c(1) by (simp_all add: client_ok_def c_string_def tc_path_def ts_path_def)
  moreover have "server_get_client s (int (length a)) = Inr c" using get_client [OF wf i] assms(2) by simp
  ultimately have "server_remove_client s (int (length a)) w = Inr (0, s1, without c ?w)"
    by (simp add: server_remove_client_def s1(1))
  moreover have "room_live s1 (without c w)"
  proof -
    have "client_ok x \<and> v_fds (without c w) (c_to_client_fd x) = Some (tc_path x)
        \<and> v_fds (without c w) (c_to_server_fd x) = Some (ts_path x)
        \<and> set (paths_of x) \<subseteq> v_files (without c w)" if "x \<in> set (a @ b)" for x
    proof -
      have "set (fds_of x) \<inter> set (fds_of c) = {}" "set (paths_of x) \<inter> set (paths_of c) = {}"
        using assms that by (auto simp: room_live_def)
      moreover have "client_ok x" "v_fds w (c_to_client_fd x) = Some (tc_path x)"
          "v_fds w (c_to_server_fd x) = Some (ts_path x)" "set (paths_of x) \<subseteq> v_files w"
        using assms that by (auto simp: room_live_def)
      ultimately show ?thesis by (auto simp: without_def fds_of_def)
    qed
    moreover have "distinct (concat (map fds_of (a @ b)))" "distinct (concat (map paths_of (a @ b)))"
      using assms by (auto simp: room_live_def)
    ultimately show ?thesis
      using s1(2,3) unfolding room_live_def by (auto simp: subset_iff)
  qed
  moreover have "s1 = client_remove (length a) s" by (simp add: client_remove_def s1(1))
  ultimately show ?thesis using s1 by blast
qed

text \<open>What a removal does not touch.\<close>

lemma without_frame [simp]:
  "v_sent (without c w) = v_sent w" "v_peer (without c w) = v_peer w" "v_fifo (without c w) = v_fifo w"
  "v_joins (without c w) = v_joins w"
  by (simp_all add: without_def)

lemma say_frame [simp]:
  "v_sent (say t w) = v_sent w" "v_peer (say t w) = v_peer w" "v_fifo (say t w) = v_fifo w"
  "v_joins (say t w) = v_joins w" "v_fds (say t w) = v_fds w" "v_files (say t w) = v_files w"
  "v_next_fd (say t w) = v_next_fd w"
  by (simp_all add: say_def)

lemma live_listening:
  "room_live s w \<Longrightarrow> c \<in> set (clients s) \<Longrightarrow> v_peer w (tc_path c) = Present \<Longrightarrow> listening w c"
  by (simp add: room_live_def listening_def)

text \<open>The flag at a position is reset in whatever entry is there now.\<close>

lemma reset_flag:
  assumes "table_wf s" and "i < MAXCLIENTS"
  shows "\<exists>s1. rbind (server_get_client s (int i)) (\<lambda>entry. store_client (int i) (entry\<lparr>c_data_ready := 0\<rparr>) s)
      = Inr s1 \<and> table_wf s1 \<and> clients s1 = (clients s)[i := (clients s ! i)\<lparr>c_data_ready := 0\<rparr>]"
proof -
  let ?e = "s_client s ! i"
  obtain s1 where s1: "store_client (int i) (?e\<lparr>c_data_ready := 0\<rparr>) s = Inr s1" "table_wf s1"
      "clients s1 = (clients s)[i := ?e\<lparr>c_data_ready := 0\<rparr>]"
    using store_client_wf [OF assms(1), of "int i" "?e\<lparr>c_data_ready := 0\<rparr>"] assms(2) by auto
  have "(clients s)[i := ?e\<lparr>c_data_ready := 0\<rparr>] = (clients s)[i := (clients s ! i)\<lparr>c_data_ready := 0\<rparr>]"
  proof (cases "i < length (clients s)")
    case True
    then show ?thesis by (simp add: clients_def)
  qed (simp add: list_update_beyond)
  then show ?thesis using s1 get_any_client [OF assms(1), of "int i"] assms(2) by simp
qed

text \<open>A message read from a client, the action on it, and the flag.\<close>

lemma handle_client_steps:
  assumes "table_wf s" and "clients s = a @ c # b" and "v_fds w (c_to_server_fd c) = Some p"
    and "v_fifo w p = m # ms"
    and "take_action s (int (length a)) m (w\<lparr>v_fifo := (v_fifo w)(p := ms)\<rparr>) = Inr (s1, w1)" and "table_wf s1"
  shows "\<exists>s2. server_handle_client s (int (length a)) w = Inr (0, s2, w1) \<and> table_wf s2
    \<and> clients s2 = (clients s1)[length a := (clients s1 ! length a)\<lparr>c_data_ready := 0\<rparr>]"
proof -
  have i: "length a < length (clients s)" using assms(2) by simp
  then have "length a < MAXCLIENTS" using table_wf_count [OF assms(1)] by simp
  from reset_flag [OF assms(6) this] obtain s2 where s2:
    "rbind (server_get_client s1 (int (length a))) (\<lambda>entry. store_client (int (length a)) (entry\<lparr>c_data_ready := 0\<rparr>) s1) = Inr s2"
    "table_wf s2" "clients s2 = (clients s1)[length a := (clients s1 ! length a)\<lparr>c_data_ready := 0\<rparr>]" by blast
  have "fd_read (c_to_server_fd c) w = Inr ((MESG_SIZE, m), w\<lparr>v_fifo := (v_fifo w)(p := ms)\<rparr>)"
    using assms(3,4) by (simp add: fd_read_def)
  moreover have "server_get_client s (int (length a)) = Inr c" using get_client [OF assms(1) i] assms(2) by simp
  ultimately have "server_handle_client s (int (length a)) w = Inr (0, s2, w1)"
    using assms(5) s2(1)
    by (cases "server_get_client s1 (int (length a))") (auto simp: server_handle_client_def check_fail_def)
  with s2 show ?thesis by blast
qed

lemma handle_mesg:
  assumes "table_wf s" and "clients s = a @ c # b" and "\<forall>x \<in> set (clients s). listening w x"
    and "v_fds w (c_to_server_fd c) = Some p" and "v_fifo w p = m # ms"
    and "mesg_ok m" and "m_kind m = kind_code BL_MESG"
  shows "\<exists>s1 w1. server_handle_client s (int (length a)) w = Inr (0, s1, w1)
    \<and> clients s1 = a @ c\<lparr>c_data_ready := 0\<rparr> # b
    \<and> v_sent w1 = v_sent w @ copies m (clients s) \<and> v_fifo w1 = (v_fifo w)(p := ms)"
proof -
  let ?w = "w\<lparr>v_fifo := (v_fifo w)(p := ms)\<rparr>"
  obtain n t where t: "name_text m = Inr n" "body_text m = Inr t" using mesg_ok_text [OF assms(6)] by blast
  have "\<forall>x \<in> set (clients s). listening (say y ?w) x" for y
    using assms(3) by (simp add: listening_def)
  from broadcast_all [OF assms(1) this assms(6)] obtain z where
    "server_broadcast s m (say (''server: mesg received from client '' @ show_int (int (length a)) @ '' '' @ n @ '' : '' @ t) ?w)
      = Inr (0, z)" "v_sent z = v_sent w @ copies m (clients s)" "v_fifo z = (v_fifo w)(p := ms)" by fastforce
  then have "take_action s (int (length a)) m ?w = Inr (s, z)"
    by (simp add: take_action_def t assms(7))
  from handle_client_steps [OF assms(1,2,4,5) this assms(1)] assms(2) show ?thesis
    using \<open>v_sent z = _\<close> \<open>v_fifo z = _\<close> by auto
qed

lemma handle_departed:
  assumes "room_live s w" and "clients s = a @ c # b" and "\<forall>x \<in> set (a @ b). v_peer w (tc_path x) = Present"
    and "v_fifo w (ts_path c) = m # ms" and "mesg_ok m" and "m_kind m = kind_code BL_DEPARTED"
  shows "\<exists>s1 w1. server_handle_client s (int (length a)) w = Inr (0, s1, w1)
    \<and> clients s1 = (a @ b)[length a := ((a @ b) ! length a)\<lparr>c_data_ready := 0\<rparr>]
    \<and> v_sent w1 = v_sent w @ copies m (a @ b) \<and> v_fifo w1 = (v_fifo w)(ts_path c := ms)
    \<and> v_files w1 = v_files w - set (paths_of c)"
proof -
  let ?w = "w\<lparr>v_fifo := (v_fifo w)(ts_path c := ms)\<rparr>"
  obtain n t where t: "name_text m = Inr n" "body_text m = Inr t" using mesg_ok_text [OF assms(5)] by blast
  let ?u = "say (''server: departed client '' @ show_int (int (length a)) @ '' '' @ n) ?w"
  have wf: "table_wf s" and fd: "v_fds w (c_to_server_fd c) = Some (ts_path c)"
    using assms(1,2) by (auto simp: room_live_def)
  have "room_live s ?u" using assms(1) by (simp add: room_live_def)
  from remove_live [OF this assms(2)] obtain s1 w1 where s1: "server_remove_client s (int (length a)) ?u = Inr (0, s1, w1)"
      "clients s1 = a @ b" "room_live s1 (without c ?u)"
      "w1 = without c (say (''server_remove_client(): '' @ show_int (int (length a))) ?u)" by blast
  have "room_live s1 w1" using s1(3) by (simp add: s1(4) room_live_def without_def)
  then have "\<forall>x \<in> set (clients s1). listening w1 x"
    using assms(3) by (auto intro!: live_listening simp: s1(2,4))
  from broadcast_all [OF _ this assms(5)] \<open>room_live s1 w1\<close> obtain z where z: "server_broadcast s1 m w1 = Inr (0, z)"
      "v_sent z = v_sent w @ copies m (a @ b)" "v_fifo z = (v_fifo w)(ts_path c := ms)"
      "v_files z = v_files w - set (paths_of c)"
    by (fastforce simp: s1(2,4) room_live_def without_def)
  have "take_action s (int (length a)) m ?w = Inr (s1, z)"
    using s1(1) z(1) by (simp add: take_action_def t assms(6))
  from handle_client_steps [OF wf assms(2) fd assms(4) this] \<open>room_live s1 w1\<close> z s1(2) show ?thesis
    by (auto simp: room_live_def)
qed

section \<open>Shutdown\<close>

lemma remove_loop_live:
  assumes "room_live s w" and "0 \<le> i"
  shows "\<exists>s1 w1. remove_loop i s w = Inr (s1, w1) \<and> room_live s1 w1 \<and> v_sent w1 = v_sent w
    \<and> clients s1 = take (nat i) (clients s) @ odds (drop (nat i) (clients s))"
  using assms
proof (induction i s w rule: remove_loop.induct)
  case (1 i s w)
  have wf: "table_wf s" using "1.prems"(1) by (simp add: room_live_def)
  show ?case
  proof (cases "i < s_n_clients s")
    case False
    then have "length (clients s) \<le> nat i" using table_wf_count [OF wf] by simp
    then show ?thesis using False "1.prems"(1) by (subst remove_loop.simps) simp
  next
    case True
    then have i: "nat i < length (clients s)" using table_wf_count [OF wf] "1.prems"(2) by simp
    let ?a = "take (nat i) (clients s)"
    have split: "clients s = ?a @ clients s ! nat i # drop (Suc (nat i)) (clients s)" and a: "length ?a = nat i"
      using i id_take_nth_drop by auto
    from remove_live [OF "1.prems"(1) split] a "1.prems"(2) obtain s1 w1 where s1:
      "server_remove_client s i w = Inr (0, s1, w1)" "v_sent w1 = v_sent w"
      "room_live s1 (without (clients s ! nat i) w)" "s1 = client_remove (nat i) s"
      "w1 = without (clients s ! nat i) (say (''server_remove_client(): '' @ show_int i) w)" by auto
    have "room_live s1 w1" using s1(3) by (simp add: s1(5) room_live_def without_def)
    moreover have "shutdown_remove i s w = Inr (s1, w1)"
      using s1(1) by (simp add: shutdown_remove_def check_fail_def)
    moreover have "nat (i + 1) = Suc (nat i)" using "1.prems"(2) by simp
    moreover have "take (Suc (nat i)) (clients s1) @ odds (drop (Suc (nat i)) (clients s1))
        = take (nat i) (clients s) @ odds (drop (nat i) (clients s))"
      unfolding s1(4) by (rule chat.sweep_step [OF wf i])
    ultimately show ?thesis
      using "1.IH" [OF True, of "(s1, w1)" s1 w1] True "1.prems"(2) s1(2)
      by (subst remove_loop.simps) simp
  qed
qed

definition shutdown_mesg :: mesg_t where
  "shutdown_mesg = mesg_zero\<lparr>m_kind := kind_code BL_SHUTDOWN\<rparr>"

text \<open>The join FIFO is none of the clients'.\<close>

definition join_apart :: "server_t \<Rightarrow> bool" where
  "join_apart s \<longleftrightarrow> NUL \<in> set (s_name s) \<and> cstr (s_name s) \<notin> set (concat (map paths_of (clients s)))
     \<and> s_join_fd s \<notin> set (concat (map fds_of (clients s)))"

lemma shutdown_live:
  assumes "room_live s w" and "join_apart s" and "\<forall>c \<in> set (clients s). v_peer w (tc_path c) = Present"
  shows "\<exists>s1 w1. server_shutdown s w = Inr (s1, w1) \<and> room_live s1 w1
    \<and> clients s1 = odds (clients s) \<and> v_sent w1 = v_sent w @ copies shutdown_mesg (clients s)"
proof -
  let ?v = "snd (unlink (cstr (s_name s)) (snd (fd_close (s_join_fd s) w)))"
  have wf: "table_wf s" using assms(1) by (simp add: room_live_def)
  have name: "c_string (s_name s) = Inr (cstr (s_name s))"
    using assms(2) by (simp add: join_apart_def c_string_def)
  have v: "v_files ?v = v_files w - {cstr (s_name s)}" "v_peer ?v = v_peer w" "v_sent ?v = v_sent w"
      "fd \<noteq> s_join_fd s \<Longrightarrow> v_fds ?v fd = v_fds w fd" for fd
    by (auto simp: unlink_def fd_close_def)
  have "c_to_client_fd c \<noteq> s_join_fd s \<and> c_to_server_fd c \<noteq> s_join_fd s
      \<and> cstr (s_name s) \<notin> set (paths_of c)" if "c \<in> set (clients s)" for c
    using assms(2) that by (auto simp: join_apart_def fds_of_def)
  then have live: "room_live s ?v"
    using assms(1) by (auto simp: room_live_def v)
  then have "\<forall>c \<in> set (clients s). listening ?v c"
    using assms(3) by (auto intro!: live_listening simp: v)
  from write_all [OF wf this, of shutdown_mesg]
  have w: "write_loop [0..<nat (s_n_clients s)] s shutdown_mesg ?v
      = Inr (0, ?v\<lparr>v_sent := v_sent w @ copies shutdown_mesg (clients s)\<rparr>)" by (simp add: v)
  have "room_live s (?v\<lparr>v_sent := x\<rparr>)" for x using live by (simp add: room_live_def)
  from remove_loop_live [OF this, of 0] obtain s1 w1 where
    "remove_loop 0 s (?v\<lparr>v_sent := v_sent w @ copies shutdown_mesg (clients s)\<rparr>) = Inr (s1, w1)"
    "room_live s1 w1" "clients s1 = odds (clients s)" "v_sent w1 = v_sent w @ copies shutdown_mesg (clients s)"
    by fastforce
  with w show ?thesis by (auto simp: server_shutdown_def name Let_def shutdown_mesg_def)
qed

section \<open>Requests to join\<close>

lemma c_string_ok: "NUL \<in> set b \<Longrightarrow> c_string b = Inr (cstr b)"
  by (simp add: c_string_def)

lemma join_strings:
  "join_ok j \<Longrightarrow> c_string (j_name j) = Inr (cstr (j_name j))
     \<and> c_string (j_to_client j) = Inr (cstr (j_to_client j))
     \<and> c_string (j_to_server j) = Inr (cstr (j_to_server j))"
  by (simp add: join_ok_def c_string_ok)

lemma read_join_some:
  "v_fds w fd \<noteq> None \<Longrightarrow> v_joins w = j # js \<Longrightarrow> read_join fd w = ((JOIN_SIZE, j), w\<lparr>v_joins := js\<rparr>)"
  by (simp add: read_join_def)

text \<open>With the table full, the request changes nothing but the newcomer is announced.\<close>

lemma join_full:
  assumes "table_wf s" and "length (clients s) = MAXCLIENTS" and "\<forall>c \<in> set (clients s). listening w c"
    and "v_fds w (s_join_fd s) \<noteq> None" and "v_joins w = j # js" and "join_ok j"
  shows "\<exists>w1. server_handle_join s w = Inr (0, s\<lparr>s_join_ready := 0\<rparr>, w1)
    \<and> v_sent w1 = v_sent w @ copies (joined_mesg (cstr (j_name j))) (clients s)"
proof -
  have n: "s_n_clients s = int MAXCLIENTS" using table_wf_count [OF assms(1)] assms(2) by simp
  let ?w = "(say ''server_handle_join()'' w)\<lparr>v_joins := js\<rparr>"
  have r: "read_join (s_join_fd s) (say ''server_handle_join()'' w) = ((JOIN_SIZE, j), ?w)"
    using assms(4,5) by (intro read_join_some) simp_all
  obtain t where add: "server_add_client s j ?w = Inr (-1, s, say t ?w)"
    using join_strings [OF assms(6)] n by (simp add: server_add_client_def)
  have "\<forall>c \<in> set (clients s). listening (say t ?w) c"
    using assms(3) by (simp add: listening_def)
  from broadcast_all [OF assms(1) this joined_mesg_ok] obtain y where
    b: "server_broadcast s (joined_mesg (cstr (j_name j))) (say t ?w)
      = Inr (0, (say y (say t ?w))\<lparr>v_sent := v_sent w @ copies (joined_mesg (cstr (j_name j))) (clients s)\<rparr>)"
    by (auto simp del: listening_say)
  show ?thesis
    unfolding server_handle_join_eq r prod.case Let_def
    using add b join_strings [OF assms(6)] by (simp add: check_fail_def)
qed

lemma new_client_paths:
  assumes "NUL \<notin> set tc" and "length tc \<le> MAXPATH"
  shows "tc_path (new_client n f g tc ts) = tc"
  using assms cstr_padded [OF assms(1)] by (simp add: tc_path_def new_client_def strncpy_bytes_def)

text \<open>The two FIFOs of a newcomer are opened with the next two descriptors.\<close>

definition with_fds :: "string \<Rightarrow> string \<Rightarrow> sys \<Rightarrow> sys" where
  "with_fds tc ts w = w\<lparr>v_next_fd := v_next_fd w + 1 + 1,
     v_fds := (v_fds w)(v_next_fd w := Some tc, v_next_fd w + 1 := Some ts)\<rparr>"

lemma add_client_room:
  assumes "join_ok j" and "s_n_clients s \<noteq> int MAXCLIENTS" and "0 \<le> v_next_fd w"
    and "{cstr (j_to_client j), cstr (j_to_server j)} \<subseteq> v_files w - {[]}"
    and "v_peer w (cstr (j_to_client j)) = Present" and "v_peer w (cstr (j_to_server j)) = Present"
    and "append_client (new_client (cstr (j_name j)) (v_next_fd w) (v_next_fd w + 1)
      (cstr (j_to_client j)) (cstr (j_to_server j))) s = Inr s1"
  shows "\<exists>t. server_add_client s j w
    = Inr (0, s1, with_fds (cstr (j_to_client j)) (cstr (j_to_server j)) (say t w))"
proof -
  let ?tc = "cstr (j_to_client j)" and ?ts = "cstr (j_to_server j)"
  let ?t = "''server_add_client(): '' @ cstr (j_name j) @ '' '' @ ?tc @ '' '' @ ?ts"
  have 1: "fd_open ?tc (say t w) = Inr (v_next_fd w, (say t w)\<lparr>v_next_fd := v_next_fd w + 1,
      v_fds := (v_fds w)(v_next_fd w := Some ?tc)\<rparr>)" for t
    using assms(4,5) by (simp add: fd_open_def)
  have 2: "fd_open ?ts ((say t w)\<lparr>v_next_fd := v_next_fd w + 1, v_fds := (v_fds w)(v_next_fd w := Some ?tc)\<rparr>)
      = Inr (v_next_fd w + 1, with_fds ?tc ?ts (say t w))" for t
    using assms(4,6) by (simp add: fd_open_def with_fds_def)
  have "server_add_client s j w = Inr (0, s1, with_fds ?tc ?ts (say ?t w))"
    using join_strings [OF assms(1)] assms(2,3,7)
    by (simp only: server_add_client_def rbind.simps Let_def 1 2 prod.case) (simp add: check_fail_def)
  then show ?thesis by blast
qed

text \<open>With room, the newcomer is entered behind the others and announced to all, itself
included.\<close>

lemma join_room:
  assumes "room_live s w" and "length (clients s) < MAXCLIENTS" and "\<forall>c \<in> set (clients s). listening w c"
    and "v_fds w (s_join_fd s) \<noteq> None" and "v_joins w = j # js" and "join_ok j"
    and "\<forall>fd. v_fds w fd \<noteq> None \<longrightarrow> fd < v_next_fd w" and "0 \<le> v_next_fd w"
    and "{cstr (j_to_client j), cstr (j_to_server j)} \<subseteq> v_files w - {[]}"
    and "v_peer w (cstr (j_to_client j)) = Present" and "v_peer w (cstr (j_to_server j)) = Present"
  shows "\<exists>s1 w1. server_handle_join s w = Inr (0, s1, w1)
    \<and> clients s1 = clients s @ [new_client (cstr (j_name j)) (v_next_fd w) (v_next_fd w + 1)
        (cstr (j_to_client j)) (cstr (j_to_server j))]
    \<and> v_sent w1 = v_sent w @ copies (joined_mesg (cstr (j_name j))) (clients s1)"
proof -
  let ?tc = "cstr (j_to_client j)" and ?ts = "cstr (j_to_server j)" and ?n = "v_next_fd w"
  have wf: "table_wf s" using assms(1) by (simp add: room_live_def)
  have n: "s_n_clients s \<noteq> int MAXCLIENTS" using table_wf_count [OF wf] assms(2) by simp
  let ?w = "(say ''server_handle_join()'' w)\<lparr>v_joins := js\<rparr>"
  let ?c = "new_client (cstr (j_name j)) ?n (?n + 1) ?tc ?ts"
  have r: "read_join (s_join_fd s) (say ''server_handle_join()'' w) = ((JOIN_SIZE, j), ?w)"
    using assms(4,5) by (intro read_join_some) simp_all
  obtain s1 where s1: "append_client ?c s = Inr s1" "table_wf s1" "clients s1 = clients s @ [?c]"
    using append_client_wf [OF wf assms(2)] by blast
  have fresh: "v_fds w ?n = None" "v_fds w (?n + 1) = None" using assms(7) by force+
  define w2 where "w2 = (\<lambda>t. with_fds ?tc ?ts (say t ?w))"
  obtain t where add: "server_add_client s j ?w = Inr (0, s1, w2 t)"
    using add_client_room [OF assms(6) n, of ?w s1] s1(1) assms(8-11) by (auto simp: w2_def)
  have w2: "v_fds (w2 t) = (v_fds w)(?n := Some ?tc, ?n + 1 := Some ?ts)" "v_peer (w2 t) = v_peer w"
      "v_sent (w2 t) = v_sent w"
    by (simp_all add: w2_def with_fds_def)
  have "length ?tc \<le> MAXPATH" using length_cstr_le [of "j_to_client j"] assms(6) by (simp add: join_ok_def)
  then have path: "tc_path ?c = ?tc" by (intro new_client_paths cstr_no_nul)
  have "listening (w2 t) x" if "x \<in> set (clients s)" for x
  proof -
    have "listening w x" using assms(3) that by simp
    moreover have "c_to_client_fd x \<noteq> ?n" "c_to_client_fd x \<noteq> ?n + 1"
      using calculation fresh by (auto simp: listening_def)
    ultimately show ?thesis by (simp add: listening_def w2)
  qed
  moreover have "c_to_client_fd ?c = ?n" by (simp add: new_client_def)
  then have "listening (w2 t) ?c" using path assms(10) by (simp add: listening_def w2)
  ultimately have "\<forall>x \<in> set (clients s1). listening (w2 t) x" by (simp add: s1(3))
  from broadcast_all [OF s1(2) this joined_mesg_ok] obtain y where
    b: "server_broadcast s1 (joined_mesg (cstr (j_name j))) (w2 t)
      = Inr (0, (say y (w2 t))\<lparr>v_sent := v_sent w @ copies (joined_mesg (cstr (j_name j))) (clients s1)\<rparr>)"
    by (auto simp: w2)
  have "server_handle_join s w = Inr (0, s1\<lparr>s_join_ready := 0\<rparr>,
      (say y (w2 t))\<lparr>v_sent := v_sent w @ copies (joined_mesg (cstr (j_name j))) (clients s1)\<rparr>)"
    unfolding server_handle_join_eq r prod.case Let_def
    using add b join_strings [OF assms(6)] by (simp add: check_fail_def)
  moreover have "clients (s1\<lparr>s_join_ready := 0\<rparr>) = clients s1" by (simp add: clients_def)
  ultimately show ?thesis using s1(3) by auto
qed

section \<open>The last client leaves\<close>

lemma mark_ready_Inr:
  assumes "table_wf s" and "i < length (clients s)"
  shows "\<exists>s1. mark_ready w i s = Inr s1 \<and> table_wf s1 \<and> s_n_clients s1 = s_n_clients s
    \<and> s_join_fd s1 = s_join_fd s \<and> s_join_ready s1 = s_join_ready s"
proof -
  have "int i < int MAXCLIENTS" using assms(2) table_wf_count [OF assms(1)] by simp
  then obtain s1 where s1: "store_client (int i) ((clients s ! i)\<lparr>c_data_ready := 1\<rparr>) s = Inr s1" "table_wf s1"
      "s_n_clients s1 = s_n_clients s" using store_client_wf [OF assms(1), of "int i"] by fastforce
  then have "s_join_fd s1 = s_join_fd s \<and> s_join_ready s1 = s_join_ready s"
    by (auto simp: store_client_def split: if_splits)
  with s1 assms show ?thesis by (simp add: mark_ready_def get_client)
qed

lemma check_sources_join:
  assumes "table_wf s" and "\<not> select_fails s w" and "join_readable w"
  shows "\<exists>s1. server_check_sources s w = Inr s1 \<and> s_join_ready s1 = 1
    \<and> s_n_clients s1 = s_n_clients s \<and> s_join_fd s1 = s_join_fd s"
proof -
  let ?s = "s\<lparr>s_join_ready := 1\<rparr>"
  let ?P = "\<lambda>x. table_wf x \<and> s_n_clients x = s_n_clients s \<and> s_join_fd x = s_join_fd s \<and> s_join_ready x = 1"
  have "?P ?s" using assms(1) by (simp add: table_wf_def)
  moreover have "\<exists>y. mark_ready w i x = Inr y \<and> ?P y" if "i \<in> set [0..<nat (s_n_clients s)]" "?P x" for i x
  proof -
    have "i < length (clients x)" using that by (auto simp: table_wf_def clients_def)
    from mark_ready_Inr [OF _ this] that(2) show ?thesis by auto
  qed
  ultimately have "\<exists>y. for_range [0..<nat (s_n_clients s)] (mark_ready w) ?s = Inr y \<and> ?P y"
    by (rule for_range_exists)
  then show ?thesis
    using assms(2,3) by (auto simp: server_check_sources_def check_fail_def select_waits_def)
qed

text \<open>When all writers of the join FIFO are gone, it reads as an empty request, whose empty path
cannot be opened.\<close>

lemma empty_join:
  assumes "s_n_clients s \<noteq> int MAXCLIENTS" and "v_fds w (s_join_fd s) \<noteq> None"
    and "v_joins w = []" and "v_join_peer w = Gone"
  shows "server_handle_join s w = Inl (Exit 1)"
proof -
  have empty: "c_string (replicate MAXPATH NUL) = Inr []"
    using cstr_padded [of "[]" MAXPATH] by (simp add: c_string_def)
  have "read_join (s_join_fd s) (say t w) = ((0, join_zero), say t w)" for t
    using assms(2-4) by (simp add: read_join_def say_def)
  then show ?thesis
    using assms(1)
    by (simp add: server_handle_join_eq check_fail_def server_add_client_def join_zero_def empty fd_open_def)
qed

lemma last_leaver:
  assumes "room_live s w" and "length (clients s) < MAXCLIENTS" and "v_fds w (s_join_fd s) \<noteq> None"
    and "v_joins w = []" and "v_join_peer w = Gone"
  shows "server_turn s w = Inl (Exit 1)"
proof -
  have wf: "table_wf s" using assms(1) by (simp add: room_live_def)
  have "\<not> select_fails s w"
    using assms(1,3) by (auto simp: select_fails_def room_live_def clients_def)
  from check_sources_join [OF wf this] assms(5) obtain s1 where
    s1: "server_check_sources s w = Inr s1" "s_join_ready s1 = 1" "s_n_clients s1 = s_n_clients s"
      "s_join_fd s1 = s_join_fd s" by (auto simp: join_readable_def)
  have "s_n_clients s1 \<noteq> int MAXCLIENTS" using s1(3) assms(2) table_wf_count [OF wf] by simp
  from empty_join [OF this, of w] assms(3-5) s1(4) have "server_handle_join s1 w = Inl (Exit 1)" by simp
  then show ?thesis by (simp add: server_turn_eq s1(1,2) server_join_ready_def)
qed

lemma full_at_end:
  assumes "table_wf s" and "length (clients s) = MAXCLIENTS" and "\<forall>c \<in> set (clients s). listening w c"
    and "v_fds w (s_join_fd s) \<noteq> None" and "v_joins w = []" and "v_join_peer w = Gone"
  shows "\<exists>w1. server_handle_join s w = Inr (0, s\<lparr>s_join_ready := 0\<rparr>, w1)
    \<and> v_sent w1 = v_sent w @ copies (joined_mesg []) (clients s) \<and> join_readable w1"
proof -
  have n: "s_n_clients s = int MAXCLIENTS" using table_wf_count [OF assms(1)] assms(2) by simp
  have empty: "c_string (replicate MAXPATH NUL) = Inr []"
    using cstr_padded [of "[]" MAXPATH] by (simp add: c_string_def)
  have r: "read_join (s_join_fd s) (say t w) = ((0, join_zero), say t w)" for t
    using assms(4-6) by (simp add: read_join_def say_def)
  obtain t where add: "server_add_client s join_zero (say ''server_handle_join()'' w)
      = Inr (-1, s, say t (say ''server_handle_join()'' w))"
    using n by (simp add: server_add_client_def join_zero_def empty)
  let ?w = "say t (say ''server_handle_join()'' w)"
  have "\<forall>c \<in> set (clients s). listening ?w c" using assms(3) by simp
  from broadcast_all [OF assms(1) this joined_mesg_ok] obtain y where
    b: "server_broadcast s (joined_mesg []) ?w = Inr (0, (say y ?w)\<lparr>v_sent := v_sent ?w @ copies (joined_mesg []) (clients s)\<rparr>)"
    by blast
  have "server_handle_join s w
      = Inr (0, s\<lparr>s_join_ready := 0\<rparr>, (say y ?w)\<lparr>v_sent := v_sent ?w @ copies (joined_mesg []) (clients s)\<rparr>)"
    unfolding server_handle_join_eq r prod.case Let_def using add b by (simp add: check_fail_def join_zero_def empty)
  then show ?thesis using assms(6) by (auto simp: join_readable_def say_def)
qed

section \<open>A room with two clients\<close>

definition bob :: client_t where "bob = new_client ''bob'' 4 5 ''tb'' ''sb''"
definition eve :: client_t where "eve = new_client ''eve'' 6 7 ''te'' ''se''"

definition demo_server :: server_t where
  "demo_server = server_zero\<lparr>s_name := strncpy_bytes MAXPATH ''room'', s_join_fd := 3,
     s_n_clients := 2, s_client := bob # eve # replicate 254 client_zero\<rparr>"

definition demo_sys :: sys where
  "demo_sys =
     \<lparr>v_files = {''room'', ''tb'', ''sb'', ''te'', ''se''}, v_peer = (\<lambda>_. Present), v_fifo = (\<lambda>_. []),
      v_joins = [], v_join_peer = Present,
      v_fds = [3 \<mapsto> ''room'', 4 \<mapsto> ''tb'', 5 \<mapsto> ''sb'', 6 \<mapsto> ''te'', 7 \<mapsto> ''se''],
      v_next_fd = 8, v_sent = [], v_out = []\<rparr>"

lemma cstr_strncpy_bytes: "NUL \<notin> set t \<Longrightarrow> length t \<le> n \<Longrightarrow> cstr (strncpy_bytes n t) = t"
  by (simp add: strncpy_bytes_def cstr_padded)

lemma demo_clients [simp]:
  "clients demo_server = [bob, eve]" "table_wf demo_server" "s_join_fd demo_server = 3"
  "s_n_clients demo_server = 2"
  by (simp_all add: clients_def demo_server_def table_wf_def numeral_2_eq_2)

lemma demo_paths [simp]:
  "tc_path bob = ''tb''" "ts_path bob = ''sb''" "tc_path eve = ''te''" "ts_path eve = ''se''"
  by (simp_all add: tc_path_def ts_path_def bob_def eve_def new_client_def cstr_strncpy_bytes)

lemma demo_fds [simp]:
  "c_to_client_fd bob = 4" "c_to_server_fd bob = 5" "c_to_client_fd eve = 6" "c_to_server_fd eve = 7"
  by (simp_all add: bob_def eve_def new_client_def)

lemma demo_live: "room_live demo_server demo_sys"
  by (simp add: room_live_def demo_sys_def fds_of_def paths_of_def)
    (simp add: bob_def eve_def new_client_ok)

lemma demo_listening: "\<forall>c \<in> set (clients demo_server). listening demo_sys c"
  by (simp add: listening_def demo_sys_def)

lemma demo_apart: "join_apart demo_server"
proof -
  have "NUL \<in> set (strncpy_bytes MAXPATH ''room'')" by (simp add: strncpy_bytes_def)
  then show ?thesis
    by (simp add: join_apart_def fds_of_def paths_of_def) (simp add: demo_server_def cstr_strncpy_bytes)
qed

definition demo_join :: "join_t" where
  "demo_join = \<lparr>j_name = strncpy_bytes MAXPATH ''zoe'', j_to_client = strncpy_bytes MAXPATH ''tb'',
     j_to_server = strncpy_bytes MAXPATH ''sb''\<rparr>"

lemma demo_join_ok: "join_ok demo_join"
  by (simp add: join_ok_def demo_join_def) (simp add: strncpy_bytes_def)

section \<open>Properties\<close>

text \<open>
  C6. In every state the server can be in between two turns, whatever clients do whose strings are
  terminated, it counts at most 256 clients; and with the name of a newcomer spilling out of its array
  into the body of the message, neither the next turn nor a shutdown at that moment has undefined behaviour:
  each returns, waits, or ends the process. By the letter of the C standard this copy is undefined: then
  a turn that handles a request to join never completes, for it overflows the array, unless the process
  has ended before; and every other turn is as it is.
\<close>

theorem chat_server_safe:
  assumes "bl_server [name] made e w0 = Inr (Some (s0, w1))" and "length name < MAXPATH" and "sys_ok w0"
    and "chat_reach s0 w1 s w"
  shows "0 \<le> s_n_clients s \<and> s_n_clients s \<le> int MAXCLIENTS
    \<and> (\<forall>u. server_turn s w \<noteq> undef u) \<and> (\<forall>u. handle_signals s w \<noteq> undef u)
    \<and> (if handles_join s w
       then server_turn_strict s w = undef Buffer_Overflow \<or> (\<exists>e. server_turn s w = Inl e \<and> server_turn_strict s w = Inl e)
       else server_turn_strict s w = server_turn s w)"
proof -
  from server_start_ok [OF assms(1-3)] have ok: "room_ok s" "sys_ok w"
    using chat_reach_ok [OF assms(4)] by auto
  have "safe both_ok (handle_signals s w)"
    unfolding handle_signals_def by (rule safe_bind [OF shutdown_safe [OF ok]]) simp
  with turn_safe [OF ok] ok(1) have "0 \<le> s_n_clients s \<and> s_n_clients s \<le> int MAXCLIENTS
      \<and> (\<forall>u. server_turn s w \<noteq> undef u) \<and> (\<forall>u. handle_signals s w \<noteq> undef u)"
    by (simp add: safe_def room_ok_def table_wf_def)
  with turn_strict [OF ok(2)] show ?thesis by blast
qed

theorem chat_server_safe_witness:
  "\<exists>s w. bl_server [''room''] True 0 demo_sys = Inr (Some (s, w)) \<and> s_n_clients s \<le> 256
    \<and> (\<forall>u. server_turn s w \<noteq> undef u)"
proof -
  obtain s w where sw: "bl_server [''room''] True 0 demo_sys = Inr (Some (s, w))"
    by (simp add: bl_server_def server_start_def check_fail_def Let_def)
  have "sys_ok demo_sys" by (simp add: sys_ok_def demo_sys_def)
  from chat_server_safe [OF sw _ this chat_reach.start] sw show ?thesis by auto
qed

text \<open>
  A broadcast writes one copy of the message to every client, in the order of the table, and
  changes nothing else but the standard output, when all of them listen.
\<close>

theorem broadcast_delivers:
  assumes "table_wf s" and "\<forall>c \<in> set (clients s). listening w c" and "mesg_ok m"
  shows "\<exists>t. server_broadcast s m w = Inr (0, (say t w)\<lparr>v_sent := v_sent w @ copies m (clients s)\<rparr>)"
  using assms by (rule broadcast_all)

theorem broadcast_delivers_witness:
  "\<exists>t. server_broadcast demo_server shutdown_mesg demo_sys
    = Inr (0, (say t demo_sys)\<lparr>v_sent := [(''tb'', shutdown_mesg), (''te'', shutdown_mesg)]\<rparr>)"
proof -
  have "mesg_ok shutdown_mesg" "v_sent demo_sys = []" by (simp_all add: shutdown_mesg_def demo_sys_def)
  then show ?thesis using broadcast_delivers [OF _ demo_listening] by simp
qed

text \<open>
  C20. A message a client has written reaches every client of the room, the sender included,
  exactly once; it is taken from the sender's FIFO, and only the sender's flag is reset.
\<close>

theorem message_reaches_all:
  assumes "table_wf s" and "clients s = a @ c # b" and "\<forall>x \<in> set (clients s). listening w x"
    and "v_fds w (c_to_server_fd c) = Some p" and "v_fifo w p = m # ms"
    and "mesg_ok m" and "m_kind m = kind_code BL_MESG"
  shows "\<exists>s1 w1. server_handle_client s (int (length a)) w = Inr (0, s1, w1)
    \<and> clients s1 = a @ c\<lparr>c_data_ready := 0\<rparr> # b
    \<and> v_sent w1 = v_sent w @ copies m (clients s) \<and> v_fifo w1 = (v_fifo w)(p := ms)"
  using assms by (rule handle_mesg)

theorem message_reaches_all_witness:
  "let m = mesg_zero\<lparr>m_kind := 10\<rparr> in
   \<exists>s1 w1. server_handle_client demo_server 1 (demo_sys\<lparr>v_fifo := (\<lambda>_. [m])\<rparr>) = Inr (0, s1, w1)
    \<and> v_sent w1 = [(''tb'', m), (''te'', m)]"
proof -
  let ?m = "mesg_zero\<lparr>m_kind := 10\<rparr>" and ?w = "demo_sys\<lparr>v_fifo := (\<lambda>_. [mesg_zero\<lparr>m_kind := 10\<rparr>])\<rparr>"
  have "\<forall>x \<in> set (clients demo_server). listening ?w x" using demo_listening by (simp add: listening_def)
  from message_reaches_all [OF _ _ this, of "[bob]" eve "[]" "''se''" ?m "[]"]
  show ?thesis by (auto simp: demo_sys_def Let_def)
qed

text \<open>
  When a client departs, its descriptors and FIFOs are given up, the others keep their order and
  are told, and nothing waiting in their FIFOs is lost. The flag that is reset is that of
  the client that moved into the freed position.
\<close>

theorem departure_updates_room:
  assumes "room_live s w" and "clients s = a @ c # b" and "\<forall>x \<in> set (a @ b). v_peer w (tc_path x) = Present"
    and "v_fifo w (ts_path c) = m # ms" and "mesg_ok m" and "m_kind m = kind_code BL_DEPARTED"
  shows "\<exists>s1 w1. server_handle_client s (int (length a)) w = Inr (0, s1, w1)
    \<and> clients s1 = (a @ b)[length a := ((a @ b) ! length a)\<lparr>c_data_ready := 0\<rparr>]
    \<and> v_sent w1 = v_sent w @ copies m (a @ b) \<and> v_fifo w1 = (v_fifo w)(ts_path c := ms)
    \<and> v_files w1 = v_files w - set (paths_of c)"
  using assms by (rule handle_departed)

theorem departure_updates_room_witness:
  "let m = mesg_zero\<lparr>m_kind := 30\<rparr> in
   \<exists>s1 w1. server_handle_client demo_server 0 (demo_sys\<lparr>v_fifo := (\<lambda>_. [m])\<rparr>) = Inr (0, s1, w1)
    \<and> clients s1 = [eve\<lparr>c_data_ready := 0\<rparr>] \<and> v_sent w1 = [(''te'', m)]"
proof -
  let ?m = "mesg_zero\<lparr>m_kind := 30\<rparr>" and ?w = "demo_sys\<lparr>v_fifo := (\<lambda>_. [mesg_zero\<lparr>m_kind := 30\<rparr>])\<rparr>"
  have "room_live demo_server ?w" using demo_live by (simp add: room_live_def)
  from departure_updates_room [OF this, of "[]" bob "[eve]" ?m "[]"]
  show ?thesis by (auto simp: demo_sys_def Let_def)
qed

text \<open>
  A request to join enters the newcomer behind the others, with its name, the next two
  descriptors and its FIFOs, and announces it to all, itself included.
\<close>

theorem join_enters_client:
  assumes "room_live s w" and "length (clients s) < MAXCLIENTS" and "\<forall>c \<in> set (clients s). listening w c"
    and "v_fds w (s_join_fd s) \<noteq> None" and "v_joins w = j # js" and "join_ok j"
    and "\<forall>fd. v_fds w fd \<noteq> None \<longrightarrow> fd < v_next_fd w" and "0 \<le> v_next_fd w"
    and "{cstr (j_to_client j), cstr (j_to_server j)} \<subseteq> v_files w - {[]}"
    and "v_peer w (cstr (j_to_client j)) = Present" and "v_peer w (cstr (j_to_server j)) = Present"
  shows "\<exists>s1 w1. server_handle_join s w = Inr (0, s1, w1)
    \<and> clients s1 = clients s @ [new_client (cstr (j_name j)) (v_next_fd w) (v_next_fd w + 1)
        (cstr (j_to_client j)) (cstr (j_to_server j))]
    \<and> v_sent w1 = v_sent w @ copies (joined_mesg (cstr (j_name j))) (clients s1)"
  using assms by (rule join_room)

theorem join_enters_client_witness:
  "\<exists>s1 w1. server_handle_join demo_server (demo_sys\<lparr>v_joins := [demo_join]\<rparr>) = Inr (0, s1, w1)
    \<and> clients s1 = [bob, eve, new_client ''zoe'' 8 9 ''tb'' ''sb'']"
proof -
  let ?w = "demo_sys\<lparr>v_joins := [demo_join]\<rparr>"
  have "room_live demo_server ?w" using demo_live by (simp add: room_live_def)
  moreover have "\<forall>c \<in> set (clients demo_server). listening ?w c"
    using demo_listening by (simp add: listening_def)
  moreover have "cstr (j_name demo_join) = ''zoe''" "cstr (j_to_client demo_join) = ''tb''"
      "cstr (j_to_server demo_join) = ''sb''"
    by (simp_all add: demo_join_def cstr_strncpy_bytes)
  moreover have "\<forall>fd. v_fds ?w fd \<noteq> None \<longrightarrow> fd < v_next_fd ?w"
    by (auto simp: demo_sys_def split: if_splits)
  moreover have "v_next_fd ?w = 8" "v_joins ?w = [demo_join]" "v_fds ?w 3 \<noteq> None"
      "{''tb'', ''sb''} \<subseteq> v_files ?w - {[]}" "v_peer ?w p = Present" for p
    by (simp_all add: demo_sys_def)
  ultimately show ?thesis
    using join_enters_client [of demo_server ?w demo_join "[]"] demo_join_ok by fastforce
qed

text \<open>
  A request to join a full room leaves the table as it is, but the client that was not taken in
  is announced to everybody all the same.
\<close>

theorem full_room_announces:
  assumes "table_wf s" and "length (clients s) = MAXCLIENTS" and "\<forall>c \<in> set (clients s). listening w c"
    and "v_fds w (s_join_fd s) \<noteq> None" and "v_joins w = j # js" and "join_ok j"
  shows "\<exists>w1. server_handle_join s w = Inr (0, s\<lparr>s_join_ready := 0\<rparr>, w1)
    \<and> v_sent w1 = v_sent w @ copies (joined_mesg (cstr (j_name j))) (clients s)"
  using assms by (rule join_full)

theorem full_room_announces_witness:
  "\<exists>w1. server_handle_join (demo_server\<lparr>s_n_clients := 256, s_client := replicate 256 bob\<rparr>)
      (demo_sys\<lparr>v_joins := [demo_join]\<rparr>)
    = Inr (0, demo_server\<lparr>s_n_clients := 256, s_client := replicate 256 bob, s_join_ready := 0\<rparr>, w1)
    \<and> v_sent w1 = copies (joined_mesg ''zoe'') (replicate 256 bob)"
proof -
  let ?s = "demo_server\<lparr>s_n_clients := 256, s_client := replicate 256 bob\<rparr>"
    and ?w = "demo_sys\<lparr>v_joins := [demo_join]\<rparr>"
  have s: "table_wf ?s" "clients ?s = replicate 256 bob" by (simp_all add: table_wf_def clients_def)
  moreover have "listening ?w bob" by (simp add: listening_def demo_sys_def)
  moreover have "cstr (j_name demo_join) = ''zoe''" by (simp add: demo_join_def cstr_strncpy_bytes)
  moreover have "v_fds ?w (s_join_fd ?s) \<noteq> None" "v_sent ?w = []" by (simp_all add: demo_sys_def)
  ultimately show ?thesis
    using full_room_announces [OF s(1), of ?w demo_join "[]"] demo_join_ok by simp
qed

text \<open>
  C37. Once every process that had the join FIFO open is gone, the end of the file counts as a
  request to join, with an empty name and empty paths. Unless the room is full, the next turn of the server
  ends it with exit status 1. In a full room whose clients listen, the empty name is announced to
  all of them, and the FIFO is as readable as before, so that the next turn does the same.
\<close>

theorem last_leaver_stops_server:
  assumes "room_live s w" and "v_fds w (s_join_fd s) \<noteq> None" and "v_joins w = []" and "v_join_peer w = Gone"
  shows "(length (clients s) < MAXCLIENTS \<longrightarrow> server_turn s w = Inl (Exit 1))
    \<and> (length (clients s) = MAXCLIENTS \<and> (\<forall>c \<in> set (clients s). listening w c) \<longrightarrow>
        (\<exists>w1. server_handle_join s w = Inr (0, s\<lparr>s_join_ready := 0\<rparr>, w1)
          \<and> v_sent w1 = v_sent w @ copies (joined_mesg []) (clients s) \<and> join_readable w1))"
  using last_leaver [OF assms(1) _ assms(2-4)] full_at_end [of s w] assms by (auto simp: room_live_def)

theorem last_leaver_stops_server_witness:
  "server_turn demo_server (demo_sys\<lparr>v_join_peer := Gone\<rparr>) = Inl (Exit 1)"
proof -
  have "room_live demo_server (demo_sys\<lparr>v_join_peer := Gone\<rparr>)" using demo_live by (simp add: room_live_def)
  then show ?thesis using last_leaver_stops_server by (simp add: demo_sys_def)
qed

text \<open>
  A broadcast that comes to a client that has closed its FIFO without departing kills the
  server with \<open>SIGPIPE\<close>: those before it in the table have been written the message, and
  neither this client nor those behind it get it.
\<close>

theorem gone_client_kills_server:
  assumes "table_wf s" and "clients s = a @ c # b" and "\<forall>x \<in> set a. listening w x"
    and "v_fds w (c_to_client_fd c) = Some (tc_path c)" and "v_peer w (tc_path c) = Gone" and "mesg_ok m"
  shows "server_broadcast s m w = Inl (Killed 13)
    \<and> delivered [0..<nat (s_n_clients s)] s m w = copies m a"
  using broadcast_killed [OF assms] killed_delivered [OF assms(1-5)] by blast

theorem gone_client_kills_server_witness:
  "server_broadcast demo_server mesg_zero (demo_sys\<lparr>v_peer := (\<lambda>_. Present)(''te'' := Gone)\<rparr>)
    = Inl (Killed 13)"
  using gone_client_kills_server [of demo_server "[bob]" eve "[]"]
  by (simp add: listening_def demo_sys_def)

text \<open>
  A shutdown tells every client, but gives up only every other one of them: those at the odd
  positions of the table are still there at the end, with their FIFOs.
\<close>

theorem shutdown_keeps_every_other:
  assumes "room_live s w" and "join_apart s" and "\<forall>c \<in> set (clients s). v_peer w (tc_path c) = Present"
  shows "\<exists>s1 w1. server_shutdown s w = Inr (s1, w1) \<and> room_live s1 w1
    \<and> clients s1 = odds (clients s) \<and> v_sent w1 = v_sent w @ copies shutdown_mesg (clients s)"
  using assms by (rule shutdown_live)

theorem shutdown_keeps_every_other_witness:
  "\<exists>s1 w1. server_shutdown demo_server demo_sys = Inr (s1, w1) \<and> clients s1 = [eve]
    \<and> v_sent w1 = [(''tb'', shutdown_mesg), (''te'', shutdown_mesg)]"
  using shutdown_keeps_every_other [OF demo_live demo_apart] by (auto simp: demo_sys_def)

end
