(* ===== verification/Chat_Order.thy ===== *)
theory Chat_Order
  imports Chat_Room "HOL-Library.Sublist"
begin

text \<open>
  What a chat room is, and that \<open>Unix_Chat_Service/server.c\<close> with the loop of \<open>bl-server.c\<close> is one:
  a list of members and a history of events, each of which is told to all members of the moment.
  From the history follow the order in which clients receive messages and that none is lost.
\<close>

section \<open>The room as a history\<close>

text \<open>
  A member is its two FIFOs, to the server and from the server. It enters behind the others, or is
  refused; a message is taken from the member at a position.
\<close>

type_synonym member = "string \<times> string"

datatype room_event = Entered member string | Refused string | Took nat mesg_t

definition to_all :: "mesg_t \<Rightarrow> member list \<Rightarrow> (string \<times> mesg_t) list" where
  "to_all m ms = map (\<lambda>c. (snd c, m)) ms"

fun room_step :: "room_event \<Rightarrow> member list \<Rightarrow> member list \<times> (string \<times> mesg_t) list" where
  "room_step (Entered c name) ms = (ms @ [c], to_all (joined_mesg name) (ms @ [c]))"
| "room_step (Refused name) ms = (ms, to_all (joined_mesg name) ms)"
| "room_step (Took i m) ms =
     (if m_kind m = kind_code BL_MESG then (ms, to_all m ms)
      else if m_kind m = kind_code BL_DEPARTED then
        (take i ms @ drop (Suc i) ms, to_all m (take i ms @ drop (Suc i) ms))
      else (ms, []))"

fun event_read :: "room_event \<Rightarrow> member list \<Rightarrow> (string \<times> mesg_t) list" where
  "event_read (Took i m) ms = [(fst (ms ! i), m)]"
| "event_read e ms = []"

text \<open>The members after a history, what was written to the FIFOs and what was read from them.\<close>

fun members_after :: "room_event list \<Rightarrow> member list \<Rightarrow> member list" where
  "members_after [] ms = ms"
| "members_after (e # es) ms = members_after es (fst (room_step e ms))"

fun given :: "room_event list \<Rightarrow> member list \<Rightarrow> (string \<times> mesg_t) list" where
  "given [] ms = []"
| "given (e # es) ms = snd (room_step e ms) @ given es (fst (room_step e ms))"

fun taken :: "room_event list \<Rightarrow> member list \<Rightarrow> (string \<times> mesg_t) list" where
  "taken [] ms = []"
| "taken (e # es) ms = event_read e ms @ taken es (fst (room_step e ms))"

definition via :: "string \<Rightarrow> (string \<times> mesg_t) list \<Rightarrow> mesg_t list" where
  "via p ds = map snd (filter (\<lambda>d. fst d = p) ds)"

lemma via_simps [simp]:
  "via p [] = []" "via p (d # ds) = (if fst d = p then snd d # via p ds else via p ds)"
  "via p (ds @ es) = via p ds @ via p es"
  by (simp_all add: via_def)

lemma history_append:
  "members_after (es @ fs) ms = members_after fs (members_after es ms)"
  "given (es @ fs) ms = given es ms @ given fs (members_after es ms)"
  "taken (es @ fs) ms = taken es ms @ taken fs (members_after es ms)"
  by (induction es arbitrary: ms) simp_all

section \<open>The order of deliveries\<close>

text \<open>The members that ever were, with their names.\<close>

fun admitted :: "room_event list \<Rightarrow> (member \<times> string) list" where
  "admitted [] = []"
| "admitted (Entered c name # es) = (c, name) # admitted es"
| "admitted (e # es) = admitted es"

definition entrants :: "room_event list \<Rightarrow> member list" where
  "entrants es = map fst (admitted es)"

text \<open>The names that were announced.\<close>

fun named :: "room_event list \<Rightarrow> string list" where
  "named [] = []"
| "named (Entered c name # es) = name # named es"
| "named (Refused name # es) = name # named es"
| "named (Took i m # es) = named es"

lemma named_append [simp]: "named (es @ fs) = named es @ named fs"
  by (induction es rule: named.induct) simp_all

lemma admitted_append [simp]: "admitted (es @ fs) = admitted es @ admitted fs"
  by (induction es rule: admitted.induct) simp_all

lemma entrants_simps [simp]:
  "entrants [] = []" "entrants (Entered c name # es) = c # entrants es"
  "entrants (Refused name # es) = entrants es" "entrants (Took i m # es) = entrants es"
  "entrants (es @ fs) = entrants es @ entrants fs"
  by (simp_all add: entrants_def)

lemma room_step_members:
  "set (fst (room_step e ms)) \<subseteq> set ms \<union> set (entrants [e])"
  "snd ` set (fst (room_step e ms)) \<subseteq> snd ` set ms \<union> snd ` set (entrants [e])"
proof -
  show *: "set (fst (room_step e ms)) \<subseteq> set ms \<union> set (entrants [e])"
    by (cases e) (auto dest: in_set_takeD in_set_dropD)
  then show "snd ` set (fst (room_step e ms)) \<subseteq> snd ` set ms \<union> snd ` set (entrants [e])" by blast
qed

lemma members_entrants: "set (members_after es ms) \<subseteq> set ms \<union> set (entrants es)"
proof (induction es arbitrary: ms)
  case (Cons e es)
  have "set (entrants (e # es)) = set (entrants [e]) \<union> set (entrants es)" by (cases e) auto
  with Cons.IH [of "fst (room_step e ms)"] room_step_members(1) [of e ms] show ?case by auto
qed simp

text \<open>Every event tells all members of the moment, or none.\<close>

lemma room_step_out: "snd (room_step e ms) = [] \<or> (\<exists>m. snd (room_step e ms) = to_all m (fst (room_step e ms)))"
  by (cases e) auto

lemma to_all_paths: "fst ` set (to_all m ms) = snd ` set ms"
  by (auto simp: to_all_def image_image)

lemma entrants_Cons: "set (entrants (e # es)) = set (entrants [e]) \<union> set (entrants es)"
  by (cases e) auto

lemma given_paths: "p \<in> fst ` set (given es ms) \<Longrightarrow> p \<in> snd ` set ms \<or> p \<in> snd ` set (entrants es)"
proof (induction es arbitrary: ms)
  case (Cons e es)
  have "p \<in> snd ` set (fst (room_step e ms))" if "p \<in> fst ` set (snd (room_step e ms))"
    using room_step_out [of e ms] that by (elim disjE exE) (simp_all add: to_all_paths)
  with Cons have "p \<in> snd ` set (fst (room_step e ms)) \<or> p \<in> snd ` set (entrants es)"
    by (simp add: image_Un) blast
  moreover have "p \<in> snd ` set (entrants (e # es)) \<longleftrightarrow> p \<in> snd ` set (entrants [e]) \<or> p \<in> snd ` set (entrants es)"
    unfolding entrants_Cons [of e es] image_Un by simp
  ultimately show ?case using room_step_members(2) [of e ms] by (meson Un_iff subsetD)
qed simp

lemma via_none: "p \<notin> fst ` set ds \<Longrightarrow> via p ds = []"
  by (auto simp: via_def filter_empty_conv)

lemma via_to_all:
  "distinct (map snd ms) \<Longrightarrow> via p (to_all m ms) = (if p \<in> snd ` set ms then [m] else [])"
  by (induction ms) (auto simp: to_all_def)

lemma room_step_told:
  assumes "distinct (map snd (fst (room_step e ms)))"
  shows "\<exists>xs. \<forall>c \<in> set (fst (room_step e ms)). via (snd c) (snd (room_step e ms)) = xs"
proof -
  from room_step_out [of e ms] show ?thesis using via_to_all [OF assms] by (elim disjE exE) (auto intro!: exI)
qed

abbreviation in_order :: "(string \<times> mesg_t) list \<Rightarrow> member list \<Rightarrow> bool" where
  "in_order ds \<equiv> sorted_wrt (\<lambda>a b. suffix (via (snd b) ds) (via (snd a) ds))"

lemma in_order_later:
  assumes "in_order ds ms" and "\<forall>c \<in> set ms. via (snd c) es = xs"
  shows "in_order (ds @ es) ms"
  by (rule sorted_wrt_mono_rel [OF _ assms(1)]) (use assms(2) in \<open>simp add: suffix_append\<close>)

text \<open>A removal keeps the order of the others.\<close>

lemma removed_cases:
  obtains "take i xs @ drop (Suc i) xs = xs" | x where "xs = take i xs @ x # drop (Suc i) xs"
proof (cases "i < length xs")
  case True
  show ?thesis by (rule that(2) [OF id_take_nth_drop [OF True]])
next
  case False
  with that(1) show ?thesis by simp
qed

lemma in_order_removed:
  assumes "in_order ds ms" and "distinct (map snd ms)"
  shows "in_order ds (take i ms @ drop (Suc i) ms) \<and> distinct (map snd (take i ms @ drop (Suc i) ms))"
proof (cases rule: removed_cases [of i ms])
  case (2 x)
  then obtain a b where "ms = a @ x # b" "take i ms = a" "drop (Suc i) ms = b" by blast
  with assms show ?thesis by (auto simp: sorted_wrt_append)
qed (use assms in simp)

text \<open>
  In a room whose members all have a FIFO of their own, what a later member has received is a
  suffix of what an earlier one has.
\<close>

lemma history_in_order:
  assumes "distinct (map snd (entrants es))"
  shows "in_order (given es []) (members_after es []) \<and> distinct (map snd (members_after es []))"
  using assms
proof (induction es rule: rev_induct)
  case (snoc e es)
  let ?ms = "members_after es []" and ?ds = "given es []"
  have IH: "in_order ?ds ?ms" "distinct (map snd ?ms)" using snoc by auto
  have "in_order ?ds (fst (room_step e ?ms)) \<and> distinct (map snd (fst (room_step e ?ms)))"
  proof (cases e)
    case (Entered c name)
    have new: "snd c \<notin> snd ` set (entrants es)" using snoc.prems Entered by auto
    then have "via (snd c) ?ds = []" using given_paths [of "snd c" es "[]"] by (intro via_none) auto
    moreover have "snd c \<notin> snd ` set ?ms" using new members_entrants [of es "[]"] by auto
    ultimately show ?thesis using IH Entered by (simp add: sorted_wrt_append)
  next
    case (Took i m)
    then show ?thesis using IH in_order_removed [OF IH] by simp
  qed (use IH in simp)
  moreover from this obtain xs where "\<forall>c \<in> set (fst (room_step e ?ms)). via (snd c) (snd (room_step e ?ms)) = xs"
    using room_step_told by blast
  ultimately show ?case
    using in_order_later [of ?ds "fst (room_step e ?ms)" "snd (room_step e ?ms)" xs]
    by (simp add: history_append del: via_simps)
qed simp

text \<open>The first thing a member receives is its own announcement.\<close>

definition announced :: "room_event list \<Rightarrow> (string \<times> mesg_t) list \<Rightarrow> member \<Rightarrow> bool" where
  "announced es ds c \<longleftrightarrow> (\<exists>name ms. (c, name) \<in> set (admitted es) \<and> via (snd c) ds = joined_mesg name # ms)"

lemma announced_later: "announced es ds c \<Longrightarrow> announced (es @ fs) (ds @ xs) c"
  by (auto simp: announced_def)

lemma history_announced:
  assumes "distinct (map snd (entrants es))" and "c \<in> set (members_after es [])"
  shows "announced es (given es []) c"
  using assms
proof (induction es rule: rev_induct)
  case (snoc e es)
  show ?case
  proof (cases "c \<in> set (members_after es [])")
    case True
    with snoc show ?thesis by (simp add: history_append announced_later)
  next
    case False
    then have c: "c \<in> set (fst (room_step e (members_after es [])))" "c \<notin> set (members_after es [])"
      using snoc.prems(2) by (simp_all add: history_append)
    then obtain name where e: "e = Entered c name" by (cases e) (auto dest: in_set_takeD in_set_dropD split: if_splits)
    have "snd c \<notin> snd ` set (entrants es)" using snoc.prems(1) by (auto simp: e)
    then have "via (snd c) (given es []) = []" using given_paths [of "snd c" es "[]"] by (intro via_none) auto
    moreover have "distinct (map snd (members_after es [] @ [c]))"
      using history_in_order [OF snoc.prems(1)] by (simp add: history_append e)
    then have "via (snd c) (to_all (joined_mesg name) (members_after es [] @ [c])) = [joined_mesg name]"
      using via_to_all by simp
    ultimately show ?thesis by (auto simp: announced_def history_append e)
  qed
qed simp

text \<open>Members are told what members said and who enters, and nothing else.\<close>

lemma given_origin:
  "(p, m) \<in> set (given es ms) \<Longrightarrow>
   m_kind m \<in> {kind_code BL_MESG, kind_code BL_DEPARTED} \<and> m \<in> snd ` set (taken es ms)
   \<or> (\<exists>name \<in> set (named es). m = joined_mesg name)"
proof (induction es arbitrary: ms)
  case (Cons e es)
  consider "(p, m) \<in> set (snd (room_step e ms))" | "(p, m) \<in> set (given es (fst (room_step e ms)))"
    using Cons.prems by auto
  then show ?case
  proof cases
    case 1
    then show ?thesis by (cases e) (auto simp: to_all_def split: if_splits)
  next
    case 2
    have "set (named es) \<subseteq> set (named (e # es))" by (cases e) auto
    moreover have "set (taken es (fst (room_step e ms))) \<subseteq> set (taken (e # es) ms)" by simp
    ultimately show ?thesis using Cons.IH [OF 2] by blast
  qed
qed simp

section \<open>The server is such a room\<close>

text \<open>
  What links the table to the descriptors: each client's are opened on its own FIFOs, or closed
  again, and no new descriptor is one of them.
\<close>

definition entry :: "client_t \<Rightarrow> (int \<times> string) \<times> (int \<times> string)" where
  "entry c = ((c_to_server_fd c, ts_path c), (c_to_client_fd c, tc_path c))"

definition entries :: "server_t \<Rightarrow> ((int \<times> string) \<times> (int \<times> string)) list" where
  "entries s = map entry (clients s)"

definition members :: "server_t \<Rightarrow> member list" where
  "members s = map (map_prod snd snd) (entries s)"

definition fd_linked :: "sys \<Rightarrow> int \<times> string \<Rightarrow> bool" where
  "fd_linked w x \<longleftrightarrow> fst x < v_next_fd w \<and> (v_fds w (fst x) = None \<or> v_fds w (fst x) = Some (snd x))"

definition linked :: "server_t \<Rightarrow> sys \<Rightarrow> bool" where
  "linked s w \<longleftrightarrow> room_ok s \<and> sys_ok w \<and> (\<forall>x \<in> set (entries s). fd_linked w (fst x) \<and> fd_linked w (snd x))"

lemma entry_flag [simp]: "entry (c\<lparr>c_data_ready := r\<rparr>) = entry c"
  by (simp add: entry_def ts_path_def tc_path_def)

lemma members_clients: "members s = map (\<lambda>c. (ts_path c, tc_path c)) (clients s)"
  by (simp add: members_def entries_def entry_def)

lemma entries_flag:
  "i < length (clients s) \<longrightarrow> entry c = entry (clients s ! i) \<Longrightarrow> map entry ((clients s)[i := c]) = entries s"
  by (cases "i < length (clients s)") (simp_all add: entries_def map_update list_update_same_conv list_update_beyond)

text \<open>A later system, in which descriptors may have been closed and new ones opened.\<close>

definition fds_later :: "sys \<Rightarrow> sys \<Rightarrow> bool" where
  "fds_later w w1 \<longleftrightarrow> v_next_fd w \<le> v_next_fd w1
     \<and> (\<forall>fd < v_next_fd w. v_fds w1 fd = None \<or> v_fds w1 fd = v_fds w fd)"

lemma fds_later_trans [trans]: "fds_later w w1 \<Longrightarrow> fds_later w1 w2 \<Longrightarrow> fds_later w w2"
  unfolding fds_later_def by (metis order_less_le_trans order_trans)

lemma fds_later_same: "v_fds w1 = v_fds w \<Longrightarrow> v_next_fd w1 = v_next_fd w \<Longrightarrow> fds_later w w1"
  by (simp add: fds_later_def)

lemma fd_linked_later: "fd_linked w x \<Longrightarrow> fds_later w w1 \<Longrightarrow> fd_linked w1 x"
  unfolding fd_linked_def fds_later_def by (metis order_less_le_trans)

text \<open>
  Who asks to be let in, as which member. A history answers requests, read in order, when those it lets in
  asked for it; a name that is announced is that of a request, or empty when the end of the
  file was taken for one.
\<close>

definition asked :: "join_t \<Rightarrow> member \<times> string" where
  "asked j = ((cstr (j_to_server j), cstr (j_to_client j)), cstr (j_name j))"

definition answers :: "room_event list \<Rightarrow> join_t list \<Rightarrow> join_t list \<Rightarrow> bool" where
  "answers es js js1 \<longleftrightarrow> (\<exists>ks. js = ks @ js1 \<and> subseq (admitted es) (map asked ks)
     \<and> set (named es) \<subseteq> insert [] ((snd \<circ> asked) ` set ks))"

lemma answers_none [simp]: "answers [] js js" "answers [Took i m] js js"
  by (simp_all add: answers_def)

lemma answers_trans:
  assumes "answers es js js1" and "answers fs js1 js2"
  shows "answers (es @ fs) js js2"
proof -
  from assms obtain ks ls where "js = ks @ ls @ js2" "subseq (admitted es) (map asked ks)"
      "subseq (admitted fs) (map asked ls)" "set (named es) \<subseteq> insert [] ((snd \<circ> asked) ` set ks)"
      "set (named fs) \<subseteq> insert [] ((snd \<circ> asked) ` set ls)" unfolding answers_def by blast
  then show ?thesis
    using list_emb_append_mono unfolding answers_def by (intro exI [of _ "ks @ ls"]) auto
qed

lemma answers_frame: "answers es js js1 \<Longrightarrow> answers es (js @ ks) (js1 @ ks)"
  by (auto simp: answers_def)

text \<open>What the server has done between two states, as a history.\<close>

definition acts :: "server_t \<Rightarrow> sys \<Rightarrow> room_event list \<Rightarrow> server_t \<Rightarrow> sys \<Rightarrow> bool" where
  "acts s w es s1 w1 \<longleftrightarrow> linked s1 w1 \<and> members s1 = members_after es (members s)
     \<and> v_sent w1 = v_sent w @ given es (members s)
     \<and> (\<forall>p. v_fifo w p = via p (taken es (members s)) @ v_fifo w1 p)
     \<and> answers es (v_joins w) (v_joins w1)"

lemma acts_trans: "acts s w es s1 w1 \<Longrightarrow> acts s1 w1 fs s2 w2 \<Longrightarrow> acts s w (es @ fs) s2 w2"
  unfolding acts_def by (auto simp: history_append intro: answers_trans)

lemma acts_none:
  "linked s w \<Longrightarrow> room_ok s1 \<Longrightarrow> entries s1 = entries s \<Longrightarrow> acts s w [] s1 w"
  by (simp add: acts_def linked_def members_def)

subsection \<open>Telling all\<close>

lemma linked_at:
  assumes "linked s w" and "i < length (clients s)"
  shows "fd_linked w (c_to_server_fd (clients s ! i), ts_path (clients s ! i))"
    and "fd_linked w (c_to_client_fd (clients s ! i), tc_path (clients s ! i))"
proof -
  have "entry (clients s ! i) \<in> set (entries s)" using assms(2) by (simp add: entries_def)
  with assms(1) have "fd_linked w (fst (entry (clients s ! i))) \<and> fd_linked w (snd (entry (clients s ! i)))"
    by (simp add: linked_def)
  then show "fd_linked w (c_to_server_fd (clients s ! i), ts_path (clients s ! i))"
    and "fd_linked w (c_to_client_fd (clients s ! i), tc_path (clients s ! i))"
    by (simp_all add: entry_def)
qed

lemma linked_frame:
  "v_fds w1 = v_fds w \<Longrightarrow> v_next_fd w1 = v_next_fd w \<Longrightarrow> sys_ok w1 \<Longrightarrow> linked s w \<Longrightarrow> linked s w1"
  by (simp add: linked_def fd_linked_def)

lemma linked_later:
  "linked s w \<Longrightarrow> room_ok s1 \<Longrightarrow> sys_ok w1 \<Longrightarrow> set (entries s1) \<subseteq> set (entries s) \<Longrightarrow> fds_later w w1 \<Longrightarrow> linked s1 w1"
  unfolding linked_def by (meson fd_linked_later subsetD)

lemma linked_wf: "linked s w \<Longrightarrow> table_wf s"
  by (simp add: linked_def room_ok_def)

lemma write_loop_tells:
  assumes "table_wf s" and "\<forall>i \<in> set is. i < length (clients s)"
    and "\<forall>i \<in> set is. fd_linked w (c_to_client_fd (clients s ! i), tc_path (clients s ! i))"
    and "write_loop is s m w = Inr (n, w1)"
  shows "w1 = w\<lparr>v_sent := v_sent w @ map (\<lambda>i. (tc_path (clients s ! i), m)) is\<rparr>
    \<and> (\<forall>i \<in> set is. v_fds w (c_to_client_fd (clients s ! i)) \<noteq> None)"
  using assms(2-4)
proof (induction "is" arbitrary: w)
  case (Cons i "is")
  let ?c = "clients s ! i"
  have get: "server_get_client s (int i) = Inr ?c" using Cons.prems(1) by (intro get_client [OF assms(1)]) simp
  obtain err w2 where wr: "fd_write (c_to_client_fd ?c) m w = Inr (err, w2)"
    using Cons.prems(3) by (auto simp: get)
  have fd: "v_fds w (c_to_client_fd ?c) = Some (tc_path ?c)"
  proof (rule ccontr)
    assume "v_fds w (c_to_client_fd ?c) \<noteq> Some (tc_path ?c)"
    then have "v_fds w (c_to_client_fd ?c) = None" using Cons.prems(2) by (simp add: fd_linked_def)
    then show False using Cons.prems(3) by (simp add: get fd_write_def check_fail_def)
  qed
  then have w2: "err = MESG_SIZE" "w2 = w\<lparr>v_sent := v_sent w @ [(tc_path ?c, m)]\<rparr>"
    using wr by (auto simp: fd_write_def split: if_splits)
  have "write_loop is s m w2 = Inr (n, w1)" using Cons.prems(3) wr by (simp add: get w2(1) check_fail_def)
  from Cons.IH [OF _ _ this] Cons.prems(1,2) fd show ?case by (simp add: w2(2) fd_linked_def)
qed simp

lemma all_members: "table_wf s \<Longrightarrow>
   map (\<lambda>i. (tc_path (clients s ! i), m)) [0..<nat (s_n_clients s)] = to_all m (members s)"
  using table_wf_count [of s] by (auto simp: to_all_def members_clients intro: nth_equalityI)

lemma broadcast_tells:
  assumes "linked s w" and "server_broadcast s m w = Inr (n, w1)"
  obtains t where "w1 = (say t w)\<lparr>v_sent := v_sent w @ to_all m (members s)\<rparr>"
    and "\<forall>c \<in> set (clients s). v_fds w (c_to_client_fd c) \<noteq> None"
proof -
  note wf = linked_wf [OF assms(1)]
  from assms(2) obtain t where t: "write_loop [0..<nat (s_n_clients s)] s m (say t w) = Inr (n, w1)"
    by (auto simp: server_broadcast_def)
  have range: "\<forall>i \<in> set [0..<nat (s_n_clients s)]. i < length (clients s)" by (rule all_positions [OF wf])
  then have "\<forall>i \<in> set [0..<nat (s_n_clients s)]. fd_linked (say t w) (c_to_client_fd (clients s ! i), tc_path (clients s ! i))"
    using linked_at(2) [OF assms(1)] by (simp add: fd_linked_def)
  from write_loop_tells [OF wf range this t] have
    "w1 = (say t w)\<lparr>v_sent := v_sent w @ to_all m (members s)\<rparr>"
    "\<forall>i < nat (s_n_clients s). v_fds w (c_to_client_fd (clients s ! i)) \<noteq> None"
    by (simp_all add: all_members [OF wf])
  with that show thesis using table_wf_count [OF wf] by (metis in_set_conv_nth nat_int)
qed

lemma broadcast_linked:
  assumes "linked s w" and "mesg_ok m" and "server_broadcast s m w = Inr (n, w1)"
  shows "linked s w1 \<and> v_sent w1 = v_sent w @ to_all m (members s) \<and> v_fifo w1 = v_fifo w \<and> v_joins w1 = v_joins w
    \<and> (\<forall>c \<in> set (clients s). v_fds w (c_to_client_fd c) \<noteq> None)"
proof -
  obtain t where t: "w1 = (say t w)\<lparr>v_sent := v_sent w @ to_all m (members s)\<rparr>"
    and fds: "\<forall>c \<in> set (clients s). v_fds w (c_to_client_fd c) \<noteq> None"
    using assms(1,3) by (rule broadcast_tells)
  have "sys_ok w1" using broadcast_safe [of s w m] assms by (simp add: linked_def)
  then have "linked s w1" by (rule linked_frame [rotated 2]) (use assms(1) in \<open>simp_all add: t\<close>)
  with fds show ?thesis by (simp add: t)
qed

subsection \<open>Removing and entering\<close>

lemma release_frame:
  assumes "release_client c tc ts w = (failed, w1)"
  shows "v_sent w1 = v_sent w \<and> v_fifo w1 = v_fifo w \<and> v_joins w1 = v_joins w \<and> v_next_fd w1 = v_next_fd w \<and> fds_later w w1
    \<and> v_fds w1 (c_to_client_fd c) = None"
  using assms by (auto simp: release_client_def fd_close_def unlink_def fds_later_def split: prod.splits if_splits)

lemma remove_entries:
  assumes "linked s w" and "i < length (clients s)" and "server_remove_client s (int i) w = Inr (r, s1, w1)"
  shows "linked s1 w1 \<and> v_sent w1 = v_sent w \<and> v_fifo w1 = v_fifo w \<and> v_joins w1 = v_joins w
    \<and> (members s1 = take i (members s) @ drop (Suc i) (members s)
       \<or> s1 = s \<and> v_fds w1 (c_to_client_fd (clients s ! i)) = None)"
proof -
  note wf = linked_wf [OF assms(1)]
  have ok: "room_ok s1" "sys_ok w1"
    using remove_client_safe [OF _ _ assms(2), of w] assms(1,3) by (simp_all add: linked_def)
  from assms(3) obtain tc ts failed where
    rel: "release_client (clients s ! i) tc ts (say (''server_remove_client(): '' @ show_int (int i)) w) = (failed, w1)"
    and s1: "if failed then r = -1 \<and> s1 = s else r = 0 \<and> shift_clients (int i) s = Inr s1"
    by (rule remove_client_cases) (use get_client [OF wf assms(2)] in auto)
  note frame = release_frame [OF rel]
  have later: "fds_later w w1" using frame by (simp add: fds_later_def)
  have "s1 = s \<or> clients s1 = take i (clients s) @ drop (Suc i) (clients s)"
    using s1 shift_clients_wf [OF wf assms(2)] by (auto split: if_splits)
  then have e: "s1 = s \<or> entries s1 = take i (entries s) @ drop (Suc i) (entries s)"
    by (auto simp: entries_def take_map drop_map)
  then have "set (entries s1) \<subseteq> set (entries s)" by (auto dest: in_set_takeD in_set_dropD)
  then have "linked s1 w1" by (rule linked_later [OF assms(1) ok _ later])
  moreover have "members s1 = take i (members s) @ drop (Suc i) (members s)" if "\<not> failed"
    using s1 shift_clients_wf [OF wf assms(2)] that by (auto simp: members_clients take_map drop_map)
  ultimately show ?thesis using frame s1 by (auto split: if_splits)
qed

text \<open>A removal that fails has closed the descriptor, and the broadcast behind it ends the process.\<close>

lemma depart_tells:
  assumes "linked s w" and "i < length (clients s)" and "mesg_ok m"
    and "server_remove_client s (int i) w = Inr (r, s1, w1)" and "server_broadcast s1 m w1 = Inr (n, w2)"
  shows "linked s1 w2 \<and> v_fifo w2 = v_fifo w \<and> v_joins w2 = v_joins w \<and> members s1 = take i (members s) @ drop (Suc i) (members s)
    \<and> v_sent w2 = v_sent w @ to_all m (members s1)"
proof -
  note rem = remove_entries [OF assms(1,2,4)]
  then have "linked s1 w1" by blast
  note told = broadcast_linked [OF this assms(3,5)]
  have "members s1 = take i (members s) @ drop (Suc i) (members s)"
  proof (rule ccontr)
    assume "members s1 \<noteq> take i (members s) @ drop (Suc i) (members s)"
    with rem have "s1 = s" "v_fds w1 (c_to_client_fd (clients s ! i)) = None" by blast+
    with told nth_mem [OF assms(2)] show False by blast
  qed
  with rem told show ?thesis by simp
qed

lemma action_tells:
  assumes "linked s w" and "mesg_ok m" and "i < length (clients s)" and "take_action s (int i) m w = Inr (s1, w1)"
  shows "linked s1 w1 \<and> v_fifo w1 = v_fifo w \<and> v_joins w1 = v_joins w \<and> members s1 = fst (room_step (Took i m) (members s))
    \<and> v_sent w1 = v_sent w @ snd (room_step (Took i m) (members s))"
proof -
  have said: "linked s (say t w)" for t
    using assms(1) by (rule linked_frame [rotated 3]) (use assms(1) in \<open>simp_all add: linked_def\<close>)
  consider (mesg) "m_kind m = kind_code BL_MESG" | (left) "m_kind m = kind_code BL_DEPARTED"
    | (other) "m_kind m \<noteq> kind_code BL_MESG" "m_kind m \<noteq> kind_code BL_DEPARTED" by blast
  then show ?thesis
  proof cases
    case mesg
    with assms(4) obtain t n where "s1 = s" "server_broadcast s m (say t w) = Inr (n, w1)"
      by (auto simp: take_action_def)
    with broadcast_linked [OF said assms(2)] mesg show ?thesis by auto
  next
    case left
    with assms(4) obtain t n r w2 where "server_remove_client s (int i) (say t w) = Inr (r, s1, w2)"
        "server_broadcast s1 m w2 = Inr (n, w1)"
      by (auto simp: take_action_def)
    from depart_tells [OF said assms(3,2) this] left show ?thesis by simp
  next
    case other
    with assms(1,4) show ?thesis by (simp add: take_action_def)
  qed
qed

lemma flag_reset_entries:
  assumes "table_wf s" and "server_get_client s i = Inr e" and "store_client i (e\<lparr>c_data_ready := x\<rparr>) s = Inr s1"
  shows "entries s1 = entries s"
proof -
  have i: "0 \<le> i" "i < int MAXCLIENTS" "e = s_client s ! nat i"
    using assms(1,2) by (auto simp: server_get_client_def table_wf_def split: if_splits)
  with store_client_wf [OF assms(1) i(1,2), of "e\<lparr>c_data_ready := x\<rparr>"] assms(3)
  have "clients s1 = (clients s)[nat i := e\<lparr>c_data_ready := x\<rparr>]" by auto
  moreover have "nat i < length (clients s) \<longrightarrow> entry (e\<lparr>c_data_ready := x\<rparr>) = entry (clients s ! nat i)"
    using i(3) by (simp add: clients_def)
  ultimately show ?thesis using entries_flag by (simp add: entries_def)
qed

text \<open>Reading: a message of the member's FIFO, or the end of the file.\<close>

lemma read_cases:
  assumes "linked s w" and "i < length (clients s)"
    and "fd_read (c_to_server_fd (clients s ! i)) w = Inr ((err, m), w1)" and "err \<noteq> -1"
  shows "sys_ok w1 \<and> mesg_ok m \<and> linked s w1 \<and> v_sent w1 = v_sent w \<and> v_joins w1 = v_joins w
    \<and> (m = mesg_zero \<and> w1 = w
       \<or> (\<exists>ms. v_fifo w (ts_path (clients s ! i)) = m # ms \<and> v_fifo w1 = (v_fifo w)(ts_path (clients s ! i) := ms)))"
proof -
  let ?c = "clients s ! i"
  have ok: "sys_ok w" using assms(1) by (simp add: linked_def)
  then have ok1: "mesg_ok m" "sys_ok w1" using fd_read_safe [OF ok, of "c_to_server_fd ?c"] assms(3) by simp_all
  have fd: "v_fds w (c_to_server_fd ?c) = Some (ts_path ?c)"
    using assms(3,4) linked_at(1) [OF assms(1,2)] by (auto simp: fd_linked_def fd_read_def)
  have frame: "v_fds w1 = v_fds w" "v_next_fd w1 = v_next_fd w" "v_sent w1 = v_sent w" "v_joins w1 = v_joins w"
    using assms(3) by (auto simp: fd_read_def fd split: list.splits if_splits)
  have "m = mesg_zero \<and> w1 = w
      \<or> (\<exists>ms. v_fifo w (ts_path ?c) = m # ms \<and> v_fifo w1 = (v_fifo w)(ts_path ?c := ms))"
    using assms(3) by (auto simp: fd_read_def fd split: list.splits if_splits)
  then show ?thesis using ok1 frame(3,4) linked_frame [OF frame(1,2) ok1(2) assms(1)] by blast
qed

lemma handle_client_acts:
  assumes "linked s w" and "i < length (clients s)" and "server_handle_client s (int i) w = Inr (r, s1, w1)"
  shows "\<exists>es. acts s w es s1 w1"
proof -
  note wf = linked_wf [OF assms(1)]
  let ?c = "clients s ! i"
  from assms(3) obtain err m w2 s2 e where rd: "fd_read (c_to_server_fd ?c) w = Inr ((err, m), w2)" "err \<noteq> -1"
      and act: "take_action s (int i) m w2 = Inr (s2, w1)"
      and flag: "server_get_client s2 (int i) = Inr e" "store_client (int i) (e\<lparr>c_data_ready := 0\<rparr>) s2 = Inr s1"
    by (auto simp: server_handle_client_def get_client [OF wf assms(2)] check_fail_def split: if_splits)
  note read = read_cases [OF assms(1,2) rd]
  then have "linked s w2" "mesg_ok m" by blast+
  note told = action_tells [OF this assms(2) act]
  have e: "entries s1 = entries s2" using flag_reset_entries [OF _ flag] told linked_wf by blast
  have "room_ok s1" using handle_client_safe [OF _ _ assms(2), of w] assms(1,3) by (simp add: linked_def)
  moreover have "linked s2 w1" using told by blast
  ultimately have link: "linked s1 w1" by (simp add: linked_def e)
  have "members s2 = fst (room_step (Took i m) (members s))" using told by blast
  then have mem: "members s1 = fst (room_step (Took i m) (members s))" by (simp only: members_def e)
  from read consider (eof) "m = mesg_zero" "w2 = w"
    | (one) ms where "v_fifo w (ts_path ?c) = m # ms" "v_fifo w2 = (v_fifo w)(ts_path ?c := ms)" by blast
  then show ?thesis
  proof cases
    case eof
    then have "room_step (Took i m) (members s) = (members s, [])" by (simp add: mesg_zero_def)
    then have "acts s w [] s1 w1" using link mem told eof(2) by (simp add: acts_def del: room_step.simps)
    then show ?thesis by blast
  next
    case one
    have "fst (members s ! i) = ts_path ?c" using assms(2) by (simp add: members_clients)
    then have "acts s w [Took i m] s1 w1" using link mem told read one by (simp add: acts_def del: room_step.simps)
    then show ?thesis by blast
  qed
qed

text \<open>A request: the newcomer is entered, or the room is full.\<close>

lemma open_frame:
  assumes "fd_open p w = Inr (fd, w1)" and "fd \<noteq> -1"
  shows "fd = v_next_fd w \<and> v_fds w1 = (v_fds w)(fd := Some p) \<and> v_next_fd w1 = v_next_fd w + 1
    \<and> v_sent w1 = v_sent w \<and> v_fifo w1 = v_fifo w \<and> v_joins w1 = v_joins w \<and> p \<noteq> []"
  using assms by (auto simp: fd_open_def split: if_splits)

lemma new_entry:
  assumes "NUL \<notin> set tc" and "length tc \<le> MAXPATH" and "NUL \<notin> set ts" and "length ts \<le> MAXPATH"
  shows "entry (new_client n f g tc ts) = ((g, ts), (f, tc))"
  using assms cstr_strncpy_bytes [OF assms(1,2)] cstr_strncpy_bytes [OF assms(3,4)]
  by (simp add: entry_def new_client_def tc_path_def ts_path_def)

lemma add_client_enters:
  assumes "linked s w" and "join_ok j" and "server_add_client s j w = Inr (r, s1, w1)"
  shows "linked s1 w1 \<and> v_sent w1 = v_sent w \<and> v_fifo w1 = v_fifo w \<and> v_joins w1 = v_joins w
    \<and> (members s1 = members s \<or> members s1 = members s @ [fst (asked j)] \<and> cstr (j_to_client j) \<noteq> [])"
proof -
  note wf = linked_wf [OF assms(1)]
  let ?tc = "cstr (j_to_client j)" and ?ts = "cstr (j_to_server j)"
  let ?w = "say (''server_add_client(): '' @ cstr (j_name j) @ '' '' @ ?tc @ '' '' @ ?ts) w"
  have ok: "room_ok s1" "sys_ok w1"
    using add_client_safe [OF _ _ assms(2), of s w] assms(1,3) by (simp_all add: linked_def)
  show ?thesis
  proof (cases "s_n_clients s = int MAXCLIENTS")
    case True
    then have "s1 = s" "w1 = ?w" using assms(3) join_strings [OF assms(2)] by (simp_all add: server_add_client_def)
    then show ?thesis using linked_frame [of ?w w s] assms(1) by (simp add: linked_def)
  next
    case False
    from assms(3) False obtain f w2 g where
        1: "fd_open ?tc ?w = Inr (f, w2)" "f \<noteq> -1" and 2: "fd_open ?ts w2 = Inr (g, w1)" "g \<noteq> -1"
        and s1: "append_client (new_client (cstr (j_name j)) f g ?tc ?ts) s = Inr s1"
      using join_strings [OF assms(2)] by (auto simp: server_add_client_def check_fail_def split: if_splits)
    note fds = open_frame [OF 1] open_frame [OF 2]
    have "length (clients s) < MAXCLIENTS" using False table_wf_count [OF wf] by simp
    from append_client_wf [OF wf this, of "new_client (cstr (j_name j)) f g ?tc ?ts"] s1
    have cl: "clients s1 = clients s @ [new_client (cstr (j_name j)) f g ?tc ?ts]" by auto
    have "length ?tc \<le> MAXPATH" "length ?ts \<le> MAXPATH"
      using assms(2) length_cstr_le [of "j_to_client j"] length_cstr_le [of "j_to_server j"] by (simp_all add: join_ok_def)
    then have e: "entries s1 = entries s @ [((g, ?ts), (f, ?tc))]" by (simp add: entries_def cl new_entry cstr_no_nul)
    have "fds_later w w1" using fds by (auto simp: fds_later_def)
    then have "\<forall>x \<in> set (entries s). fd_linked w1 (fst x) \<and> fd_linked w1 (snd x)"
      using assms(1) fd_linked_later unfolding linked_def by blast
    moreover have "fd_linked w1 (g, ?ts)" "fd_linked w1 (f, ?tc)" using fds by (auto simp: fd_linked_def)
    ultimately have "linked s1 w1" using ok by (simp add: linked_def e)
    moreover have "members s1 = members s @ [(?ts, ?tc)]" by (simp add: members_def e)
    ultimately show ?thesis using fds by (simp add: asked_def)
  qed
qed

lemma cstr_join_zero: "cstr (j_to_client join_zero) = []" "cstr (j_name join_zero) = []"
  using cstr_padded [of "[]" MAXPATH] by (simp_all add: join_zero_def)

lemma join_acts:
  assumes "linked s w" and "server_handle_join s w = Inr (r, s1, w1)"
  shows "\<exists>es. acts s w es s1 w1"
proof -
  obtain err j w2 where rd: "read_join (s_join_fd s) (say ''server_handle_join()'' w) = ((err, j), w2)"
    by (metis surj_pair)
  have ok: "sys_ok w" using assms(1) by (simp add: linked_def)
  then have j: "join_ok j" "sys_ok w2"
    using read_join_ok [of "say ''server_handle_join()'' w" "s_join_fd s"] rd by simp_all
  have frame: "v_fds w2 = v_fds w" "v_next_fd w2 = v_next_fd w" "v_sent w2 = v_sent w" "v_fifo w2 = v_fifo w"
    using rd by (auto simp: read_join_def split: list.splits if_splits)
  have req: "v_joins w = j # v_joins w2 \<or> j = join_zero \<and> v_joins w2 = v_joins w"
    using rd by (auto simp: read_join_def split: list.splits if_splits)
  have link: "linked s w2" by (rule linked_frame [OF frame(1,2) j(2) assms(1)])
  from assms(2) rd obtain q s2 w3 n where add: "server_add_client s j w2 = Inr (q, s2, w3)"
      and told: "server_broadcast s2 (joined_mesg (cstr (j_name j))) w3 = Inr (n, w1)" and s1: "s1 = s2\<lparr>s_join_ready := 0\<rparr>"
    using join_strings [OF j(1)] by (auto simp: server_handle_join_eq check_fail_def split: if_splits)
  note added = add_client_enters [OF link j(1) add]
  then have "linked s2 w3" by blast
  note said = broadcast_linked [OF this joined_mesg_ok told]
  have same: "entries s1 = entries s2" "room_ok s1 = room_ok s2"
    by (simp_all add: s1 entries_def clients_def room_ok_def table_wf_def)
  then have after: "linked s1 w1" "members s1 = members s2" using said by (simp_all add: linked_def members_def)
  have js: "v_joins w1 = v_joins w2" using said added by simp
  from added consider "members s2 = members s"
    | "members s2 = members s @ [fst (asked j)]" "cstr (j_to_client j) \<noteq> []" by blast
  then show ?thesis
  proof cases
    case 1
    have "answers [Refused (cstr (j_name j))] (v_joins w) (v_joins w1)"
      using req cstr_join_zero by (elim disjE) (auto simp: answers_def js asked_def intro: exI [of _ "[j]"])
    with 1 have "acts s w [Refused (cstr (j_name j))] s1 w1" using after said added frame by (simp add: acts_def)
    then show ?thesis by blast
  next
    case 2
    have "v_joins w = j # v_joins w2" using req 2(2) cstr_join_zero by auto
    then have "answers [Entered (fst (asked j)) (cstr (j_name j))] (v_joins w) (v_joins w1)"
      by (auto simp: answers_def js asked_def intro!: exI [of _ "[j]"])
    with 2 have "acts s w [Entered (fst (asked j)) (cstr (j_name j))] s1 w1"
      using after said added frame by (simp add: acts_def)
    then show ?thesis by blast
  qed
qed

text \<open>The sources, the clients in turn, and the whole turn.\<close>

lemma check_sources_entries:
  assumes "linked s w" and "server_check_sources s w = Inr s1"
  shows "linked s1 w \<and> entries s1 = entries s"
proof -
  let ?P = "\<lambda>x. table_wf x \<and> entries x = entries s"
  let ?s = "if join_readable w then s\<lparr>s_join_ready := 1\<rparr> else s"
  have "?P x1" if x: "?P x" "mark_ready w i x = Inr x1" for i x x1
  proof -
    obtain c where c: "server_get_client x (int i) = Inr c" using x(2) by (auto simp: mark_ready_def)
    show ?thesis
    proof (cases "fd_readable w (c_to_server_fd c)")
      case True
      with x(2) c have st: "store_client (int i) (c\<lparr>c_data_ready := 1\<rparr>) x = Inr x1" by (simp add: mark_ready_def)
      with flag_reset_entries [OF _ c st] x(1) show ?thesis
        by (auto simp: store_client_def table_wf_def split: if_splits)
    next
      case False
      with x c show ?thesis by (simp add: mark_ready_def)
    qed
  qed
  moreover have "?P ?s" using linked_wf [OF assms(1)] by (simp add: table_wf_def entries_def clients_def)
  moreover have "for_range [0..<nat (s_n_clients s)] (mark_ready w) ?s = Inr s1"
    using assms(2) by (auto simp: server_check_sources_def check_fail_def split: if_splits)
  ultimately have "entries s1 = entries s" using for_range_invariant [where P = ?P] by blast
  moreover have "room_ok s1" using check_sources_safe [of s w] assms by (simp add: linked_def)
  ultimately show ?thesis using assms(1) by (simp add: linked_def)
qed

lemma client_loop_acts:
  assumes "linked s w" and "0 \<le> i" and "client_loop i s w = Inr (s1, w1)"
  shows "\<exists>es. acts s w es s1 w1"
  using assms
proof (induction i s w rule: client_loop.induct)
  case (1 i s w)
  show ?case
  proof (cases "i < s_n_clients s")
    case False
    then have "s1 = s" "w1 = w" using "1.prems"(3) by (subst (asm) client_loop.simps, simp)+
    then show ?thesis using acts_none [OF "1.prems"(1)] "1.prems"(1) linked_def by blast
  next
    case True
    with "1.prems"(3) obtain s2 w2 where step: "serve_client i s w = Inr (s2, w2)"
        and rest: "client_loop (i + 1) s2 w2 = Inr (s1, w1)"
      by (subst (asm) client_loop.simps) auto
    have i: "nat i < length (clients s)" "int (nat i) = i"
      using True "1.prems"(2) table_wf_count [OF linked_wf [OF "1.prems"(1)]] by auto
    have "\<exists>es. acts s w es s2 w2"
    proof (cases "s2 = s \<and> w2 = w")
      case True
      then show ?thesis using acts_none [OF "1.prems"(1)] "1.prems"(1) linked_def by blast
    next
      case False
      with step obtain r where "server_handle_client s i w = Inr (r, s2, w2)"
        by (auto simp: serve_client_def split: if_splits)
      with handle_client_acts [OF "1.prems"(1) i(1)] i(2) show ?thesis by simp
    qed
    then obtain es where es: "acts s w es s2 w2" by blast
    with "1.IH" [OF True, of "(s2, w2)" s2 w2] step rest "1.prems"(2) obtain fs where "acts s2 w2 fs s1 w1"
      by (auto simp: acts_def)
    with es acts_trans show ?thesis by blast
  qed
qed

lemma turn_acts:
  assumes "linked s w" and "server_turn s w = Inr (s1, w1)"
  shows "\<exists>es. acts s w es s1 w1"
proof -
  from assms(2) obtain s2 s3 w3 where src: "server_check_sources s w = Inr s2"
      and join: "(if server_join_ready s2 \<noteq> 0 then map_res snd (server_handle_join s2 w) else Inr (s2, w)) = Inr (s3, w3)"
      and loop: "client_loop 0 s3 w3 = Inr (s1, w1)"
    by (auto simp: server_turn_eq)
  note src = check_sources_entries [OF assms(1) src]
  then have 1: "acts s w [] s2 w" using acts_none [OF assms(1)] by (auto simp: linked_def)
  have "\<exists>es. acts s2 w es s3 w3"
  proof (cases "server_join_ready s2 \<noteq> 0")
    case True
    with join obtain r where "server_handle_join s2 w = Inr (r, s3, w3)" by auto
    with join_acts src show ?thesis by blast
  next
    case False
    then show ?thesis using join acts_none [of s2 w s2] src by (auto simp: linked_def)
  qed
  then obtain es where 2: "acts s2 w es s3 w3" by blast
  then have "linked s3 w3" by (simp add: acts_def)
  from client_loop_acts [OF this _ loop] obtain fs where "acts s3 w3 fs s1 w1" by auto
  with 1 2 acts_trans show ?thesis by blast
qed

section \<open>Runs\<close>

text \<open>\<open>chat_reach\<close>, with the requests and the messages the clients have written meanwhile, in order.\<close>

inductive chat_run ::
  "server_t \<Rightarrow> sys \<Rightarrow> join_t list \<Rightarrow> (string \<times> mesg_t) list \<Rightarrow> server_t \<Rightarrow> sys \<Rightarrow> bool" for s0 w0 where
  start: "chat_run s0 w0 [] [] s0 w0"
| turn: "chat_run s0 w0 js ws s w \<Longrightarrow> server_turn s w = Inr (s1, w1) \<Longrightarrow> chat_run s0 w0 js ws s1 w1"
| written: "chat_run s0 w0 js ws s w \<Longrightarrow> mesg_ok m \<Longrightarrow>
    chat_run s0 w0 js (ws @ [(p, m)]) s (w\<lparr>v_fifo := (v_fifo w)(p := v_fifo w p @ [m])\<rparr>)"
| asks: "chat_run s0 w0 js ws s w \<Longrightarrow> join_ok j \<Longrightarrow>
    chat_run s0 w0 (js @ [j]) ws s (w\<lparr>v_joins := v_joins w @ [j], v_join_peer := Present\<rparr>)"
| other: "chat_run s0 w0 js ws s w \<Longrightarrow> env_step w w1 \<Longrightarrow> v_fifo w1 = v_fifo w \<Longrightarrow> v_joins w1 = v_joins w \<Longrightarrow>
    chat_run s0 w0 js ws s w1"

lemma chat_run_reach: "(\<exists>js ws. chat_run s0 w0 js ws s w) \<longleftrightarrow> chat_reach s0 w0 s w"
proof
  assume "\<exists>js ws. chat_run s0 w0 js ws s w"
  then obtain js ws where "chat_run s0 w0 js ws s w" by blast
  then show "chat_reach s0 w0 s w"
    by (induction rule: chat_run.induct) (auto intro: chat_reach.intros env_step.intros)
next
  assume "chat_reach s0 w0 s w"
  then show "\<exists>js ws. chat_run s0 w0 js ws s w"
  proof (induction rule: chat_reach.induct)
    case (env s w w1)
    then obtain js ws where ws: "chat_run s0 w0 js ws s w" by blast
    from env.hyps(2) show ?case
    proof (cases rule: env_step.cases)
      case (message m p)
      then show ?thesis using chat_run.written [OF ws] by auto
    next
      case (request j)
      then show ?thesis using chat_run.asks [OF ws] by auto
    qed (use chat_run.other [OF ws env.hyps(2)] in auto)
  qed (auto intro: chat_run.intros)
qed

lemma env_step_fds: "env_step w w1 \<Longrightarrow> v_fds w1 = v_fds w \<and> v_next_fd w1 = v_next_fd w \<and> v_sent w1 = v_sent w"
  by (induction rule: env_step.induct) auto

lemma env_step_linked: "env_step w w1 \<Longrightarrow> linked s w \<Longrightarrow> linked s w1"
  using env_step_fds [of w w1] env_step_ok [of w w1] by (simp add: linked_def fd_linked_def)

text \<open>What a history has to explain.\<close>

definition explains ::
  "room_event list \<Rightarrow> sys \<Rightarrow> join_t list \<Rightarrow> (string \<times> mesg_t) list \<Rightarrow> server_t \<Rightarrow> sys \<Rightarrow> bool" where
  "explains es w0 js ws s w \<longleftrightarrow> members s = members_after es [] \<and> v_sent w = v_sent w0 @ given es []
     \<and> (\<forall>p. v_fifo w0 p @ via p ws = via p (taken es []) @ v_fifo w p)
     \<and> answers es (v_joins w0 @ js) (v_joins w)"

lemma subseq_asked: "subseq (admitted es) (map asked ks) \<Longrightarrow> x \<in> set (admitted es) \<Longrightarrow> \<exists>k \<in> set ks. asked k = x"
  by (metis (no_types, lifting) image_iff list.set_map notin_set_nthsI subseq_conv_nths)

lemma subseq_apart:
  assumes "subseq (admitted es) (map asked ks)" and "distinct (map (\<lambda>j. cstr (j_to_client j)) (ks @ js))"
  shows "distinct (map snd (entrants es))"
proof -
  have "(snd \<circ> (fst \<circ> asked)) = (\<lambda>j. cstr (j_to_client j))" by (simp add: asked_def fun_eq_iff)
  with subseq_map [OF assms(1), of "snd \<circ> fst"]
  have "subseq (map snd (entrants es)) (map (\<lambda>j. cstr (j_to_client j)) ks)" by (simp add: entrants_def comp_assoc)
  then show ?thesis using assms(2) distinct_nthsI unfolding subseq_conv_nths by fastforce
qed

lemma explains_acts: "explains es w0 js ws s w \<Longrightarrow> acts s w fs s1 w1 \<Longrightarrow> explains (es @ fs) w0 js ws s1 w1"
  unfolding explains_def acts_def by (auto simp: history_append intro: answers_trans)

lemma run_explained:
  assumes "chat_run s0 w0 js ws s w" and "linked s0 w0" and "clients s0 = []"
  shows "\<exists>es. linked s w \<and> explains es w0 js ws s w"
  using assms(1)
proof (induction rule: chat_run.induct)
  case start
  have "explains [] w0 [] [] s0 w0" using assms(3) by (simp add: explains_def members_clients)
  then show ?case using assms(2) by blast
next
  case (turn js ws s w s1 w1)
  then obtain es where es: "linked s w" "explains es w0 js ws s w" by blast
  from turn_acts [OF es(1) turn.hyps(2)] obtain fs where fs: "acts s w fs s1 w1" by blast
  then have "linked s1 w1" by (simp add: acts_def)
  with explains_acts [OF es(2) fs] show ?case by blast
next
  case (written js ws s w m p)
  let ?w = "w\<lparr>v_fifo := (v_fifo w)(p := v_fifo w p @ [m])\<rparr>"
  from written obtain es where es: "linked s w" "explains es w0 js ws s w" by blast
  then have "explains es w0 js (ws @ [(p, m)]) s ?w" by (simp add: explains_def)
  moreover have "linked s ?w" using env_step_linked [OF env_step.message [OF written.hyps(2)] es(1)] .
  ultimately show ?case by blast
next
  case (asks js ws s w j)
  let ?w = "w\<lparr>v_joins := v_joins w @ [j], v_join_peer := Present\<rparr>"
  from asks obtain es where es: "linked s w" "explains es w0 js ws s w" by blast
  then have "explains es w0 (js @ [j]) ws s ?w"
    using answers_frame [of es "v_joins w0 @ js" "v_joins w" "[j]"] by (simp add: explains_def)
  moreover have "linked s ?w" using env_step_linked [OF env_step.request [OF asks.hyps(2)] es(1)] .
  ultimately show ?case by blast
next
  case (other js ws s w w1)
  then obtain es where es: "linked s w" "explains es w0 js ws s w" by blast
  then have "explains es w0 js ws s w1"
    using env_step_fds [OF other.hyps(2)] other.hyps(3,4) by (simp add: explains_def)
  with env_step_linked [OF other.hyps(2) es(1)] show ?case by blast
qed

lemma start_linked:
  assumes "bl_server [name] made e w0 = Inr (Some (s, w))" and "length name < MAXPATH" and "sys_ok w0"
  shows "linked s w \<and> clients s = []"
proof -
  have "s_n_clients s = 0"
    using assms(1) by (auto simp: bl_server_def server_start_def check_fail_def Let_def split: if_splits)
  then have "clients s = []" by (simp add: clients_def)
  with server_start_ok [OF assms] show ?thesis by (simp add: linked_def entries_def)
qed

section \<open>A room that one client enters\<close>

lemma demo_join_texts:
  "cstr (j_name demo_join) = ''zoe''" "cstr (j_to_client demo_join) = ''tb''" "cstr (j_to_server demo_join) = ''sb''"
  by (simp_all add: demo_join_def cstr_strncpy_bytes)

lemma idle_client_loop:
  assumes "table_wf s" and "clients s = [c]" and "c_data_ready c = 0"
  shows "client_loop 0 s w = Inr (s, w)"
proof -
  have n: "s_n_clients s = 1" using table_wf_count [OF assms(1)] assms(2) by simp
  have "server_get_client s 0 = Inr c" using get_client [OF assms(1), of 0] assms(2) by simp
  then have "serve_client 0 s w = Inr (s, w)" by (simp add: serve_client_def server_client_ready_def assms(3))
  then show ?thesis by (subst client_loop.simps, simp add: n) (subst client_loop.simps, simp add: n)
qed

lemma demo_start:
  obtains s0 w1 where "bl_server [''room''] True 0 demo_sys = Inr (Some (s0, w1))" and "s_join_fd s0 = 8"
    and "linked s0 w1" and "clients s0 = []" and "v_files w1 = {''room'', ''tb'', ''sb'', ''te'', ''se''}"
    and "v_peer w1 = (\<lambda>_. Present)" and "v_next_fd w1 = 9" and "v_fds w1 8 = Some ''room''" and "v_joins w1 = []"
    and "v_sent w1 = []" and "v_fifo w1 = (\<lambda>_. [])" and "\<forall>fd. v_fds w1 fd \<noteq> None \<longrightarrow> fd < 9"
proof -
  obtain s0 w1 where start: "bl_server [''room''] True 0 demo_sys = Inr (Some (s0, w1))"
    by (simp add: bl_server_def server_start_def check_fail_def Let_def)
  have "sys_ok demo_sys" by (simp add: sys_ok_def demo_sys_def)
  from start_linked [OF start _ this] that [OF start] start show thesis
    by (auto simp: bl_server_def server_start_def check_fail_def Let_def demo_sys_def unlink_def split: if_splits)
qed

text \<open>The turn in which it enters.\<close>

lemma first_turn:
  assumes "linked s0 w" and "clients s0 = []" and "s_join_fd s0 = 8" and "v_fds w 8 \<noteq> None" and "v_joins w = [j]"
    and "v_peer w = (\<lambda>_. Present)" and "v_next_fd w = 9" and "\<forall>fd. v_fds w fd \<noteq> None \<longrightarrow> fd < 9" and "v_sent w = []"
    and "{cstr (j_to_client j), cstr (j_to_server j)} \<subseteq> v_files w - {[]}"
  obtains s w1 where "server_turn s0 w = Inr (s, w1)"
    and "clients s = [new_client (cstr (j_name j)) 9 10 (cstr (j_to_client j)) (cstr (j_to_server j))]"
    and "v_sent w1 = copies (joined_mesg (cstr (j_name j))) (clients s)"
proof -
  let ?c = "new_client (cstr (j_name j)) 9 10 (cstr (j_to_client j)) (cstr (j_to_server j))"
  have wf: "table_wf s0" using assms(1) by (rule linked_wf)
  have n: "s_n_clients s0 = 0" using table_wf_count [OF wf] assms(2) by simp
  have ok: "join_ok j" using assms(1,5) by (simp add: linked_def sys_ok_def)
  have "\<not> select_fails s0 w" "join_readable w" using assms(3-5) by (simp_all add: select_fails_def n join_readable_def)
  from check_sources_join [OF wf this] obtain s1 where s1: "server_check_sources s0 w = Inr s1" "s_join_ready s1 = 1"
      "s_n_clients s1 = 0" "s_join_fd s1 = 8" by (auto simp: n assms(3))
  have link1: "linked s1 w" using check_sources_entries [OF assms(1) s1(1)] by blast
  have cl1: "clients s1 = []" by (simp add: clients_def s1(3))
  have "room_live s1 w" using linked_wf [OF link1] by (simp add: room_live_def cl1)
  from join_room [OF this, of j "[]"] obtain s2 w2 where s2: "server_handle_join s1 w = Inr (0, s2, w2)"
      "clients s2 = [?c]" "v_sent w2 = copies (joined_mesg (cstr (j_name j))) (clients s2)"
    using assms(4-10) ok by (auto simp: cl1 s1(4))
  from join_acts [OF link1 s2(1)] have wf2: "table_wf s2" using linked_wf by (auto simp: acts_def)
  have "c_data_ready ?c = 0" by (simp add: new_client_def)
  from idle_client_loop [OF wf2 s2(2) this] have "client_loop 0 s2 w2 = Inr (s2, w2)" .
  then have "server_turn s0 w = Inr (s2, w2)" by (simp add: server_turn_eq s1(1,2) server_join_ready_def s2(1))
  from that [OF this s2(2,3)] show thesis .
qed

lemma demo_run:
  obtains s0 w1 s w where "bl_server [''room''] True 0 demo_sys = Inr (Some (s0, w1))" and "chat_run s0 w1 [demo_join] [] s w"
    and "members s = [(''sb'', ''tb'')]" and "v_sent w = [(''tb'', joined_mesg ''zoe'')]" and "v_sent w1 = []"
    and "clients s = [new_client ''zoe'' 9 10 ''tb'' ''sb'']" and "v_joins w1 = []" and "v_fifo w1 = (\<lambda>_. [])"
proof -
  obtain s0 w1 where start: "bl_server [''room''] True 0 demo_sys = Inr (Some (s0, w1))" "s_join_fd s0 = 8"
      "linked s0 w1" "clients s0 = []" "v_files w1 = {''room'', ''tb'', ''sb'', ''te'', ''se''}"
    and w1: "v_peer w1 = (\<lambda>_. Present)" "v_next_fd w1 = 9" "v_fds w1 8 = Some ''room''" "v_joins w1 = []"
      "v_sent w1 = []" "v_fifo w1 = (\<lambda>_. [])" "\<forall>fd. v_fds w1 fd \<noteq> None \<longrightarrow> fd < 9"
    by (rule demo_start)
  let ?w = "w1\<lparr>v_joins := v_joins w1 @ [demo_join], v_join_peer := Present\<rparr>"
  have run: "chat_run s0 w1 [demo_join] [] s0 ?w"
    using chat_run.asks [OF chat_run.start demo_join_ok] by simp
  have "linked s0 ?w" by (rule env_step_linked [OF env_step.request [OF demo_join_ok] start(3)])
  from first_turn [OF this start(4,2), of demo_join] obtain s w where turn: "server_turn s0 ?w = Inr (s, w)"
      "clients s = [new_client ''zoe'' 9 10 ''tb'' ''sb'']" "v_sent w = copies (joined_mesg ''zoe'') (clients s)"
    using w1 start(5) by (auto simp: demo_join_texts)
  from chat_run.turn [OF run turn(1)] have "chat_run s0 w1 [demo_join] [] s w" .
  moreover have "tc_path (new_client ''zoe'' 9 10 ''tb'' ''sb'') = ''tb''" "ts_path (new_client ''zoe'' 9 10 ''tb'' ''sb'') = ''sb''"
    by (simp_all add: tc_path_def ts_path_def new_client_def cstr_strncpy_bytes)
  ultimately show thesis using that [OF start(1)] turn(2,3) w1(4-6) by (simp add: members_clients)
qed

section \<open>Properties\<close>

text \<open>
  C18. The server implements a chat room. Whatever its clients do, its table, what it has
  written and what it has read are those of a history in which members enter behind the others, leave, and
  say something: each message is taken from its FIFO in the order it was written and never
  twice, each event is told to all members of that moment, once, before the next, and those
  who enter have asked to, in this order.
\<close>

theorem server_implements_room:
  assumes "bl_server [name] made e w0 = Inr (Some (s0, w1))" and "length name < MAXPATH" and "sys_ok w0"
    and "chat_run s0 w1 js ws s w"
  shows "\<exists>es ks. members s = members_after es [] \<and> v_sent w = v_sent w1 @ given es []
    \<and> (\<forall>p. v_fifo w1 p @ via p ws = via p (taken es []) @ v_fifo w p)
    \<and> v_joins w1 @ js = ks @ v_joins w \<and> subseq (admitted es) (map asked ks)"
  using run_explained [OF assms(4)] start_linked [OF assms(1-3)] unfolding explains_def answers_def by blast

text \<open>
  C19. All clients see the same conversation. When no two requests named the same FIFO,
  what a client has been sent is, at every moment, a suffix of what any client before it in
  the table has been sent: from the moment it entered, both have received the same messages
  in the same order. What it receives begins with the announcement of the name in its request.
\<close>

theorem same_conversation:
  assumes "bl_server [name] made e w0 = Inr (Some (s0, w1))" and "length name < MAXPATH" and "sys_ok w0"
    and "chat_run s0 w1 js ws s w" and "distinct (map (\<lambda>j. cstr (j_to_client j)) (v_joins w1 @ js))"
  shows "\<exists>new. v_sent w = v_sent w1 @ new
    \<and> (\<forall>i j. i < j \<and> j < length (clients s) \<longrightarrow>
        suffix (via (tc_path (clients s ! j)) new) (via (tc_path (clients s ! i)) new))
    \<and> (\<forall>c \<in> set (clients s). \<exists>k \<in> set (v_joins w1 @ js). \<exists>ms.
        tc_path c = cstr (j_to_client k) \<and> via (tc_path c) new = joined_mesg (cstr (j_name k)) # ms)"
proof -
  obtain es ks where es: "members s = members_after es []" "v_sent w = v_sent w1 @ given es []"
      and ks: "v_joins w1 @ js = ks @ v_joins w" "subseq (admitted es) (map asked ks)"
    using run_explained [OF assms(4)] start_linked [OF assms(1-3)] unfolding explains_def answers_def by blast
  have apart: "distinct (map snd (entrants es))" by (rule subseq_apart [OF ks(2), where js = "v_joins w"]) (use assms(5) in \<open>simp add: ks(1)\<close>)
  have "in_order (given es []) (members s)" using history_in_order [OF apart] es(1) by simp
  then have "\<forall>i j. i < j \<and> j < length (clients s) \<longrightarrow>
      suffix (via (tc_path (clients s ! j)) (given es [])) (via (tc_path (clients s ! i)) (given es []))"
    by (simp add: sorted_wrt_iff_nth_less members_clients)
  moreover have "\<exists>k \<in> set (v_joins w1 @ js). \<exists>ms.
      tc_path c = cstr (j_to_client k) \<and> via (tc_path c) (given es []) = joined_mesg (cstr (j_name k)) # ms"
    if "c \<in> set (clients s)" for c
  proof -
    have "announced es (given es []) (ts_path c, tc_path c)"
      using history_announced [OF apart] that unfolding es(1) [symmetric] members_clients by auto
    then obtain n ms where n: "((ts_path c, tc_path c), n) \<in> set (admitted es)"
        "via (tc_path c) (given es []) = joined_mesg n # ms" by (auto simp: announced_def)
    from subseq_asked [OF ks(2) n(1)] obtain k where "k \<in> set ks" "asked k = ((ts_path c, tc_path c), n)" ..
    with n(2) ks(1) show ?thesis by (auto simp: asked_def intro!: bexI [of _ k])
  qed
  ultimately show ?thesis using es(2) by blast
qed

text \<open>The client that has entered says something, which the server has not read yet.\<close>

theorem server_implements_room_witness:
  "\<exists>s0 w1 s w es ks. bl_server [''room''] True 0 demo_sys = Inr (Some (s0, w1))
    \<and> chat_run s0 w1 [demo_join] [(''sb'', mesg_zero\<lparr>m_kind := 10\<rparr>)] s w
    \<and> members s = [(''sb'', ''tb'')] \<and> members_after es [] = [(''sb'', ''tb'')]
    \<and> given es [] = [(''tb'', joined_mesg ''zoe'')] \<and> via ''sb'' (taken es []) @ v_fifo w ''sb'' = [mesg_zero\<lparr>m_kind := 10\<rparr>]
    \<and> [demo_join] = ks @ v_joins w"
proof -
  let ?m = "mesg_zero\<lparr>m_kind := 10\<rparr>"
  have ok: "sys_ok demo_sys" "length ''room'' < MAXPATH" by (simp_all add: sys_ok_def demo_sys_def)
  obtain s0 w1 s w where start: "bl_server [''room''] True 0 demo_sys = Inr (Some (s0, w1))"
      and run: "chat_run s0 w1 [demo_join] [] s w" and s: "members s = [(''sb'', ''tb'')]" "v_sent w = [(''tb'', joined_mesg ''zoe'')]" "v_sent w1 = []"
    by (rule demo_run)
  have w1: "v_fifo w1 ''sb'' = []" "v_joins w1 = []"
    using start by (auto simp: bl_server_def server_start_def check_fail_def Let_def demo_sys_def unlink_def)
  have "chat_run s0 w1 [demo_join] ([] @ [(''sb'', ?m)]) s
      (w\<lparr>v_fifo := (v_fifo w)(''sb'' := v_fifo w ''sb'' @ [?m])\<rparr>)" (is "chat_run _ _ _ _ _ ?w")
    by (rule chat_run.written [OF run]) simp
  then have said: "chat_run s0 w1 [demo_join] [(''sb'', ?m)] s ?w" by simp
  from server_implements_room [OF start ok(2,1) this] obtain es ks where es: "members s = members_after es []"
      "v_sent ?w = v_sent w1 @ given es []"
      "\<forall>p. v_fifo w1 p @ via p [(''sb'', ?m)] = via p (taken es []) @ v_fifo ?w p" "v_joins w1 @ [demo_join] = ks @ v_joins ?w" by blast
  from es(1-2) s w1 es(4) spec [OF es(3), of "''sb''"] start said show ?thesis
    by (intro exI [of _ s0] exI [of _ w1] exI [of _ s] exI [of _ ?w] exI [of _ es] exI [of _ ks]) simp
qed

theorem same_conversation_witness:
  "\<exists>s0 w1 s w ms. bl_server [''room''] True 0 demo_sys = Inr (Some (s0, w1)) \<and> chat_run s0 w1 [demo_join] [] s w
    \<and> length (clients s) = 1 \<and> via ''tb'' (v_sent w) = joined_mesg ''zoe'' # ms"
proof -
  have ok: "sys_ok demo_sys" "length ''room'' < MAXPATH" by (simp_all add: sys_ok_def demo_sys_def)
  obtain s0 w1 s w where start: "bl_server [''room''] True 0 demo_sys = Inr (Some (s0, w1))"
      and run: "chat_run s0 w1 [demo_join] [] s w" and s: "v_sent w1 = []" "members s = [(''sb'', ''tb'')]"
      "clients s = [new_client ''zoe'' 9 10 ''tb'' ''sb'']"
    by (rule demo_run)
  have "v_joins w1 = []"
    using start by (auto simp: bl_server_def server_start_def check_fail_def Let_def demo_sys_def unlink_def)
  moreover from s(2,3) have "tc_path (new_client ''zoe'' 9 10 ''tb'' ''sb'') = ''tb''" by (simp add: members_clients)
  ultimately obtain ms where "via ''tb'' (v_sent w) = joined_mesg ''zoe'' # ms"
    using same_conversation [OF start ok(2,1) run] s(1,3) by (auto simp: demo_join_texts)
  with start run s(3) show ?thesis
    by (intro exI [of _ s0] exI [of _ w1] exI [of _ s] exI [of _ w] exI [of _ ms]) simp
qed

end
