(* ===== verification/Chat_System.thy ===== *)
theory Chat_System
  imports Chat_Client Chat_Room
begin

text \<open>
  The chat service as a whole: what a user types at one client, through the server, to what the
  other clients display. The client, the server and the display are those of \<open>Chat_Client\<close> and
  \<open>Chat_Room\<close>; a message written to a FIFO is a message read from it.
\<close>

section \<open>A room stays live while messages are passed on\<close>

lemma paths_ready [simp]:
  "tc_path (c\<lparr>c_data_ready := f\<rparr>) = tc_path c" "ts_path (c\<lparr>c_data_ready := f\<rparr>) = ts_path c"
  "fds_of (c\<lparr>c_data_ready := f\<rparr>) = fds_of c" "paths_of (c\<lparr>c_data_ready := f\<rparr>) = paths_of c"
  "client_ok (c\<lparr>c_data_ready := f\<rparr>) = client_ok c"
  by (simp_all add: tc_path_def ts_path_def fds_of_def paths_of_def client_ok_def)

lemma copies_ready: "copies m (a @ c\<lparr>c_data_ready := f\<rparr> # b) = copies m (a @ c # b)"
  by (simp add: copies_def)

lemma room_live_ready:
  assumes "room_live s w" and "clients s = a @ c # b" and "table_wf s1"
    and "clients s1 = a @ c\<lparr>c_data_ready := f\<rparr> # b" and "v_fds w1 = v_fds w" and "v_files w1 = v_files w"
  shows "room_live s1 w1"
proof -
  have "map fds_of (clients s1) = map fds_of (clients s)" "map paths_of (clients s1) = map paths_of (clients s)"
    by (simp_all add: assms(2,4))
  moreover have "\<forall>x \<in> set (clients s1). client_ok x \<and> v_fds w1 (c_to_client_fd x) = Some (tc_path x)
      \<and> v_fds w1 (c_to_server_fd x) = Some (ts_path x)"
    using assms(1) by (auto simp: room_live_def assms(2,4,5))
  ultimately show ?thesis using assms(1,3) by (simp add: room_live_def assms(6))
qed

text \<open>The other ends of the FIFOs towards the clients read.\<close>

definition all_read :: "client_t list \<Rightarrow> sys \<Rightarrow> bool" where
  "all_read cs w \<longleftrightarrow> (\<forall>x \<in> set cs. v_peer w (tc_path x) = Present)"

lemma handle_mesg_live:
  assumes "room_live s w" and "clients s = a @ c # b" and "all_read (clients s) w"
    and "v_fifo w (ts_path c) = m # ms" and "mesg_ok m" and "m_kind m = kind_code BL_MESG"
  shows "\<exists>s1 w1. server_handle_client s (int (length a)) w = Inr (0, s1, w1) \<and> room_live s1 w1
    \<and> clients s1 = a @ c\<lparr>c_data_ready := 0\<rparr> # b \<and> v_peer w1 = v_peer w
    \<and> v_sent w1 = v_sent w @ copies m (clients s) \<and> v_fifo w1 = (v_fifo w)(ts_path c := ms)"
proof -
  let ?w = "w\<lparr>v_fifo := (v_fifo w)(ts_path c := ms)\<rparr>"
  have wf: "table_wf s" and fd: "v_fds w (c_to_server_fd c) = Some (ts_path c)"
    using assms(1,2) by (auto simp: room_live_def)
  obtain n t where t: "name_text m = Inr n" "body_text m = Inr t" using mesg_ok_text [OF assms(5)] by blast
  let ?u = "say (''server: mesg received from client '' @ show_int (int (length a)) @ '' '' @ n @ '' : '' @ t) ?w"
  have "\<forall>x \<in> set (clients s). listening w x"
    using assms(1,3) live_listening unfolding all_read_def by blast
  then have "\<forall>x \<in> set (clients s). listening ?u x" by (simp add: listening_def)
  from broadcast_all [OF wf this assms(5)] obtain y where
    y: "server_broadcast s m ?u = Inr (0, (say y ?u)\<lparr>v_sent := v_sent ?u @ copies m (clients s)\<rparr>)" by blast
  then have "take_action s (int (length a)) m ?w = Inr (s, (say y ?u)\<lparr>v_sent := v_sent ?u @ copies m (clients s)\<rparr>)"
    by (simp add: take_action_def t assms(6))
  from handle_client_steps [OF wf assms(2) fd assms(4) this wf] obtain s1 where
    s1: "server_handle_client s (int (length a)) w = Inr (0, s1, (say y ?u)\<lparr>v_sent := v_sent ?u @ copies m (clients s)\<rparr>)"
      "table_wf s1" "clients s1 = a @ c\<lparr>c_data_ready := 0\<rparr> # b" by (auto simp: assms(2))
  have "room_live s1 ((say y ?u)\<lparr>v_sent := v_sent ?u @ copies m (clients s)\<rparr>)"
    by (rule room_live_ready [OF assms(1,2) s1(2,3)]) simp_all
  then show ?thesis using s1(1,3) by simp
qed

section \<open>The messages of one client\<close>

text \<open>The server handles the client at a position so many times.\<close>

fun serve_messages :: "nat \<Rightarrow> int \<Rightarrow> server_t \<Rightarrow> sys \<Rightarrow> (server_t \<times> sys) res" where
  "serve_messages 0 idx s w = Inr (s, w)"
| "serve_messages (Suc n) idx s w =
     rbind (server_handle_client s idx w) (\<lambda>(_, s1, w1). serve_messages n idx s1 w1)"

lemma serve_lines:
  assumes "room_live s w" and "clients s = a @ c # b" and "all_read (clients s) w"
    and "v_fifo w (ts_path c) = ms @ rest" and "\<forall>m \<in> set ms. mesg_ok m \<and> m_kind m = kind_code BL_MESG"
  shows "\<exists>s1 w1 f. serve_messages (length ms) (int (length a)) s w = Inr (s1, w1) \<and> room_live s1 w1
    \<and> clients s1 = a @ c\<lparr>c_data_ready := f\<rparr> # b \<and> v_peer w1 = v_peer w
    \<and> v_sent w1 = v_sent w @ concat (map (\<lambda>m. copies m (a @ c # b)) ms)
    \<and> v_fifo w1 (ts_path c) = rest"
  using assms
proof (induction ms arbitrary: s w c)
  case Nil
  then show ?case by (intro exI [of _ s] exI [of _ w] exI [of _ "c_data_ready c"]) simp
next
  case (Cons m ms)
  from handle_mesg_live [OF Cons.prems(1-3), of m "ms @ rest"] Cons.prems(4,5) obtain s1 w1 where
    s1: "server_handle_client s (int (length a)) w = Inr (0, s1, w1)" "room_live s1 w1"
      "clients s1 = a @ c\<lparr>c_data_ready := 0\<rparr> # b" "v_peer w1 = v_peer w"
      "v_sent w1 = v_sent w @ copies m (clients s)" "v_fifo w1 = (v_fifo w)(ts_path c := ms @ rest)" by auto
  have "all_read (clients s1) w1" using Cons.prems(2,3) by (simp add: all_read_def s1(3,4))
  from Cons.IH [OF s1(2,3) this] s1(6) Cons.prems(5) obtain s2 w2 f where
    "serve_messages (length ms) (int (length a)) s1 w1 = Inr (s2, w2)" "room_live s2 w2"
    "clients s2 = a @ c\<lparr>c_data_ready := f\<rparr> # b" "v_peer w2 = v_peer w1"
    "v_sent w2 = v_sent w1 @ concat (map (\<lambda>m. copies m (a @ c # b)) ms)"
    "v_fifo w2 (ts_path c) = rest" by (auto simp: copies_ready)
  then show ?case using s1(1,4,5) Cons.prems(2) by (intro exI [of _ s2] exI [of _ w2] exI [of _ f]) simp
qed

text \<open>A departure behind the lines.\<close>

lemma serve_messages_append:
  "serve_messages n idx s w = Inr (s1, w1) \<Longrightarrow>
   serve_messages (n + k) idx s w = serve_messages k idx s1 w1"
  by (induction n arbitrary: s w) auto

lemma serve_session:
  assumes "room_live s w" and "clients s = a @ c # b" and "all_read (clients s) w"
    and "v_fifo w (ts_path c) = ms @ [d]" and "\<forall>m \<in> set ms. mesg_ok m \<and> m_kind m = kind_code BL_MESG"
    and "mesg_ok d" and "m_kind d = kind_code BL_DEPARTED"
  shows "\<exists>s1 w1. serve_messages (length ms + 1) (int (length a)) s w = Inr (s1, w1)
    \<and> map tc_path (clients s1) = map tc_path (a @ b)
    \<and> v_sent w1 = v_sent w @ concat (map (\<lambda>m. copies m (a @ c # b)) ms) @ copies d (a @ b)"
proof -
  obtain s1 w1 f where s1: "serve_messages (length ms) (int (length a)) s w = Inr (s1, w1)" "room_live s1 w1"
    "clients s1 = a @ c\<lparr>c_data_ready := f\<rparr> # b" "v_peer w1 = v_peer w"
    "v_sent w1 = v_sent w @ concat (map (\<lambda>m. copies m (a @ c # b)) ms)" "v_fifo w1 (ts_path c) = [d]"
    using serve_lines [OF assms(1-5)] by blast
  have present: "\<forall>x \<in> set (a @ b). v_peer w1 (tc_path x) = Present"
    using assms(2,3) by (simp add: all_read_def s1(4))
  have fifo: "v_fifo w1 (ts_path (c\<lparr>c_data_ready := f\<rparr>)) = d # []" using s1(6) by simp
  obtain s2 w2 where s2: "server_handle_client s1 (int (length a)) w1 = Inr (0, s2, w2)"
    "clients s2 = (a @ b)[length a := ((a @ b) ! length a)\<lparr>c_data_ready := 0\<rparr>]"
    "v_sent w2 = v_sent w1 @ copies d (a @ b)"
    using handle_departed [OF s1(2,3) present fifo assms(6,7)] by blast
  have "map tc_path (clients s2) = map tc_path (a @ b)"
    unfolding s2(2) map_update paths_ready by (metis list_update_id list_update_beyond map_update not_less)
  moreover have "serve_messages (length ms + 1) (int (length a)) s w = Inr (s2, w2)"
    unfolding serve_messages_append [OF s1(1)] by (simp add: s2(1))
  moreover have "v_sent w2 = v_sent w @ concat (map (\<lambda>m. copies m (a @ c # b)) ms) @ copies d (a @ b)"
    by (simp add: s2(3) s1(5))
  ultimately show ?thesis by blast
qed

section \<open>What a client receives\<close>

definition received_by :: "client_t \<Rightarrow> (string \<times> mesg_t) list \<Rightarrow> mesg_t list" where
  "received_by x sent = map snd (filter (\<lambda>(p, m). p = tc_path x) sent)"

lemma received_by_append: "received_by x (u @ v) = received_by x u @ received_by x v"
  by (simp add: received_by_def)

lemma received_copies:
  assumes "distinct (map tc_path cs)"
  shows "received_by x (copies m cs) = (if tc_path x \<in> tc_path ` set cs then [m] else [])"
  using assms by (induction cs) (auto simp: received_by_def)

lemma received_lines:
  assumes "distinct (map tc_path cs)" and "x \<in> set cs"
  shows "received_by x (concat (map (\<lambda>m. copies m cs) ms)) = ms"
proof (induction ms)
  case (Cons m ms)
  then show ?case using assms by (simp add: received_by_append received_copies)
qed (simp add: received_by_def)

lemma distinct_tc_paths:
  assumes "room_live s w"
  shows "distinct (map tc_path (clients s))"
proof -
  have "distinct (concat (map paths_of cs)) \<Longrightarrow> distinct (map tc_path cs)" for cs
    by (induction cs) (auto simp: paths_of_def)
  then show ?thesis using assms by (simp add: room_live_def)
qed

section \<open>The messages of a session\<close>

lemma key_text_line:
  assumes "length t < MAXLINE" and "NUL \<notin> set t" and "c \<noteq> NUL"
  shows "length (key_text (Some c) t) < MAXLINE" and "NUL \<notin> set (key_text (Some c) t)"
  using assms by (auto simp: key_text_def dest: in_set_butlastD)

lemma session_lines:
  assumes "length t < MAXLINE" and "NUL \<notin> set t" and "NUL \<notin> set i"
  shows "\<forall>l \<in> set (session t i). length l < MAXLINE \<and> NUL \<notin> set l"
  using assms
proof (induction t i rule: session.induct)
  case (2 t c cs)
  have c: "c \<noteq> NUL" "NUL \<notin> set cs" using "2.prems"(3) by auto
  show ?case
  proof (cases "key_enters (Some c) t")
    case True
    then show ?thesis using "2.IH"(1) [OF True] "2.prems" c by simp
  next
    case False
    show ?thesis
    proof (cases "c = EOT")
      case True
      then show ?thesis using False by simp
    next
      case eot: False
      show ?thesis using "2.IH"(2) [OF False eot] key_text_line [OF "2.prems"(1,2) c(1)] c(2) False eot by simp
    qed
  qed
qed simp

lemma user_mesg_ok:
  assumes "length t < MAXLINE"
  shows "mesg_ok (user_mesg u t)" and "m_kind (user_mesg u t) = kind_code BL_MESG"
proof -
  have "length (cstr t) < MAXLINE" using assms length_cstr_le [of t] by simp
  then have "NUL \<in> set (strncpy_bytes MAXLINE (cstr t))" by (simp add: strncpy_bytes_def)
  then show "mesg_ok (user_mesg u t)" by (simp add: mesg_ok_def user_mesg_parts)
qed (simp add: user_mesg_parts)

lemma departed_parts:
  "m_kind (departed_mesg u) = kind_code BL_DEPARTED" "m_name (departed_mesg u) = strncpy_bytes MAXNAME u"
  "m_body (departed_mesg u) = replicate MAXLINE NUL"
  by (simp_all add: departed_mesg_def put_name_short mesg_zero_def)

lemma departed_ok: "mesg_ok (departed_mesg u)"
  by (simp add: mesg_ok_def departed_parts)

lemma shown_departed:
  assumes "NUL \<notin> set u" and "length u < MAXNAME"
  shows "shown (departed_mesg u) = Inr (Some (''-- '' @ u @ '' DEPARTED --'' @ [LF]))"
  using cstr_strncpy [OF assms] by (simp add: shown_def departed_parts name_text_def)

text \<open>A session that ends: the user thread can always go on to its end.\<close>

lemma user_step_alive: "user_step k = Inr k1 \<Longrightarrow> k_user_alive k1 = k_user_alive k"
  by (auto simp: user_step_def Let_def send_def split: user_pc.splits if_splits)

lemma session_can_end:
  assumes "client_reach k0 k" and "client_wf k" and "k_user_alive k"
  shows "\<exists>k1. client_reach k0 k1 \<and> k_user k1 = U_Done"
  using assms
proof (induction "steps_left k" arbitrary: k rule: less_induct)
  case less
  show ?case
  proof (cases "k_user k = U_Done")
    case True
    then show ?thesis using less.prems(1) by blast
  next
    case False
    obtain k1 where k1: "user_step k = Inr k1" "steps_left k1 < steps_left k"
      using user_step_progress [OF less.prems(2) False] by blast
    then have step: "client_step k k1" using False less.prems(3) by (blast intro: client_step.user)
    have "client_wf k1" using client_step_mesgs [OF step less.prems(2)] by blast
    then show ?thesis
      using less.hyps [OF k1(2) client_reach.step [OF less.prems(1) step]] user_step_alive [OF k1(1)] less.prems(3)
      by simp
  qed
qed

section \<open>From the start of a client into the room\<close>

text \<open>The FIFOs of a client carry its process number, so no two running clients share one.\<close>

definition to_user_fifo :: "int \<Rightarrow> string" where
  "to_user_fifo pid = ''to_user_'' @ show_int pid @ ''.fifo''"

definition to_server_fifo :: "int \<Rightarrow> string" where
  "to_server_fifo pid = ''to_server_'' @ show_int pid @ ''.fifo''"

lemma fifos_apart:
  "to_user_fifo p = to_user_fifo q \<longleftrightarrow> p = q" "to_server_fifo p = to_server_fifo q \<longleftrightarrow> p = q"
  "to_user_fifo p \<noteq> to_server_fifo q"
proof -
  have "show_int p = show_int q \<longleftrightarrow> p = q" by (metis atoi_value_show_int)
  then show "to_user_fifo p = to_user_fifo q \<longleftrightarrow> p = q" "to_server_fifo p = to_server_fifo q \<longleftrightarrow> p = q"
    "to_user_fifo p \<noteq> to_server_fifo q"
    by (simp_all add: to_user_fifo_def to_server_fifo_def)
qed

lemma fifos_named: "to_user_fifo p \<noteq> []" "to_server_fifo p \<noteq> []"
  by (simp_all add: to_user_fifo_def to_server_fifo_def)

lemma show_int_text: "0 \<le> pid \<Longrightarrow> NUL \<notin> set (show_int pid)"
  using show_nat_digits [of NUL "nat pid"] by (auto simp: show_int_def digit_value.simps)

lemma fifo_names:
  assumes "0 \<le> pid" and "pid \<le> INT_MAX"
  shows "NUL \<notin> set (to_user_fifo pid)" "NUL \<notin> set (to_server_fifo pid)"
    "length (to_user_fifo pid) < MAXPATH" "length (to_server_fifo pid) < MAXPATH"
proof -
  have "length (show_nat (nat pid)) \<le> 10" using assms by (intro length_show_nat) auto
  then have "length (show_int pid) \<le> 10" using assms(1) by (simp add: show_int_def)
  then show "NUL \<notin> set (to_user_fifo pid)" "NUL \<notin> set (to_server_fifo pid)"
    "length (to_user_fifo pid) < MAXPATH" "length (to_server_fifo pid) < MAXPATH"
    using show_int_text [OF assms(1)] by (simp_all add: to_user_fifo_def to_server_fifo_def)
qed

definition join_request :: "string \<Rightarrow> int \<Rightarrow> join_t" where
  "join_request u pid = \<lparr>j_name = strncpy_bytes MAXPATH u,
     j_to_client = strncpy_bytes MAXPATH (to_user_fifo pid), j_to_server = strncpy_bytes MAXPATH (to_server_fifo pid)\<rparr>"

lemma make_join_request:
  assumes "NUL \<notin> set srv" and "length srv < MAXPATH" and "length u < MAXPATH"
    and "0 \<le> pid" and "pid \<le> INT_MAX"
  shows "make_join pid srv u = Inr (srv, join_request u pid)"
proof -
  note names = fifo_names [OF assms(4,5)]
  have copies: "strcpy_to MAXPATH srv = Inr (strncpy_bytes MAXPATH srv)" "strcpy_to MAXPATH u = Inr (strncpy_bytes MAXPATH u)"
    "strcpy_to MAXPATH (to_user_fifo pid) = Inr (strncpy_bytes MAXPATH (to_user_fifo pid))"
    "strcpy_to MAXPATH (to_server_fifo pid) = Inr (strncpy_bytes MAXPATH (to_server_fifo pid))"
    using assms(2,3) names(3,4) by (simp_all only: strcpy_to_def if_True)
  have "cstr (strncpy_bytes MAXPATH srv) = srv" using assms(1,2) by (intro cstr_strncpy_bytes) simp_all
  then show ?thesis
    unfolding make_join_def fifo_suffix_fits [OF assms(4,5)] rbind.simps Let_def
      to_user_fifo_def [symmetric] to_server_fifo_def [symmetric] copies
    by (simp add: join_request_def)
qed

lemma join_request_ok:
  assumes "length u < MAXPATH" and "0 \<le> pid" and "pid \<le> INT_MAX"
  shows "join_ok (join_request u pid)"
proof -
  have nul: "NUL \<in> set (strncpy_bytes MAXPATH s)" if "length s < MAXPATH" for s
    using that by (simp add: strncpy_bytes_def)
  show ?thesis
    unfolding join_ok_def join_request_def join_t.select_convs
    using nul [OF assms(1)] nul [OF fifo_names(3) [OF assms(2,3)]] nul [OF fifo_names(4) [OF assms(2,3)]] by simp
qed

lemma join_request_texts:
  assumes "NUL \<notin> set u" and "length u < MAXPATH" and "0 \<le> pid" and "pid \<le> INT_MAX"
  shows "cstr (j_name (join_request u pid)) = u" "cstr (j_to_client (join_request u pid)) = to_user_fifo pid"
    "cstr (j_to_server (join_request u pid)) = to_server_fifo pid"
  using assms fifo_names [OF assms(3,4)] by (simp_all add: join_request_def cstr_strncpy_bytes)

text \<open>The line editor the client starts with.\<close>

lemma start_editor:
  "\<exists>sp. simpio_reset (simpio_set_prompt simpio_zero (client_prompt u)) = Inr sp
    \<and> simpio_wf sp \<and> sp_end_of_input sp = 0"
proof -
  have "length (client_prompt u) < MAXNAME" by (simp add: client_prompt_def snprintf_def)
  then have "NUL \<in> set (strncpy_bytes MAXNAME (client_prompt u))" by (simp add: strncpy_bytes_def)
  then have "simpio_wf (simpio_set_prompt simpio_zero (client_prompt u))"
    using simpio_zero_wf by (simp add: simpio_wf_def simpio_set_prompt_def)
  from simpio_reset_wf [OF this] obtain sp where sp: "simpio_reset (simpio_set_prompt simpio_zero (client_prompt u)) = Inr sp"
    "simpio_wf sp" "editor_of sp = \<lparr>ed_text = [], ed_entered = False, ed_ended = False\<rparr>" by blast
  then show ?thesis using flags_zero(2) [OF sp(2)] by auto
qed

section \<open>Properties\<close>

text \<open>What a display shows of a session.\<close>

definition displayed :: "string \<Rightarrow> string list \<Rightarrow> string list" where
  "displayed u ls =
     map (\<lambda>t. ''['' @ u @ ''] : '' @ t @ [LF]) ls @ [''-- '' @ u @ '' DEPARTED --'' @ [LF]]"

lemma shown_session:
  assumes "NUL \<notin> set u" and "length u < MAXNAME" and "\<forall>l \<in> set ls. length l < MAXLINE \<and> NUL \<notin> set l"
  shows "map shown (session_mesgs u ls) = map (\<lambda>t. Inr (Some t)) (displayed u ls)"
  using assms by (simp add: session_mesgs_def displayed_def shown_user_mesg shown_departed del: append.simps)

text \<open>
  C4. From the keyboard of one client to the screens of the others. When a client whose keys are
  any input has ended its session, under whatever interleaving of its threads, and the server
  has handled what the client wrote, every other client of the room has been sent, in this
  order and with nothing between, messages whose texts are the lines the user entered, with
  the user's name, and then the departure; and the room is the other clients. A client that has these messages to
  read, and whose \<open>iprintf\<close> has room for each text (\<open>fits\<close>: less than 1024 bytes, and less than 2048
  with the prompt and what is typed), displays them in this order, each above its prompt and typed line.
\<close>

theorem conversation_reaches_others:
  assumes "client_reach (client_start sp u input) k" and "simpio_wf sp" and "sp_end_of_input sp = 0"
    and "k_user k = U_Done" and "NUL \<notin> set input" and "NUL \<notin> set u" and "length u < MAXNAME"
    and "room_live s w" and "clients s = a @ c # b" and "all_read (clients s) w"
    and "v_fifo w (ts_path c) = k_sent k" and "x \<in> set (a @ b)"
  shows "\<exists>s1 w1 sent. serve_messages (length (k_sent k)) (int (length a)) s w = Inr (s1, w1)
    \<and> map tc_path (clients s1) = map tc_path (a @ b) \<and> v_sent w1 = v_sent w @ sent
    \<and> map shown (received_by x sent) = map (\<lambda>t. Inr (Some t)) (displayed u (session [] input))
    \<and> (\<forall>r. client_wf r \<and> k_inbox r = received_by x sent \<and> (\<forall>t \<in> set (displayed u (session [] input)). fits r t) \<longrightarrow>
        server_run (length (received_by x sent)) r
          = Inr (r\<lparr>k_inbox := [], k_io := out (concat (map (redrawn (k_simpio r)) (displayed u (session [] input)))) (k_io r)\<rparr>))"
proof -
  let ?ls = "session [] input"
  let ?ms = "map (user_mesg u) ?ls"
  have sent: "k_sent k = ?ms @ [departed_mesg u]"
    using client_reach_mesgs [OF assms(1)] client_start_mesgs [OF assms(2,3)] assms(4)
    by (simp add: all_mesgs_def session_mesgs_def)
  have lines: "\<forall>l \<in> set ?ls. length l < MAXLINE \<and> NUL \<notin> set l"
    using session_lines [of "[]" input] assms(5) by simp
  then have ok: "\<forall>m \<in> set ?ms. mesg_ok m \<and> m_kind m = kind_code BL_MESG"
    using user_mesg_ok by auto
  have "v_fifo w (ts_path c) = ?ms @ [departed_mesg u]" by (simp only: assms(11) sent)
  from serve_session [OF assms(8-10) this ok departed_ok departed_parts(1)] obtain s1 w1 where
    s1: "serve_messages (length ?ms + 1) (int (length a)) s w = Inr (s1, w1)"
      "map tc_path (clients s1) = map tc_path (a @ b)"
      "v_sent w1 = v_sent w @ concat (map (\<lambda>m. copies m (a @ c # b)) ?ms) @ copies (departed_mesg u) (a @ b)"
    by blast
  have "distinct (map tc_path (a @ c # b))" using distinct_tc_paths [OF assms(8)] by (simp only: assms(9))
  moreover from this have "distinct (map tc_path (a @ b))" by auto
  ultimately have "received_by x (concat (map (\<lambda>m. copies m (a @ c # b)) ?ms) @ copies (departed_mesg u) (a @ b))
      = session_mesgs u ?ls"
    using assms(12) received_lines [of "a @ c # b" x ?ms] received_copies [of "a @ b" x "departed_mesg u"]
    unfolding received_by_append session_mesgs_def by auto
  note received = this
  let ?sent = "concat (map (\<lambda>m. copies m (a @ c # b)) ?ms) @ copies (departed_mesg u) (a @ b)"
  have texts: "map shown (received_by x ?sent) = map (\<lambda>t. Inr (Some t)) (displayed u ?ls)"
    using shown_session [OF assms(6,7) lines] received by (simp only:)
  have kinds: "\<forall>m \<in> set (received_by x ?sent). m_kind m \<noteq> kind_code BL_SHUTDOWN"
    unfolding received session_mesgs_def using departed_parts(1) by (auto simp: user_mesg_parts)
  have "length (k_sent k) = length ?ms + 1" by (simp add: sent)
  with s1 texts server_run_shows [OF _ _ texts _ kinds] show ?thesis
    by (intro exI [of _ s1] exI [of _ w1] exI [of _ ?sent]) simp
qed

theorem conversation_reaches_others_witness:
  "\<exists>(k :: chat_client) s1 w1 sent. k_user k = U_Done
    \<and> serve_messages (length (k_sent k)) 0 demo_server (demo_sys\<lparr>v_fifo := (\<lambda>_. k_sent k)\<rparr>) = Inr (s1, w1)
    \<and> map tc_path (clients s1) = [''te''] \<and> v_sent w1 = sent
    \<and> map shown (received_by eve sent)
        = [Inr (Some ''[bob] : hi\<newline>''), Inr (Some ''-- bob DEPARTED --\<newline>'')]
    \<and> (\<exists>r. server_run 2 ((client_start simpio_zero ''eve'' [])\<lparr>k_inbox := received_by eve sent\<rparr>) = Inr r
        \<and> io_out (k_io r) = erase_line @ ''[bob] : hi\<newline>'' @ erase_line @ ''-- bob DEPARTED --\<newline>'')"
proof -
  let ?k = "client_start simpio_zero ''bob'' ''hi\<newline>''"
  have "client_wf ?k" "k_user_alive ?k" using simpio_zero_wf by (simp_all add: client_wf_def client_start_def)
  from session_can_end [OF client_reach.start this] obtain k where
    k: "client_reach ?k k" "k_user k = U_Done" by blast
  let ?w = "demo_sys\<lparr>v_fifo := (\<lambda>_. k_sent k)\<rparr>"
  have start: "simpio_wf simpio_zero" "sp_end_of_input simpio_zero = 0"
    using simpio_zero_wf by (simp_all add: simpio_zero_def)
  have names: "NUL \<notin> set ''hi\<newline>''" "NUL \<notin> set ''bob''" "length ''bob'' < MAXNAME" by simp_all
  have room: "room_live demo_server ?w" "clients demo_server = [] @ bob # [eve]" "all_read (clients demo_server) ?w"
      "v_fifo ?w (ts_path bob) = k_sent k" "eve \<in> set ([] @ [eve])"
    using demo_live by (simp_all add: room_live_def all_read_def demo_sys_def)
  have lines: "displayed ''bob'' (session [] ''hi\<newline>'') = [''[bob] : hi\<newline>'', ''-- bob DEPARTED --\<newline>'']"
    by (simp add: displayed_def key_enters_def key_text_def)
  obtain s1 w1 sent where r: "serve_messages (length (k_sent k)) (int (length ([] :: client_t list))) demo_server ?w = Inr (s1, w1)"
      "map tc_path (clients s1) = map tc_path ([] @ [eve])" "v_sent w1 = v_sent ?w @ sent"
      "map shown (received_by eve sent) = map (\<lambda>t. Inr (Some t)) (displayed ''bob'' (session [] ''hi\<newline>''))"
    and reads: "\<forall>r. client_wf r \<and> k_inbox r = received_by eve sent \<and> (\<forall>t \<in> set (displayed ''bob'' (session [] ''hi\<newline>'')). fits r t) \<longrightarrow>
      server_run (length (received_by eve sent)) r
        = Inr (r\<lparr>k_inbox := [], k_io := out (concat (map (redrawn (k_simpio r)) (displayed ''bob'' (session [] ''hi\<newline>'')))) (k_io r)\<rparr>)"
    using conversation_reaches_others [OF k(1) start k(2) names room] by blast
  let ?r = "(client_start simpio_zero ''eve'' [])\<lparr>k_inbox := received_by eve sent\<rparr>"
  have empty: "cstr (sp_prompt simpio_zero) = []" "ed_text (editor_of simpio_zero) = []"
    by (simp_all add: simpio_zero_def editor_of_def cstr_def)
  have two: "length (received_by eve sent) = 2" using arg_cong [OF r(4), of length] unfolding lines by simp
  have "client_wf ?r" "\<forall>t \<in> set (displayed ''bob'' (session [] ''hi\<newline>'')). fits ?r t"
    using simpio_zero_wf empty unfolding lines by (simp_all add: client_wf_def client_start_def fits_def cstr_def)
  with reads two have run: "server_run 2 ?r = Inr (?r\<lparr>k_inbox := [],
      k_io := out (concat (map (redrawn (k_simpio ?r)) [''[bob] : hi\<newline>'', ''-- bob DEPARTED --\<newline>''])) (k_io ?r)\<rparr>)"
    unfolding lines by simp
  have "\<exists>q. server_run 2 ?r = Inr q
      \<and> io_out (k_io q) = erase_line @ ''[bob] : hi\<newline>'' @ erase_line @ ''-- bob DEPARTED --\<newline>''"
    unfolding run using empty by (simp add: redrawn_def client_start_def out_def cstr_def)
  moreover have "map shown (received_by eve sent)
      = [Inr (Some ''[bob] : hi\<newline>''), Inr (Some ''-- bob DEPARTED --\<newline>'')]"
    using r(4) unfolding lines by simp
  moreover have "serve_messages (length (k_sent k)) 0 demo_server ?w = Inr (s1, w1)" using r(1) by simp
  moreover have "map tc_path (clients s1) = [''te'']" using r(2) by simp
  moreover have "v_sent w1 = sent" using r(3) by (simp add: demo_sys_def)
  ultimately show ?thesis using k(2)
    by - (rule exI [of _ k], rule exI [of _ s1], rule exI [of _ w1], rule exI [of _ sent], intro conjI, assumption+)
qed

text \<open>
  C11. A client started with a server's name and a user name sends a request that the server turns
  into an entry of the room: the user name, and two FIFOs that carry the process number of the
  client, so that they differ from those of every other process; the newcomer is announced to
  all. The client goes on with an empty line editor.
\<close>

theorem start_joins_room:
  assumes "NUL \<notin> set srv" and "length srv < MAXPATH" and "NUL \<notin> set u" and "length u < MAXPATH"
    and "0 \<le> pid" and "pid \<le> INT_MAX" and "server_exists srv"
    and "room_live s w" and "length (clients s) < MAXCLIENTS" and "all_read (clients s) w"
    and "v_fds w (s_join_fd s) \<noteq> None" and "v_joins w = join_request u pid # js"
    and "\<forall>fd. v_fds w fd \<noteq> None \<longrightarrow> fd < v_next_fd w" and "0 \<le> v_next_fd w"
    and "{to_user_fifo pid, to_server_fifo pid} \<subseteq> v_files w"
    and "v_peer w (to_user_fifo pid) = Present" and "v_peer w (to_server_fifo pid) = Present"
  shows "\<exists>sp s1 w1 c. client_main [srv, u] pid server_exists = Inr (Joining (join_request u pid) sp)
    \<and> simpio_wf sp \<and> sp_end_of_input sp = 0
    \<and> server_handle_join s w = Inr (0, s1, w1) \<and> clients s1 = clients s @ [c]
    \<and> cstr (c_name c) = u \<and> tc_path c = to_user_fifo pid \<and> ts_path c = to_server_fifo pid
    \<and> v_sent w1 = v_sent w @ copies (joined_mesg u) (clients s1)
    \<and> (\<forall>q. q \<noteq> pid \<longrightarrow> {to_user_fifo q, to_server_fifo q} \<inter> {to_user_fifo pid, to_server_fifo pid} = {})"
proof -
  note texts = join_request_texts [OF assms(3-6)]
  obtain sp where sp: "simpio_reset (simpio_set_prompt simpio_zero (client_prompt u)) = Inr sp"
    "simpio_wf sp" "sp_end_of_input sp = 0" using start_editor by blast
  have main: "client_main [srv, u] pid server_exists = Inr (Joining (join_request u pid) sp)"
    using make_join_request [OF assms(1,2,4,5,6)] assms(7) sp(1) by (simp add: client_main_def texts(1))
  have listen: "\<forall>c \<in> set (clients s). listening w c"
    using assms(8,10) live_listening unfolding all_read_def by blast
  obtain s1 w1 where s1: "server_handle_join s w = Inr (0, s1, w1)"
    "clients s1 = clients s @ [new_client u (v_next_fd w) (v_next_fd w + 1) (to_user_fifo pid) (to_server_fifo pid)]"
    "v_sent w1 = v_sent w @ copies (joined_mesg u) (clients s1)"
    using join_room [OF assms(8,9) listen assms(11,12) join_request_ok [OF assms(4-6)] assms(13,14)]
      assms(15-17) fifos_named [of pid] unfolding texts by auto
  let ?c = "new_client u (v_next_fd w) (v_next_fd w + 1) (to_user_fifo pid) (to_server_fifo pid)"
  have "cstr (c_name ?c) = u" "tc_path ?c = to_user_fifo pid" "ts_path ?c = to_server_fifo pid"
    using assms(3,4) fifo_names [OF assms(5,6)]
    by (simp_all add: new_client_def tc_path_def ts_path_def cstr_strncpy_bytes)
  moreover have "\<forall>q. q \<noteq> pid \<longrightarrow> {to_user_fifo q, to_server_fifo q} \<inter> {to_user_fifo pid, to_server_fifo pid} = {}"
    using fifos_apart by (metis Int_insert_left_if0 inf_bot_left insert_iff singletonD)
  ultimately show ?thesis using main sp(2,3) s1 by blast
qed

theorem start_joins_room_witness:
  "let w = demo_sys\<lparr>v_joins := [join_request ''zoe'' 42],
        v_files := v_files demo_sys \<union> {to_user_fifo 42, to_server_fifo 42}\<rparr> in
   \<exists>sp s1 w1 c. client_main [''room'', ''zoe''] 42 (\<lambda>_. True) = Inr (Joining (join_request ''zoe'' 42) sp)
    \<and> server_handle_join demo_server w = Inr (0, s1, w1) \<and> clients s1 = [bob, eve, c] \<and> cstr (c_name c) = ''zoe''"
proof -
  let ?w = "demo_sys\<lparr>v_joins := [join_request ''zoe'' 42],
    v_files := v_files demo_sys \<union> {to_user_fifo 42, to_server_fifo 42}\<rparr>"
  have live: "room_live demo_server ?w" using demo_live by (auto simp: room_live_def)
  have len: "length (clients demo_server) < MAXCLIENTS" by simp
  have reads: "all_read (clients demo_server) ?w" by (simp add: all_read_def demo_sys_def)
  have fds: "\<forall>fd. v_fds ?w fd \<noteq> None \<longrightarrow> fd < v_next_fd ?w"
    by (auto simp: demo_sys_def split: if_splits)
  have names: "NUL \<notin> set ''room''" "length ''room'' < MAXPATH" "NUL \<notin> set ''zoe''" "length ''zoe'' < MAXPATH"
    "(0 :: int) \<le> 42" "(42 :: int) \<le> INT_MAX" by simp_all
  have rest: "v_fds ?w (s_join_fd demo_server) \<noteq> None" "v_joins ?w = join_request ''zoe'' 42 # []" "0 \<le> v_next_fd ?w"
    "{to_user_fifo 42, to_server_fifo 42} \<subseteq> v_files ?w" "v_peer ?w p = Present" for p
    by (simp_all add: demo_sys_def)
  obtain sp s1 w1 c where r: "client_main [''room'', ''zoe''] 42 (\<lambda>_. True) = Inr (Joining (join_request ''zoe'' 42) sp)"
    "server_handle_join demo_server ?w = Inr (0, s1, w1)" "clients s1 = clients demo_server @ [c]" "cstr (c_name c) = ''zoe''"
    using start_joins_room [OF names TrueI live len reads rest(1,2) fds rest(3-5) rest(5)] by blast
  have "clients s1 = [bob, eve, c]" using r(3) by simp
  then show ?thesis unfolding Let_def using r(1,2,4) by blast
qed

text \<open>
  C13. What the programs of the chat write to each other has the type the reader relies on. The
  request of a client has three terminated strings; every message a client has sent, in every
  state of its threads, fills its arrays, has a terminated body and is of one of two kinds; every
  message the server has written in a reachable state fills its arrays and has a terminated
  body, when what it read had. The server thread of a client finds the texts of such a message without
  leaving its arrays. Whether it can display it depends on the length: it does, if \<open>iprintf\<close> has
  room for the text, and a text of more than 1024 bytes makes \<open>iprintf\<close> read bytes of its array
  that nothing has written.
\<close>

theorem protocol_typed:
  assumes "client_main [srv, u] pid server_exists = Inr (Joining join sp)"
    and "0 \<le> pid" and "pid \<le> INT_MAX" and "NUL \<notin> set srv" and "length srv < MAXPATH" and "NUL \<notin> set u" and "length u < MAXPATH"
    and "client_reach (client_start sp u input) k" and "NUL \<notin> set input"
    and "bl_server [name] made e w0 = Inr (Some (s0, w1))" and "length name < MAXPATH" and "sys_ok w0"
    and "chat_reach s0 w1 s w"
  shows "join_ok join
    \<and> (\<forall>m \<in> set (k_sent k). mesg_ok m \<and> m_kind m \<in> {kind_code BL_MESG, kind_code BL_DEPARTED})
    \<and> (\<forall>(path, m) \<in> set (v_sent w). mesg_ok m)
    \<and> (\<forall>m. mesg_ok m \<longrightarrow> (\<exists>t. shown m = Inr t))
    \<and> (\<forall>m t r. client_wf r \<and> shown m = Inr (Some t) \<longrightarrow>
        (fits r t \<longrightarrow> show_mesg m r = Inr (r\<lparr>k_io := out (redrawn (k_simpio r) t) (k_io r)\<rparr>))
        \<and> (MAXLINE < length t \<and> 5 + length t + length (cstr (sp_prompt (k_simpio r))) < 2 * MAXLINE \<longrightarrow>
            show_mesg m r = undef Uninitialised))"
proof -
  obtain sp1 where sp1: "simpio_reset (simpio_set_prompt simpio_zero (client_prompt (cstr (j_name (join_request u pid))))) = Inr sp1"
      "simpio_wf sp1" "sp_end_of_input sp1 = 0" using start_editor by blast
  have "client_main [srv, u] pid server_exists
      = (if server_exists srv then Inr (Joining (join_request u pid) sp1) else Inr (No_Server srv))"
    using make_join_request [OF assms(4,5,7,2,3)] sp1(1) by (simp add: client_main_def)
  with assms(1) have join: "join = join_request u pid" "sp = sp1" by (auto split: if_splits)
  have lines: "\<forall>l \<in> set (session [] input). length l < MAXLINE" using session_lines [of "[]" input] assms(9) by simp
  have "set (session_mesgs u (session [] input)) \<subseteq> {m. mesg_ok m \<and> m_kind m \<in> {kind_code BL_MESG, kind_code BL_DEPARTED}}"
    using lines user_mesg_ok departed_ok departed_parts(1) by (auto simp: session_mesgs_def)
  moreover have "all_mesgs k = session_mesgs u (session [] input)"
    using client_reach_mesgs [OF assms(8)] client_start_mesgs [of sp u input] sp1(2,3) unfolding join(2) by simp
  then have "set (k_sent k) \<subseteq> set (session_mesgs u (session [] input))"
    unfolding all_mesgs_def by (metis Un_iff set_append subsetI)
  moreover have "sys_ok w"
    using server_start_ok [OF assms(10-12)] chat_reach_ok [OF assms(13)] by auto
  moreover have "\<exists>t. shown m = Inr t" if "mesg_ok m" for m
    using mesg_ok_text [OF that] by (auto simp: shown_def)
  ultimately show ?thesis
    using join_request_ok [OF assms(7,2,3)] show_mesg_fits show_mesg_long unfolding join(1) sys_ok_def by fastforce
qed

theorem protocol_typed_witness:
  "\<exists>join sp. client_main [''room'', ''zoe''] 42 (\<lambda>_. True) = Inr (Joining join sp) \<and> join_ok join
    \<and> (\<exists>s w. bl_server [''room''] True 0 demo_sys = Inr (Some (s, w)))"
proof -
  have names: "NUL \<notin> set ''room''" "length ''room'' < MAXPATH" "NUL \<notin> set ''zoe''" "length ''zoe'' < MAXPATH"
      "(0 :: int) \<le> 42" "(42 :: int) \<le> INT_MAX" "NUL \<notin> set ''hi\<newline>''" by simp_all
  obtain sp where sp: "simpio_reset (simpio_set_prompt simpio_zero (client_prompt (cstr (j_name (join_request ''zoe'' 42))))) = Inr sp"
    using start_editor by blast
  have main: "client_main [''room'', ''zoe''] 42 (\<lambda>_. True) = Inr (Joining (join_request ''zoe'' 42) sp)"
    using make_join_request [OF names(1,2,4,5,6)] sp by (simp add: client_main_def)
  obtain s w where sw: "bl_server [''room''] True 0 demo_sys = Inr (Some (s, w))"
    by (simp add: bl_server_def server_start_def check_fail_def Let_def)
  have "sys_ok demo_sys" by (simp add: sys_ok_def demo_sys_def)
  from protocol_typed [OF main names(5,6,1,2,3,4) client_reach.start names(7) sw names(2) this chat_reach.start] main sw
  show ?thesis by blast
qed

end
