(* ===== verification/Chat_Program.thy ===== *)
theory Chat_Program
  imports Chat_System Chat_Terminal
begin

text \<open>
  \<open>main\<close> of \<open>Unix_Chat_Service/bl-client.c\<close> as a whole: the start, the terminal it switches, its
  two threads in every interleaving, a server that may go, and the end. The two functions of
  \<open>util.c\<close> that nothing calls stand here too.
\<close>

section \<open>\<open>util.c\<close>\<close>

abbreviation DEBUG :: int where "DEBUG \<equiv> 1"

text \<open>Standard error, and the sleeps a program has asked for.\<close>

definition dbg_printf :: "string \<Rightarrow> string \<Rightarrow> string" where
  "dbg_printf text err = (if DEBUG \<noteq> 0 then err @ text else err)"

definition pause_nanos :: "int \<Rightarrow> int \<Rightarrow> (int \<times> int) list \<Rightarrow> (int \<times> int) list" where
  "pause_nanos nanos secs sleeps = sleeps @ [(nanos, secs)]"

section \<open>The program\<close>

record client_program =
  cp_client :: chat_client
  cp_tty :: tty
  cp_server_gone :: bool
  cp_stop :: "stop option"

text \<open>The program when its threads are started, or ended without them.\<close>

definition bl_client ::
  "string list \<Rightarrow> int \<Rightarrow> (string \<Rightarrow> bool) \<Rightarrow> tty \<Rightarrow> string \<Rightarrow> client_program res" where
  "bl_client args pid server_exists y input =
     map_res (\<lambda>st.
         let says = (\<lambda>s. (client_start simpio_zero [] input)\<lparr>k_io := \<lparr>io_in = input, io_out = s @ [LF]\<rparr>\<rparr>)
         in case st of
              Usage \<Rightarrow> \<lparr>cp_client = says ''inproper input: enter <server> <username>'', cp_tty = y,
                cp_server_gone = False, cp_stop = Some (Exit 0)\<rparr>
            | No_Server name \<Rightarrow>
                \<lparr>cp_client = says (''error: server '' @ [CHR 0x27] @ name @ [CHR 0x27] @ '' does not exist''), cp_tty = y,
                 cp_server_gone = False, cp_stop = Some (Exit 0)\<rparr>
            | Joining join sp \<Rightarrow>
                \<lparr>cp_client = client_start sp (cstr (j_name join)) input,
                 cp_tty = simpio_noncanonical_terminal_mode y, cp_server_gone = False, cp_stop = None\<rparr>)
       (client_main args pid server_exists)"

definition user_ended :: "chat_client \<Rightarrow> bool" where
  "user_ended k \<longleftrightarrow> k_user k = U_Done \<or> \<not> k_user_alive k"

text \<open>
  The steps: a thread, or an arriving message; a message written when the server has gone ends
  the program by \<open>SIGPIPE\<close>; a thread that does something undefined; the server goes; and \<open>main\<close>,
  which joins both threads and resets the terminal.
\<close>

inductive program_step :: "client_program \<Rightarrow> client_program \<Rightarrow> bool" where
  thread: "cp_stop p = None \<Longrightarrow> client_step (cp_client p) k \<Longrightarrow>
    (cp_server_gone p \<longrightarrow> k_sent k = k_sent (cp_client p)) \<Longrightarrow> program_step p (p\<lparr>cp_client := k\<rparr>)"
| breaks: "cp_stop p = None \<Longrightarrow> client_step (cp_client p) k \<Longrightarrow>
    cp_server_gone p \<Longrightarrow> k_sent k \<noteq> k_sent (cp_client p) \<Longrightarrow>
    program_step p (p\<lparr>cp_stop := Some (Killed SIGPIPE)\<rparr>)"
| user_fault: "cp_stop p = None \<Longrightarrow> \<not> user_ended (cp_client p) \<Longrightarrow> user_step (cp_client p) = Inl e \<Longrightarrow>
    program_step p (p\<lparr>cp_stop := Some e\<rparr>)"
| server_fault: "cp_stop p = None \<Longrightarrow> k_server_alive (cp_client p) \<Longrightarrow> server_step (cp_client p) = Inl e \<Longrightarrow>
    e \<noteq> Blocked \<Longrightarrow> program_step p (p\<lparr>cp_stop := Some e\<rparr>)"
| server_goes: "cp_stop p = None \<Longrightarrow> program_step p (p\<lparr>cp_server_gone := True\<rparr>)"
| joined: "cp_stop p = None \<Longrightarrow> user_ended (cp_client p) \<Longrightarrow> \<not> k_server_alive (cp_client p) \<Longrightarrow>
    program_step p (p\<lparr>cp_tty := simpio_reset_terminal_mode (cp_tty p), cp_stop := Some (Exit 0)\<rparr>)"

inductive program_reach :: "client_program \<Rightarrow> client_program \<Rightarrow> bool" for p0 where
  start: "program_reach p0 p0"
| step: "program_reach p0 p \<Longrightarrow> program_step p p1 \<Longrightarrow> program_reach p0 p1"

section \<open>Both threads end together\<close>

lemma user_step_ends: "user_step k = Inr k1 \<Longrightarrow> k_user k \<noteq> U_Done \<Longrightarrow>
    k_user_alive k1 = k_user_alive k \<and> k_server_alive k1 = (k_server_alive k \<and> k_user k1 \<noteq> U_Done)"
  by (auto simp: user_step_def Let_def send_def split: user_pc.splits if_splits)

lemma show_mesg_alive: "show_mesg m k = Inr k1 \<Longrightarrow>
    k_user_alive k1 = k_user_alive k \<and> k_server_alive k1 = k_server_alive k \<and> k_user k1 = k_user k"
  by (auto simp: show_mesg_def split: option.splits)

lemma server_step_ends:
  assumes "server_step k = Inr k1"
  shows "k_user k1 = k_user k \<and> (k_user_alive k1 = k_user_alive k \<and> k_server_alive k1 = k_server_alive k
    \<or> \<not> k_user_alive k1 \<and> \<not> k_server_alive k1)"
proof (cases "k_inbox k")
  case (Cons m ms)
  with assms obtain k2 where "show_mesg m (k\<lparr>k_inbox := ms\<rparr>) = Inr k2"
      "k1 = (if m_kind m = kind_code BL_SHUTDOWN
             then k2\<lparr>k_io := out [LF] (k_io k2), k_server_alive := False, k_user_alive := False\<rparr> else k2)"
    by (auto simp: server_step_def)
  with show_mesg_alive [OF this(1)] show ?thesis by simp
qed (use assms in \<open>simp add: server_step_def\<close>)

definition ends_agree :: "chat_client \<Rightarrow> bool" where
  "ends_agree k \<longleftrightarrow> (k_server_alive k \<longleftrightarrow> \<not> user_ended k)"

lemma client_step_agrees:
  assumes "client_step k k1" and "ends_agree k"
  shows "ends_agree k1"
  using assms(1)
proof (cases rule: client_step.cases)
  case user
  then show ?thesis using assms(2) user_step_ends [of k k1] by (auto simp: ends_agree_def user_ended_def)
next
  case server
  then show ?thesis using assms(2) server_step_ends [of k k1] by (auto simp: ends_agree_def user_ended_def)
next
  case (arrival m)
  then show ?thesis using assms(2) by (simp add: ends_agree_def user_ended_def)
qed

text \<open>The only way a thread fails, apart from waiting, is undefined behaviour.\<close>

definition only_undef :: "'a res \<Rightarrow> bool" where
  "only_undef r \<longleftrightarrow> (\<forall>e. r = Inl e \<longrightarrow> (\<exists>u. e = Undef u))"

lemma only_undef_intros:
  "only_undef (Inr x)" "only_undef (undef u)"
  "only_undef r \<Longrightarrow> (\<And>x. only_undef (f x)) \<Longrightarrow> only_undef (rbind r f)"
  "only_undef r \<Longrightarrow> only_undef (map_res g r)"
  "(b \<Longrightarrow> only_undef r) \<Longrightarrow> (\<not> b \<Longrightarrow> only_undef r1) \<Longrightarrow> only_undef (if b then r else r1)"
  by (auto simp: only_undef_def rbind_eq_Inl)

lemma only_undef_mem: "only_undef (mem_read n m)"
  by (induction n m rule: mem_read.induct) (simp_all add: only_undef_def)

lemma only_undef_snprintf: "only_undef (snprintf_at s n m)"
  unfolding snprintf_at_def case_prod_unfold Let_def by (intro only_undef_intros)

lemma only_undef_c_string: "only_undef (c_string b)"
  unfolding c_string_def by (intro only_undef_intros)

lemma iprintf_undef: "only_undef (iprintf s text io)"
  unfolding iprintf_def Let_def case_prod_unfold
  by (intro only_undef_intros only_undef_mem only_undef_snprintf only_undef_c_string)

lemma shown_undef: "only_undef (shown m)"
  unfolding shown_def name_text_def body_text_def by (intro only_undef_intros only_undef_c_string)

lemma show_mesg_undef: "only_undef (show_mesg m k)"
  unfolding show_mesg_def
  by (rule only_undef_intros(3) [OF shown_undef])
    (simp split: option.split add: only_undef_intros(1,4) iprintf_undef)

lemma server_step_fault:
  assumes "server_step k = Inl e" and "e \<noteq> Blocked"
  shows "\<exists>u. e = Undef u"
proof (cases "k_inbox k")
  case (Cons m ms)
  with assms(1) have "show_mesg m (k\<lparr>k_inbox := ms\<rparr>) = Inl e" by (simp add: server_step_def)
  with show_mesg_undef show ?thesis unfolding only_undef_def by blast
qed (use assms in \<open>simp add: server_step_def\<close>)

section \<open>Every reachable state\<close>

definition program_ok :: "tty \<Rightarrow> string \<Rightarrow> string list \<Rightarrow> client_program \<Rightarrow> bool" where
  "program_ok y u ls p \<longleftrightarrow>
     client_wf (cp_client p) \<and> ends_agree (cp_client p) \<and> all_mesgs (cp_client p) = session_mesgs u ls
     \<and> (case cp_stop p of
          None \<Rightarrow> cp_tty p = simpio_noncanonical_terminal_mode y
        | Some e \<Rightarrow>
            e = Exit 0 \<and> y_settings (cp_tty p) = y_settings y \<and> user_ended (cp_client p)
            \<or> (e = Killed SIGPIPE \<and> cp_server_gone p \<or> (\<exists>u. e = Undef u))
              \<and> cp_tty p = simpio_noncanonical_terminal_mode y)"

lemma program_step_ok:
  assumes "program_step p p1" and "program_ok y u ls p"
  shows "program_ok y u ls p1"
  using assms(1)
proof (cases rule: program_step.cases)
  case (thread k)
  with assms(2) client_step_mesgs [OF thread(3)] client_step_agrees [OF thread(3)] show ?thesis
    by (simp add: program_ok_def)
next
  case (user_fault e)
  have "client_wf (cp_client p)" "k_user (cp_client p) \<noteq> U_Done"
    using assms(2) user_fault(3) by (simp_all add: program_ok_def user_ended_def)
  from user_step_progress [OF this] user_fault(4) show ?thesis by auto
next
  case (server_fault e)
  with assms(2) server_step_fault [OF server_fault(4,5)] show ?thesis by (simp add: program_ok_def)
next
  case joined
  with assms(2) mode_reset [of y] show ?thesis by (simp add: program_ok_def)
qed (use assms(2) in \<open>simp_all add: program_ok_def\<close>)

lemma program_reach_ok: "program_reach p0 p \<Longrightarrow> program_ok y u ls p0 \<Longrightarrow> program_ok y u ls p"
  by (induction rule: program_reach.induct) (auto intro: program_step_ok)

lemma client_main_Joining:
  assumes "client_main args pid server_exists = Inr (Joining join sp)"
  shows "simpio_wf sp \<and> sp_end_of_input sp = 0"
proof -
  obtain srv name where "args = [srv, name]"
    using assms by (cases args rule: remdups_adj.cases) (auto simp: client_main_def split: list.splits)
  with assms start_editor [of "cstr (j_name join)"] show ?thesis
    by (auto simp: client_main_def split: if_splits)
qed

lemma bl_client_started:
  assumes "client_main args pid server_exists = Inr (Joining join sp)"
    and "bl_client args pid server_exists y input = Inr p0"
  shows "program_ok y (cstr (j_name join)) (session [] input) p0" and "cp_stop p0 = None"
    and "cp_client p0 = client_start sp (cstr (j_name join)) input" and "\<not> cp_server_gone p0"
proof -
  have p0: "p0 = \<lparr>cp_client = client_start sp (cstr (j_name join)) input,
      cp_tty = simpio_noncanonical_terminal_mode y, cp_server_gone = False, cp_stop = None\<rparr>"
    using assms by (simp add: bl_client_def Let_def)
  have "ends_agree (client_start sp (cstr (j_name join)) input)"
    by (simp add: ends_agree_def user_ended_def client_start_def)
  with client_main_Joining [OF assms(1)] client_start_mesgs [of sp]
  show "program_ok y (cstr (j_name join)) (session [] input) p0" by (simp add: program_ok_def p0)
  show "cp_stop p0 = None" "cp_client p0 = client_start sp (cstr (j_name join)) input" "\<not> cp_server_gone p0"
    by (simp_all add: p0)
qed

text \<open>While the server is there, the client's own steps are steps of the program.\<close>

lemma program_follows:
  assumes "client_reach k0 k" and "cp_client p = k0" and "cp_stop p = None" and "\<not> cp_server_gone p"
  shows "program_reach p (p\<lparr>cp_client := k\<rparr>)"
  using assms(1)
proof (induction rule: client_reach.induct)
  case start
  then show ?case using assms(2) by (auto intro: program_reach.start)
next
  case (step k k1)
  have "program_step (p\<lparr>cp_client := k\<rparr>) (p\<lparr>cp_client := k, cp_client := k1\<rparr>)"
    using assms(3,4) step.hyps(2) by (intro program_step.thread) auto
  then show ?case using program_reach.step [OF step.IH] by simp
qed

section \<open>Properties\<close>

text \<open>
  C12. From the arguments of the program to its end. While its threads run, the terminal is in
  the mode the editor needs; when the user thread has ended or a shutdown was shown, the server
  thread has ended too and \<open>main\<close> can return; and when it has returned, the terminal has the
  settings it had. At every moment a prefix of the messages of the session has been sent; when the
  program has returned and its user thread ended by itself, all of them. The other case of a return
  is a shutdown of the server, which cancels the user thread: what is typed and not sent is
  lost then. A program ended in another way, by \<open>SIGPIPE\<close> when the server has gone or by undefined
  behaviour, leaves the terminal without echo.
\<close>

theorem client_program_ends:
  assumes "client_main args pid server_exists = Inr (Joining join sp)"
    and "bl_client args pid server_exists y input = Inr p0" and "program_reach p0 p"
  defines "mesgs \<equiv> session_mesgs (cstr (j_name join)) (session [] input)"
  shows "prefix (k_sent (cp_client p)) mesgs
    \<and> (case cp_stop p of
         None \<Rightarrow> cp_tty p = simpio_noncanonical_terminal_mode y
           \<and> (user_ended (cp_client p) \<longrightarrow> (\<exists>p1. program_step p p1 \<and> cp_stop p1 = Some (Exit 0)))
       | Some e \<Rightarrow>
           if e = Exit 0
           then y_settings (cp_tty p) = y_settings y
             \<and> (k_user (cp_client p) = U_Done \<or> \<not> k_user_alive (cp_client p))
             \<and> (k_user (cp_client p) = U_Done \<longrightarrow> k_sent (cp_client p) = mesgs)
           else cp_tty p = simpio_noncanonical_terminal_mode y
             \<and> (e = Killed SIGPIPE \<and> cp_server_gone p \<or> (\<exists>v. e = Undef v)))"
proof -
  let ?k = "cp_client p"
  have ok: "program_ok y (cstr (j_name join)) (session [] input) p"
    by (rule program_reach_ok [OF assms(3) bl_client_started(1) [OF assms(1,2)]])
  have all: "all_mesgs ?k = mesgs" and agree: "ends_agree ?k"
    using ok by (simp_all add: program_ok_def mesgs_def)
  have sent: "prefix (k_sent ?k) mesgs" "k_user ?k = U_Done \<longrightarrow> k_sent ?k = mesgs"
    using all by (auto simp: all_mesgs_def)
  have join: "\<exists>p1. program_step p p1 \<and> cp_stop p1 = Some (Exit 0)" if "cp_stop p = None" "user_ended ?k"
  proof -
    have "\<not> k_server_alive ?k" using agree that(2) by (simp add: ends_agree_def)
    from program_step.joined [OF that this]
    have "program_step p (p\<lparr>cp_tty := simpio_reset_terminal_mode (cp_tty p), cp_stop := Some (Exit 0)\<rparr>)" .
    then show ?thesis by fastforce
  qed
  show ?thesis
  proof (cases "cp_stop p")
    case None
    then show ?thesis using ok sent(1) join by (simp add: program_ok_def)
  next
    case (Some e)
    then show ?thesis using ok sent by (auto simp: program_ok_def user_ended_def)
  qed
qed

theorem client_program_ends_witness:
  "\<exists>p0 p. bl_client [''room'', ''zoe''] 42 (\<lambda>_. True) sample_tty ''hi\<newline>'' = Inr p0 \<and> program_reach p0 p
    \<and> cp_stop p = Some (Exit 0) \<and> y_settings (cp_tty p) = y_settings sample_tty
    \<and> k_sent (cp_client p) = [user_mesg ''zoe'' ''hi'', departed_mesg ''zoe'']"
proof -
  have "NUL \<notin> set ''room''" "length ''room'' < MAXPATH" "NUL \<notin> set ''zoe''" "length ''zoe'' < MAXPATH"
      "(0 :: int) \<le> 42" "(42 :: int) \<le> INT_MAX" by simp_all
  note texts = this
  obtain sp where sp: "simpio_reset (simpio_set_prompt simpio_zero (client_prompt ''zoe'')) = Inr sp"
    using start_editor by blast
  have name: "cstr (j_name (join_request ''zoe'' 42)) = ''zoe''" by (rule join_request_texts(1) [OF texts(3-6)])
  have main: "client_main [''room'', ''zoe''] 42 (\<lambda>_. True) = Inr (Joining (join_request ''zoe'' 42) sp)"
    using make_join_request [OF texts(1,2,4,5,6)] sp by (simp add: client_main_def name)
  obtain p0 where p0: "bl_client [''room'', ''zoe''] 42 (\<lambda>_. True) sample_tty ''hi\<newline>'' = Inr p0"
    using main by (simp add: bl_client_def)
  note started = bl_client_started [OF main p0]
  have "client_wf (cp_client p0)" "k_user_alive (cp_client p0)"
    using started(1,3) by (simp_all add: program_ok_def client_start_def)
  from session_can_end [OF client_reach.start this] obtain k where
    k: "client_reach (cp_client p0) k" "k_user k = U_Done" by blast
  note reach = program_follows [OF k(1) refl started(2,4)]
  have "cp_stop (p0\<lparr>cp_client := k\<rparr>) = None" "user_ended (cp_client (p0\<lparr>cp_client := k\<rparr>))"
    using started(2) k(2) by (simp_all add: user_ended_def)
  then obtain p where p: "program_step (p0\<lparr>cp_client := k\<rparr>) p" "cp_stop p = Some (Exit 0)"
    using client_program_ends [OF main p0 reach] by auto
  then have same: "cp_client p = k" by (auto elim: program_step.cases)
  note reach = program_reach.step [OF reach p(1)]
  have lines: "session [] ''hi\<newline>'' = [''hi'']" by (simp add: key_enters_def key_text_def)
  from client_program_ends [OF main p0 reach] p(2) same k(2)
  have "y_settings (cp_tty p) = y_settings sample_tty" "k_sent k = session_mesgs ''zoe'' [''hi'']"
    unfolding name lines by auto
  with p0 reach p(2) same show ?thesis by (auto simp: session_mesgs_def)
qed

end
