(* ===== verification/Chat_Service.thy ===== *)
theory Chat_Service
  imports Chat_Order Chat_Program
begin

text \<open>
  The chat service as a whole: one server (\<open>bl-server.c\<close>) and any number of clients (\<open>bl-client.c\<close>)
  that start at any time, joined by their FIFOs and nothing else. What their users see of each other.
\<close>

section \<open>The processes\<close>

text \<open>
  A client: its process number, its name, what its user types, whether the two FIFOs it opens have been
  opened by the server, the program, and the messages its server thread has dealt with.
\<close>

record chat_user =
  cu_pid :: int
  cu_name :: string
  cu_input :: string
  cu_open :: bool
  cu_prog :: client_program
  cu_read :: "mesg_t list"

record chat_service =
  cs_server :: server_t
  cs_sys :: sys
  cs_users :: "chat_user list"

definition user_request :: "chat_user \<Rightarrow> join_t" where
  "user_request x = join_request (cu_name x) (cu_pid x)"

definition new_user :: "int \<Rightarrow> string \<Rightarrow> string \<Rightarrow> client_program \<Rightarrow> chat_user" where
  "new_user pid u input p =
     \<lparr>cu_pid = pid, cu_name = u, cu_input = input, cu_open = False, cu_prog = p, cu_read = []\<rparr>"

definition write_fifo :: "string \<Rightarrow> mesg_t list \<Rightarrow> sys \<Rightarrow> sys" where
  "write_fifo p ms w = w\<lparr>v_fifo := (v_fifo w)(p := v_fifo w p @ ms)\<rparr>"

text \<open>
  A client makes its FIFOs, writes its request, and waits in \<open>open\<close> until the server has entered it,
  which is when the server opens them. Then its program runs, its messages going into one FIFO and those
  of the other arriving in order; it may stop at any moment, for \<open>program_step\<close> lets the server go.
  Process numbers are not used again. At the end of its FIFO, \<open>read\<close> gives the client zeros, for which
  it does nothing (\<open>end_of_file_shows_nothing\<close>); these rounds are left out.
\<close>

inductive service_step :: "chat_service \<Rightarrow> chat_service \<Rightarrow> bool" where
  serves: "server_turn (cs_server z) (cs_sys z) = Inr (s, w) \<Longrightarrow> service_step z (z\<lparr>cs_server := s, cs_sys := w\<rparr>)"
| starts: "pid \<notin> cu_pid ` set (cs_users z) \<Longrightarrow> 0 \<le> pid \<Longrightarrow> pid \<le> INT_MAX \<Longrightarrow>
    NUL \<notin> set srv \<Longrightarrow> length srv < MAXPATH \<Longrightarrow> NUL \<notin> set u \<Longrightarrow> length u < MAXPATH \<Longrightarrow> NUL \<notin> set input \<Longrightarrow>
    client_main [srv, u] pid (\<lambda>_. True) = Inr (Joining join sp) \<Longrightarrow>
    bl_client [srv, u] pid (\<lambda>_. True) y input = Inr p \<Longrightarrow>
    service_step z (z\<lparr>cs_users := cs_users z @ [new_user pid u input p],
      cs_sys := (cs_sys z)\<lparr>v_files := {to_user_fifo pid, to_server_fifo pid} \<union> v_files (cs_sys z),
        v_joins := v_joins (cs_sys z) @ [join], v_join_peer := Present\<rparr>\<rparr>)"
| opens: "i < length (cs_users z) \<Longrightarrow> x = cs_users z ! i \<Longrightarrow>
    to_user_fifo (cu_pid x) \<in> tc_path ` set (clients (cs_server z)) \<Longrightarrow>
    service_step z (z\<lparr>cs_users := (cs_users z)[i := x\<lparr>cu_open := True\<rparr>]\<rparr>)"
| runs: "i < length (cs_users z) \<Longrightarrow> x = cs_users z ! i \<Longrightarrow> cu_open x \<Longrightarrow> program_step (cu_prog x) p \<Longrightarrow>
    k_inbox (cp_client (cu_prog x)) = ds @ k_inbox (cp_client p) \<Longrightarrow>
    k_sent (cp_client p) = k_sent (cp_client (cu_prog x)) @ ms \<Longrightarrow>
    service_step z (z\<lparr>cs_users := (cs_users z)[i := x\<lparr>cu_prog := p, cu_read := cu_read x @ ds\<rparr>],
      cs_sys := write_fifo (to_server_fifo (cu_pid x)) ms (cs_sys z)\<rparr>)"
| arrives: "i < length (cs_users z) \<Longrightarrow> x = cs_users z ! i \<Longrightarrow> cu_open x \<Longrightarrow> p = cu_prog x \<Longrightarrow> cp_stop p = None \<Longrightarrow>
    via (to_user_fifo (cu_pid x)) (v_sent (cs_sys z)) = cu_read x @ k_inbox (cp_client p) @ m # rest \<Longrightarrow>
    service_step z (z\<lparr>cs_users := (cs_users z)[i := x\<lparr>cu_prog := p\<lparr>cp_client :=
      (cp_client p)\<lparr>k_inbox := k_inbox (cp_client p) @ [m]\<rparr>\<rparr>\<rparr>]\<rparr>)"
| system: "env_step (cs_sys z) w \<Longrightarrow> v_fifo w = v_fifo (cs_sys z) \<Longrightarrow> v_joins w = v_joins (cs_sys z) \<Longrightarrow>
    service_step z (z\<lparr>cs_sys := w\<rparr>)"

inductive service_reach :: "chat_service \<Rightarrow> chat_service \<Rightarrow> bool" for z0 where
  start: "service_reach z0 z0"
| step: "service_reach z0 z \<Longrightarrow> service_step z z1 \<Longrightarrow> service_reach z0 z1"

definition service_start :: "server_t \<Rightarrow> sys \<Rightarrow> chat_service" where
  "service_start s w = \<lparr>cs_server = s, cs_sys = w, cs_users = []\<rparr>"

lemma end_of_file_shows_nothing:
  "k_inbox k = mesg_zero # ms \<Longrightarrow> server_step k = Inr (k\<lparr>k_inbox := ms\<rparr>)"
  by (simp add: server_step_def show_mesg_def shown_def mesg_zero_def)

section \<open>The service is a run of the server\<close>

lemma write_fifo_run:
  "chat_run s0 w0 js ws s w \<Longrightarrow> \<forall>m \<in> set ms. mesg_ok m \<Longrightarrow>
   chat_run s0 w0 js (ws @ map (Pair p) ms) s (write_fifo p ms w)"
proof (induction ms rule: rev_induct)
  case Nil
  then show ?case by (simp add: write_fifo_def)
next
  case (snoc m ms)
  then have "chat_run s0 w0 js (ws @ map (Pair p) ms) s (write_fifo p ms w)" "mesg_ok m" by simp_all
  from chat_run.written [OF this, of p] show ?case by (simp add: write_fifo_def)
qed

lemma via_pairs [simp]: "via q (map (Pair p) ms) = (if p = q then ms else [])"
  by (cases "p = q"; induction ms) simp_all

text \<open>What holds of a client, given what has been written to the server and by it.\<close>

definition session_of :: "chat_user \<Rightarrow> mesg_t list" where
  "session_of x = session_mesgs (cu_name x) (session [] (cu_input x))"

definition user_inv :: "(string \<times> mesg_t) list \<Rightarrow> sys \<Rightarrow> chat_user \<Rightarrow> bool" where
  "user_inv ws w x \<longleftrightarrow> 0 \<le> cu_pid x \<and> cu_pid x \<le> INT_MAX \<and> NUL \<notin> set (cu_name x) \<and> length (cu_name x) < MAXPATH
     \<and> NUL \<notin> set (cu_input x) \<and> (\<exists>y. program_ok y (cu_name x) (session [] (cu_input x)) (cu_prog x))
     \<and> via (to_server_fifo (cu_pid x)) ws = k_sent (cp_client (cu_prog x))
     \<and> prefix (cu_read x @ k_inbox (cp_client (cu_prog x))) (via (to_user_fifo (cu_pid x)) (v_sent w))"

definition service_inv :: "server_t \<Rightarrow> sys \<Rightarrow> chat_service \<Rightarrow> bool" where
  "service_inv s0 w0 z \<longleftrightarrow> distinct (map cu_pid (cs_users z))
     \<and> (\<exists>ws. chat_run s0 w0 (map user_request (cs_users z)) ws (cs_server z) (cs_sys z)
         \<and> fst ` set ws \<subseteq> to_server_fifo ` cu_pid ` set (cs_users z)
         \<and> (\<forall>x \<in> set (cs_users z). user_inv ws (cs_sys z) x))"

lemma service_invI:
  "distinct (map cu_pid us) \<Longrightarrow> chat_run s0 w0 (map user_request us) ws s w \<Longrightarrow>
   fst ` set ws \<subseteq> to_server_fifo ` cu_pid ` set us \<Longrightarrow> \<forall>x \<in> set us. user_inv ws w x \<Longrightarrow>
   service_inv s0 w0 \<lparr>cs_server = s, cs_sys = w, cs_users = us\<rparr>"
  unfolding service_inv_def chat_service.select_convs by blast

lemma service_updates:
  "z\<lparr>cs_users := us\<rparr> = \<lparr>cs_server = cs_server z, cs_sys = cs_sys z, cs_users = us\<rparr>"
  "z\<lparr>cs_sys := w\<rparr> = \<lparr>cs_server = cs_server z, cs_sys = w, cs_users = cs_users z\<rparr>"
  "z\<lparr>cs_server := s\<rparr> = \<lparr>cs_server = s, cs_sys = cs_sys z, cs_users = cs_users z\<rparr>"
  by (cases z; simp)+

lemma sent_of_session: "program_ok y u ls p \<Longrightarrow> prefix (k_sent (cp_client p)) (session_mesgs u ls)"
  unfolding program_ok_def all_mesgs_def prefix_def by metis

lemma session_of_ok:
  assumes "NUL \<notin> set (cu_input x)" and "m \<in> set (session_of x)"
  shows "mesg_ok m"
  using assms session_lines [of "[]" "cu_input x"] user_mesg_ok departed_ok
  by (auto simp: session_of_def session_mesgs_def)

lemma user_inv_sent: "user_inv ws w x \<Longrightarrow> prefix (via (to_server_fifo (cu_pid x)) ws) (session_of x)"
  using sent_of_session by (auto simp: user_inv_def session_of_def)

lemma user_inv_sent_ok: "user_inv ws w x \<Longrightarrow> m \<in> set (k_sent (cp_client (cu_prog x))) \<Longrightarrow> mesg_ok m"
  using user_inv_sent [of ws w x] session_of_ok [of x m] by (auto simp: user_inv_def dest: set_mono_prefix)

lemma user_inv_later:
  "user_inv ws w x \<Longrightarrow> v_sent w1 = v_sent w @ ds \<Longrightarrow> via (to_server_fifo (cu_pid x)) vs = [] \<Longrightarrow>
   user_inv (ws @ vs) w1 x"
  by (auto simp: user_inv_def prefix_def)

text \<open>One client changes, and perhaps writes.\<close>

lemma service_inv_user:
  assumes "chat_run s0 w0 (map user_request us) ws s w" and "fst ` set ws \<subseteq> to_server_fifo ` cu_pid ` set us"
    and "\<forall>x \<in> set us. user_inv ws w x" and "distinct (map cu_pid us)" and "i < length us"
    and "cu_pid x = cu_pid (us ! i)" and "cu_name x = cu_name (us ! i)" and "\<forall>m \<in> set ms. mesg_ok m"
    and "user_inv (ws @ map (Pair (to_server_fifo (cu_pid x))) ms) w x"
  shows "service_inv s0 w0 \<lparr>cs_server = s, cs_sys = write_fifo (to_server_fifo (cu_pid x)) ms w, cs_users = us[i := x]\<rparr>"
proof -
  let ?p = "to_server_fifo (cu_pid x)" and ?us = "us[i := x]"
  let ?ws = "ws @ map (Pair ?p) ms" and ?w = "write_fifo ?p ms w"
  have same: "map cu_pid ?us = map cu_pid us" "map user_request ?us = map user_request us"
    using assms(5-7) by (simp_all add: map_update list_update_same_conv user_request_def)
  then have pids: "cu_pid ` set ?us = cu_pid ` set us" by (metis list.set_map)
  have sent: "v_sent ?w = v_sent w @ []" by (simp add: write_fifo_def)
  have "user_inv ?ws ?w (?us ! j)" if j: "j < length us" for j
  proof (cases "j = i")
    case True
    then show ?thesis using user_inv_later [OF assms(9) sent, of "[]"] j by simp
  next
    case False
    then have "cu_pid (us ! j) \<noteq> cu_pid x" using assms(4-6) j by (simp add: distinct_conv_nth)
    then show ?thesis using user_inv_later [OF _ sent] assms(3) j False by (simp add: fifos_apart)
  qed
  then have users: "\<forall>y \<in> set ?us. user_inv ?ws ?w y" by (metis in_set_conv_nth length_list_update)
  have paths: "fst ` set ?ws \<subseteq> to_server_fifo ` cu_pid ` set ?us"
    using assms(2,6) nth_mem [OF assms(5)] unfolding pids by (auto simp: image_iff)
  have run: "chat_run s0 w0 (map user_request ?us) ?ws s ?w" using write_fifo_run [OF assms(1,8)] by (simp add: same)
  have "distinct (map cu_pid ?us)" using assms(4) by (simp only: same)
  from service_invI [OF this run paths users] show ?thesis .
qed

lemma write_nothing [simp]: "write_fifo p [] w = w"
  by (simp add: write_fifo_def)

text \<open>The start of a client.\<close>

lemma client_starts:
  assumes "0 \<le> pid" and "pid \<le> INT_MAX" and "NUL \<notin> set srv" and "length srv < MAXPATH" and "NUL \<notin> set u"
    and "length u < MAXPATH" and "client_main [srv, u] pid (\<lambda>_. True) = Inr (Joining join sp)"
    and "bl_client [srv, u] pid (\<lambda>_. True) y input = Inr p"
  shows "join = join_request u pid" and "program_ok y u (session [] input) p"
    and "k_sent (cp_client p) = []" and "k_inbox (cp_client p) = []"
proof -
  show join: "join = join_request u pid"
    using assms(7) make_join_request [OF assms(3,4,6,1,2)] by (auto simp: client_main_def)
  have "cstr (j_name join) = u" using join_request_texts [OF assms(5,6,1,2)] join by simp
  with bl_client_started [OF assms(7,8)]
  show "program_ok y u (session [] input) p" "k_sent (cp_client p) = []" "k_inbox (cp_client p) = []"
    by (simp_all add: client_start_def)
qed

lemma service_inv_starts:
  assumes "service_inv s0 w0 z"
    and "pid \<notin> cu_pid ` set (cs_users z)" and "0 \<le> pid" and "pid \<le> INT_MAX" and "NUL \<notin> set u" and "length u < MAXPATH"
    and "NUL \<notin> set input" and "program_ok y u (session [] input) p" and "k_sent (cp_client p) = []" and "k_inbox (cp_client p) = []"
  shows "service_inv s0 w0 (z\<lparr>cs_users := cs_users z @ [new_user pid u input p],
    cs_sys := (cs_sys z)\<lparr>v_files := {to_user_fifo pid, to_server_fifo pid} \<union> v_files (cs_sys z),
      v_joins := v_joins (cs_sys z) @ [join_request u pid], v_join_peer := Present\<rparr>\<rparr>)"
proof -
  let ?x = "new_user pid u input p" and ?w = "cs_sys z" and ?js = "map user_request (cs_users z)"
  let ?v = "?w\<lparr>v_files := insert (to_user_fifo pid) (insert (to_server_fifo pid) (v_files ?w))\<rparr>"
  from assms(1) obtain ws where ws: "chat_run s0 w0 ?js ws (cs_server z) ?w"
      "fst ` set ws \<subseteq> to_server_fifo ` cu_pid ` set (cs_users z)" "\<forall>x \<in> set (cs_users z). user_inv ws ?w x"
    unfolding service_inv_def by blast
  from chat_run.other [OF ws(1) env_step.new_fifo, of "to_server_fifo pid"]
  have "chat_run s0 w0 ?js ws (cs_server z) (?w\<lparr>v_files := insert (to_server_fifo pid) (v_files ?w)\<rparr>)" by simp
  from chat_run.other [OF this env_step.new_fifo, of "to_user_fifo pid"]
  have "chat_run s0 w0 ?js ws (cs_server z) ?v" by simp
  from chat_run.asks [OF this join_request_ok [OF assms(6,3,4)]]
  have run: "chat_run s0 w0 (map user_request (cs_users z @ [?x])) ws (cs_server z)
      (?v\<lparr>v_joins := v_joins ?w @ [join_request u pid], v_join_peer := Present\<rparr>)" (is "chat_run _ _ _ _ _ ?w1")
    by (simp add: user_request_def new_user_def)
  have "to_server_fifo pid \<notin> fst ` set ws" using ws(2) assms(2) by (auto simp: fifos_apart)
  then have "via (to_server_fifo pid) ws = []" by (rule via_none)
  with assms(3-10) have "user_inv ws ?w1 ?x" by (auto simp: user_inv_def new_user_def)
  moreover have "\<forall>x \<in> set (cs_users z). user_inv ws ?w1 x"
    using ws(3) user_inv_later [of ws ?w _ ?w1 "[]" "[]"] by simp
  ultimately have users: "\<forall>x \<in> set (cs_users z @ [?x]). user_inv ws ?w1 x" by simp
  have apart: "distinct (map cu_pid (cs_users z @ [?x]))"
    using assms(1,2) by (auto simp: service_inv_def new_user_def)
  have "fst ` set ws \<subseteq> to_server_fifo ` cu_pid ` set (cs_users z @ [?x])" using ws(2) by auto
  from service_invI [OF apart run this users] show ?thesis by (simp add: service_updates)
qed

section \<open>Every step\<close>

lemma service_step_inv:
  assumes "service_step z z1" and "service_inv s0 w0 z" and "linked s0 w0" and "clients s0 = []"
  shows "service_inv s0 w0 z1"
proof -
  from assms(2) obtain ws where apart: "distinct (map cu_pid (cs_users z))"
    and run: "chat_run s0 w0 (map user_request (cs_users z)) ws (cs_server z) (cs_sys z)"
    and paths: "fst ` set ws \<subseteq> to_server_fifo ` cu_pid ` set (cs_users z)"
    and users: "\<forall>x \<in> set (cs_users z). user_inv ws (cs_sys z) x"
    unfolding service_inv_def by blast
  note one = service_inv_user [OF run paths users apart]
  from assms(1) show ?thesis
  proof (cases rule: service_step.cases)
    case (serves s w)
    from run_explained [OF run assms(3,4)] have "linked (cs_server z) (cs_sys z)" by blast
    from turn_acts [OF this serves(2)] obtain ds where "v_sent w = v_sent (cs_sys z) @ ds" unfolding acts_def by blast
    with users have "\<forall>x \<in> set (cs_users z). user_inv ws w x" using user_inv_later [of ws "cs_sys z" _ w ds "[]"] by simp
    from service_invI [OF apart chat_run.turn [OF run serves(2)] paths this] show ?thesis by (simp add: serves(1) service_updates)
  next
    case (starts pid srv u input join sp y p)
    note st = client_starts [OF starts(3-8,10,11)]
    show ?thesis unfolding starts(1) st(1)
      by (rule service_inv_starts [OF assms(2) starts(2-4,7,8,9) st(2-4)])
  next
    case (opens i x)
    have "user_inv ws (cs_sys z) (x\<lparr>cu_open := True\<rparr>)" using users opens(2,3) by (simp add: user_inv_def)
    then show ?thesis using one [of i "x\<lparr>cu_open := True\<rparr>" "[]"] opens by (simp add: service_updates)
  next
    case (runs i x p ds ms)
    let ?x = "x\<lparr>cu_prog := p, cu_read := cu_read x @ ds\<rparr>"
    have x: "user_inv ws (cs_sys z) x" using users runs(2,3) by simp
    then obtain y where "program_ok y (cu_name x) (session [] (cu_input x)) (cu_prog x)" unfolding user_inv_def by blast
    from program_step_ok [OF runs(5) this] have ok: "program_ok y (cu_name x) (session [] (cu_input x)) p" .
    then have x1: "user_inv (ws @ map (Pair (to_server_fifo (cu_pid ?x))) ms) (cs_sys z) ?x"
      using x runs(6,7) by (auto simp: user_inv_def)
    have "\<forall>m \<in> set ms. mesg_ok m" using user_inv_sent_ok [OF x1] runs(7) by simp
    from one [OF runs(2) _ _ this x1] runs(1,3) show ?thesis by (simp add: service_updates)
  next
    case (arrives i x p m rest)
    let ?p = "p\<lparr>cp_client := (cp_client p)\<lparr>k_inbox := k_inbox (cp_client p) @ [m]\<rparr>\<rparr>"
    have x: "user_inv ws (cs_sys z) x" using users arrives(2,3) by simp
    then obtain y where ok: "program_ok y (cu_name x) (session [] (cu_input x)) p" unfolding user_inv_def arrives(5) by blast
    have "program_step p ?p" by (rule program_step.thread [OF arrives(6) client_step.arrival]) simp
    from program_step_ok [OF this ok] have "user_inv ws (cs_sys z) (x\<lparr>cu_prog := ?p\<rparr>)"
      using x arrives(5,7) by (auto simp: user_inv_def)
    then show ?thesis using one [of i "x\<lparr>cu_prog := ?p\<rparr>" "[]"] arrives(1-3) by (simp add: service_updates)
  next
    case (system w)
    have "v_sent w = v_sent (cs_sys z)" using env_step_fds [OF system(2)] by blast
    with users have "\<forall>x \<in> set (cs_users z). user_inv ws w x" by (simp add: user_inv_def)
    from service_invI [OF apart chat_run.other [OF run system(2-4)] paths this] show ?thesis by (simp add: system(1) service_updates)
  qed
qed

lemma service_reach_inv:
  assumes "service_reach (service_start s0 w0) z" and "linked s0 w0" and "clients s0 = []"
  shows "service_inv s0 w0 z"
  using assms(1)
proof (induction rule: service_reach.induct)
  case start
  show ?case unfolding service_start_def by (rule service_invI [of _ _ _ "[]"]) (auto intro: chat_run.start)
next
  case (step z z1)
  with service_step_inv [OF step.hyps(2) step.IH assms(2,3)] show ?case by blast
qed

section \<open>The whole history\<close>

lemma service_history:
  assumes "service_inv s0 w0 z" and "linked s0 w0" and "clients s0 = []"
    and "v_sent w0 = []" and "v_joins w0 = []" and "v_fifo w0 = (\<lambda>_. [])"
  obtains es where "members (cs_server z) = members_after es []" and "v_sent (cs_sys z) = given es []"
    and "subseq (admitted es) (map (asked \<circ> user_request) (cs_users z))"
    and "set (named es) \<subseteq> insert [] (cu_name ` set (cs_users z))"
    and "\<forall>x \<in> set (cs_users z). prefix (via (to_server_fifo (cu_pid x)) (taken es [])) (session_of x)"
    and "\<forall>(p, m) \<in> set (taken es []). \<exists>x \<in> set (cs_users z). p = to_server_fifo (cu_pid x) \<and> m \<in> set (session_of x)"
proof -
  from assms(1) obtain ws where
      run: "chat_run s0 w0 (map user_request (cs_users z)) ws (cs_server z) (cs_sys z)"
    and paths: "fst ` set ws \<subseteq> to_server_fifo ` cu_pid ` set (cs_users z)"
    and users: "\<forall>x \<in> set (cs_users z). user_inv ws (cs_sys z) x"
    unfolding service_inv_def by blast
  from run_explained [OF run assms(2,3)] obtain es ks where es: "members (cs_server z) = members_after es []"
      "v_sent (cs_sys z) = given es []" "\<forall>p. via p ws = via p (taken es []) @ v_fifo (cs_sys z) p"
    and ks: "map user_request (cs_users z) = ks @ v_joins (cs_sys z)" "subseq (admitted es) (map asked ks)"
      "set (named es) \<subseteq> insert [] ((snd \<circ> asked) ` set ks)"
    unfolding explains_def answers_def by (auto simp: assms(4-6))
  have "map asked (map user_request (cs_users z)) = map asked ks @ map asked (v_joins (cs_sys z))" by (simp only: ks(1) map_append)
  then have entered: "subseq (admitted es) (map (asked \<circ> user_request) (cs_users z))"
    using list_emb_append_mono [OF ks(2) list_emb_Nil, of "map asked (v_joins (cs_sys z))"] by simp
  have "snd (asked (user_request x)) = cu_name x" if "x \<in> set (cs_users z)" for x
    using users that by (auto simp: asked_def user_request_def user_inv_def join_request_texts)
  moreover have "set ks \<subseteq> user_request ` set (cs_users z)" using ks(1) by (metis Un_upper1 list.set_map set_append)
  ultimately have names: "set (named es) \<subseteq> insert [] (cu_name ` set (cs_users z))" using ks(3) by fastforce
  have read: "prefix (via (to_server_fifo (cu_pid x)) (taken es [])) (session_of x)" if "x \<in> set (cs_users z)" for x
    using user_inv_sent [of ws "cs_sys z" x] users that es(3) by (metis append_prefixD)
  have "\<exists>x \<in> set (cs_users z). p = to_server_fifo (cu_pid x) \<and> m \<in> set (session_of x)" if "(p, m) \<in> set (taken es [])" for p m
  proof -
    have "m \<in> set (via p (taken es []))" using that by (force simp: via_def)
    moreover from this have "via p ws \<noteq> []" using es(3) by auto
    then have "p \<in> fst ` set ws" using via_none by blast
    then obtain x where "x \<in> set (cs_users z)" "p = to_server_fifo (cu_pid x)" using paths by auto
    ultimately show ?thesis using read set_mono_prefix by blast
  qed
  with es(1,2) entered names read show thesis by (intro that [of es]) auto
qed

lemma users_apart:
  assumes "service_inv s0 w0 z" and "subseq (admitted es) (map (asked \<circ> user_request) (cs_users z))"
  shows "distinct (map snd (entrants es))"
proof -
  let ?us = "cs_users z"
  have "cstr (j_to_client (user_request x)) = to_user_fifo (cu_pid x)" if "x \<in> set ?us" for x
    using assms(1) that by (auto simp: service_inv_def user_inv_def user_request_def join_request_texts)
  then have "map (\<lambda>j. cstr (j_to_client j)) (map user_request ?us) = map to_user_fifo (map cu_pid ?us)" by simp
  moreover have "distinct (map to_user_fifo (map cu_pid ?us))"
    using assms(1) by (simp add: service_inv_def distinct_map inj_on_def fifos_apart)
  ultimately have "distinct (map (\<lambda>j. cstr (j_to_client j)) (map user_request ?us @ []))" by (simp only: append_Nil2)
  moreover have "subseq (admitted es) (map asked (map user_request ?us))" using assms(2) by simp
  ultimately show ?thesis by (rule subseq_apart [rotated])
qed

section \<open>A client that comes in\<close>

lemma shows_announcement:
  assumes "simpio_wf (k_simpio k)" and "k_inbox k = joined_mesg ''zoe'' # ms"
  shows "\<exists>k1. server_step k = Inr k1 \<and> k_inbox k1 = ms \<and> k_sent k1 = k_sent k"
proof -
  let ?t = "''-- zoe JOINED --\<newline>''"
  have "strncpy_bytes MAXPATH ''zoe'' = ''zoe'' @ replicate (MAXPATH - 3) NUL" by (simp add: strncpy_bytes_def)
  then have "name_text (joined_mesg ''zoe'') = Inr ''zoe''"
    by (simp add: name_text_def joined_mesg_def put_name_def mesg_zero_def c_string_def cstr_def Let_def)
  moreover have kind: "m_kind (joined_mesg ''zoe'') = kind_code BL_JOINED" by (simp add: joined_mesg_def put_name_def Let_def)
  ultimately have shown: "shown (joined_mesg ''zoe'') = Inr (Some ?t)" by (simp add: shown_def)
  let ?s = "k_simpio k"
  have buf: "NUL \<in> set (sp_buf ?s)" "length (sp_buf ?s) = MAXLINE"
    using simpio_wf_pos [OF assms(1)] by (metis nth_mem)+
  then have "length (cstr (sp_buf ?s)) < MAXLINE" using cstr_length_nul [of "sp_buf ?s"] by simp
  then have "iprintf ?s ?t io = Inr (out (erase_line @ ?t @ cstr (sp_prompt ?s) @ cstr (sp_buf ?s)) io)" for io
    using simpio_wf_prompt [OF assms(1)] buf by (intro iprintf_ok) (auto simp: prompt_ok_def c_string_def)
  then show ?thesis by (simp add: server_step_def assms(2) show_mesg_def shown kind)
qed

text \<open>A client starts, enters, and is shown its own announcement.\<close>

lemma service_demo:
  obtains s0 w0 z x where "bl_server [''room''] True 0 demo_sys = Inr (Some (s0, w0))"
    and "v_sent w0 = []" and "v_joins w0 = []" and "v_fifo w0 = (\<lambda>_. [])"
    and "service_reach (service_start s0 w0) z" and "cs_users z = [x]" and "cu_name x = ''zoe''"
    and "cu_pid x = 42" and "cu_read x = [joined_mesg ''zoe'']" and "map tc_path (clients (cs_server z)) = [to_user_fifo 42]"
proof -
  obtain s0 w0 where start: "bl_server [''room''] True 0 demo_sys = Inr (Some (s0, w0))" "s_join_fd s0 = 8"
      "linked s0 w0" "clients s0 = []" "v_files w0 = {''room'', ''tb'', ''sb'', ''te'', ''se''}"
    and w0: "v_peer w0 = (\<lambda>_. Present)" "v_next_fd w0 = 9" "v_fds w0 8 = Some ''room''" "v_joins w0 = []"
      "v_sent w0 = []" "v_fifo w0 = (\<lambda>_. [])" "\<forall>fd. v_fds w0 fd \<noteq> None \<longrightarrow> fd < 9"
    by (rule demo_start)
  have names: "(0 :: int) \<le> 42" "(42 :: int) \<le> INT_MAX" "NUL \<notin> set ''room''" "length ''room'' < MAXPATH"
      "NUL \<notin> set ''zoe''" "length ''zoe'' < MAXPATH" by simp_all
  note j = join_request_texts [OF names(5,6,1,2)]
  obtain sp where sp: "simpio_reset (simpio_set_prompt simpio_zero (client_prompt ''zoe'')) = Inr sp" "simpio_wf sp"
    using start_editor by blast
  have main: "client_main [''room'', ''zoe''] 42 (\<lambda>_. True) = Inr (Joining (join_request ''zoe'' 42) sp)"
    using make_join_request [OF names(3,4,6,1,2)] sp by (simp add: client_main_def j)
  obtain p where p: "bl_client [''room'', ''zoe''] 42 (\<lambda>_. True) sample_tty ''hi\<newline>'' = Inr p"
    using main by (simp add: bl_client_def)
  note begun = bl_client_started [OF main p, unfolded j]
  let ?x = "new_user 42 ''zoe'' ''hi\<newline>'' p"
  let ?w = "w0\<lparr>v_files := {to_user_fifo 42, to_server_fifo 42} \<union> v_files w0, v_joins := v_joins w0 @ [join_request ''zoe'' 42], v_join_peer := Present\<rparr>"
  have "service_step (service_start s0 w0) ((service_start s0 w0)\<lparr>cs_users := cs_users (service_start s0 w0) @ [?x],
      cs_sys := (cs_sys (service_start s0 w0))\<lparr>v_files := {to_user_fifo 42, to_server_fifo 42} \<union> v_files (cs_sys (service_start s0 w0)),
        v_joins := v_joins (cs_sys (service_start s0 w0)) @ [join_request ''zoe'' 42], v_join_peer := Present\<rparr>\<rparr>)"
    by (rule service_step.starts [OF _ names _ main p]) (simp_all add: service_start_def)
  from service_reach.step [OF service_reach.start this]
  have 1: "service_reach (service_start s0 w0) \<lparr>cs_server = s0, cs_sys = ?w, cs_users = [?x]\<rparr>" (is "service_reach ?z0 ?z1")
    by (simp add: service_start_def)
  have "linked s0 ?w"
    by (rule linked_frame [of _ w0]) (use start(3) join_request_ok [OF names(6,1,2)] in \<open>simp_all add: linked_def sys_ok_def w0\<close>)
  from first_turn [OF this start(4,2), of "join_request ''zoe'' 42"] obtain s w where turn: "server_turn s0 ?w = Inr (s, w)"
      "clients s = [new_client ''zoe'' 9 10 (to_user_fifo 42) (to_server_fifo 42)]" "v_sent w = copies (joined_mesg ''zoe'') (clients s)"
    using w0 fifos_named by (auto simp: j)
  have tc: "tc_path (new_client ''zoe'' 9 10 (to_user_fifo 42) (to_server_fifo 42)) = to_user_fifo 42"
    using fifo_names [OF names(1,2)] by (simp add: tc_path_def new_client_def cstr_strncpy_bytes)
  have "service_step ?z1 (?z1\<lparr>cs_server := s, cs_sys := w\<rparr>)" by (rule service_step.serves) (use turn(1) in simp)
  from service_reach.step [OF 1 this]
  have 2: "service_reach ?z0 \<lparr>cs_server = s, cs_sys = w, cs_users = [?x]\<rparr>" (is "service_reach _ ?z2") by simp
  have "service_step ?z2 (?z2\<lparr>cs_users := (cs_users ?z2)[0 := ?x\<lparr>cu_open := True\<rparr>]\<rparr>)"
    by (rule service_step.opens) (simp_all add: turn(2) tc new_user_def)
  from service_reach.step [OF 2 this]
  have 3: "service_reach ?z0 \<lparr>cs_server = s, cs_sys = w, cs_users = [?x\<lparr>cu_open := True\<rparr>]\<rparr>" (is "service_reach _ ?z3") by simp
  let ?p = "p\<lparr>cp_client := (cp_client p)\<lparr>k_inbox := k_inbox (cp_client p) @ [joined_mesg ''zoe'']\<rparr>\<rparr>"
  let ?y = "?x\<lparr>cu_open := True, cu_prog := ?p\<rparr>"
  have inbox: "k_inbox (cp_client p) = []" by (simp add: begun(3) client_start_def)
  have "service_step ?z3 (?z3\<lparr>cs_users := (cs_users ?z3)[0 := ?x\<lparr>cu_open := True, cu_prog := ?p\<rparr>]\<rparr>)"
    by (rule service_step.arrives [where rest = "[]"])
      (simp_all add: new_user_def begun(2) inbox turn(2,3) tc)
  from service_reach.step [OF 3 this]
  have 4: "service_reach ?z0 \<lparr>cs_server = s, cs_sys = w, cs_users = [?y]\<rparr>" (is "service_reach _ ?z4") by simp
  have "simpio_wf (k_simpio (cp_client ?p))" "k_inbox (cp_client ?p) = joined_mesg ''zoe'' # []"
    using sp(2) by (simp_all add: begun(3) client_start_def)
  from shows_announcement [OF this] obtain k where k: "server_step (cp_client ?p) = Inr k" "k_inbox k = []"
      "k_sent k = k_sent (cp_client ?p)" by blast
  have "client_step (cp_client ?p) k" by (rule client_step.server [OF _ k(1)]) (simp add: begun(3) client_start_def)
  then have "program_step ?p (?p\<lparr>cp_client := k\<rparr>)" by (intro program_step.thread) (simp_all add: begun(2,4))
  then have "service_step ?z4 (?z4\<lparr>cs_users := (cs_users ?z4)[0 := ?y\<lparr>cu_prog := ?p\<lparr>cp_client := k\<rparr>, cu_read := cu_read ?y @ [joined_mesg ''zoe'']\<rparr>],
      cs_sys := write_fifo (to_server_fifo (cu_pid ?y)) [] (cs_sys ?z4)\<rparr>)"
    by (intro service_step.runs) (simp_all add: k(2,3) inbox)
  from service_reach.step [OF 4 this] have "service_reach ?z0
      \<lparr>cs_server = s, cs_sys = w, cs_users = [?y\<lparr>cu_prog := ?p\<lparr>cp_client := k\<rparr>, cu_read := [joined_mesg ''zoe'']\<rparr>]\<rparr>"
    by (simp add: new_user_def)
  then show thesis by (rule that [OF start(1) w0(5,4,6)]) (simp add: new_user_def turn(2) tc)+
qed

section \<open>Properties\<close>

text \<open>
  C2. Server and clients together implement a chat room. At every moment of every run there is a
  history of clients that entered as they asked to, each at most once, of departures and of messages,
  such that the server's table is the room after it, each client's messages in it are the
  first ones of its user's session, in order, and what each client has displayed are the
  first ones of what the history tells it.
\<close>

theorem service_refines_room:
  assumes "bl_server [name] made e w = Inr (Some (s0, w0))" and "length name < MAXPATH" and "sys_ok w"
    and "v_sent w0 = []" and "v_joins w0 = []" and "v_fifo w0 = (\<lambda>_. [])"
    and "service_reach (service_start s0 w0) z"
  shows "\<exists>es. members (cs_server z) = members_after es []
    \<and> subseq (admitted es) (map (asked \<circ> user_request) (cs_users z)) \<and> distinct (entrants es)
    \<and> (\<forall>x \<in> set (cs_users z).
        prefix (via (to_server_fifo (cu_pid x)) (taken es [])) (session_of x)
        \<and> prefix (cu_read x) (via (to_user_fifo (cu_pid x)) (given es [])))"
proof -
  have start: "linked s0 w0" "clients s0 = []" using start_linked [OF assms(1-3)] by auto
  note inv = service_reach_inv [OF assms(7) start]
  obtain es where es: "members (cs_server z) = members_after es []" "v_sent (cs_sys z) = given es []"
      "subseq (admitted es) (map (asked \<circ> user_request) (cs_users z))"
      "\<forall>x \<in> set (cs_users z). prefix (via (to_server_fifo (cu_pid x)) (taken es [])) (session_of x)"
    by (rule service_history [OF inv start assms(4-6)])
  have "prefix (cu_read x) (via (to_user_fifo (cu_pid x)) (given es []))" if "x \<in> set (cs_users z)" for x
    using inv that es(2) by (auto simp: service_inv_def user_inv_def dest: append_prefixD)
  moreover have "distinct (entrants es)" using users_apart [OF inv es(3)] by (simp add: distinct_map)
  ultimately show ?thesis using es(1,3,4) by blast
qed

text \<open>
  C3. What users see of each other. Of two clients in the room, the one that came later has been
  sent a suffix of what the earlier one has; each has displayed the beginning of what it was sent, in
  order; and everything a client has displayed is a line or the departure of a user, or
  the announcement of a user's name, or of the empty one.
\<close>

theorem users_see_each_other:
  assumes "bl_server [name] made e w = Inr (Some (s0, w0))" and "length name < MAXPATH" and "sys_ok w"
    and "v_sent w0 = []" and "v_joins w0 = []" and "v_fifo w0 = (\<lambda>_. [])"
    and "service_reach (service_start s0 w0) z"
  shows "(\<forall>i j. i < j \<and> j < length (clients (cs_server z)) \<longrightarrow>
      suffix (via (tc_path (clients (cs_server z) ! j)) (v_sent (cs_sys z)))
             (via (tc_path (clients (cs_server z) ! i)) (v_sent (cs_sys z))))
    \<and> (\<forall>x \<in> set (cs_users z).
        prefix (cu_read x) (via (to_user_fifo (cu_pid x)) (v_sent (cs_sys z)))
        \<and> (\<forall>m \<in> set (cu_read x). (\<exists>y \<in> set (cs_users z). m \<in> set (session_of y) \<or> m = joined_mesg (cu_name y))
             \<or> m = joined_mesg []))"
proof -
  have start: "linked s0 w0" "clients s0 = []" using start_linked [OF assms(1-3)] by auto
  note inv = service_reach_inv [OF assms(7) start]
  obtain es where es: "members (cs_server z) = members_after es []" "v_sent (cs_sys z) = given es []"
      "subseq (admitted es) (map (asked \<circ> user_request) (cs_users z))"
      "set (named es) \<subseteq> insert [] (cu_name ` set (cs_users z))"
      "\<forall>(p, m) \<in> set (taken es []). \<exists>x \<in> set (cs_users z). p = to_server_fifo (cu_pid x) \<and> m \<in> set (session_of x)"
    by (rule service_history [OF inv start assms(4-6)])
  have "in_order (given es []) (members (cs_server z))" using history_in_order [OF users_apart [OF inv es(3)]] es(1) by simp
  moreover have read: "prefix (cu_read x) (via (to_user_fifo (cu_pid x)) (v_sent (cs_sys z)))" if "x \<in> set (cs_users z)" for x
    using inv that by (auto simp: service_inv_def user_inv_def dest: append_prefixD)
  moreover have "(\<exists>y \<in> set (cs_users z). m \<in> set (session_of y) \<or> m = joined_mesg (cu_name y)) \<or> m = joined_mesg []"
    if x: "x \<in> set (cs_users z)" "m \<in> set (cu_read x)" for x m
  proof -
    have "m \<in> set (via (to_user_fifo (cu_pid x)) (given es []))" using set_mono_prefix [OF read [OF x(1)]] x(2) es(2) by auto
    then have "(to_user_fifo (cu_pid x), m) \<in> set (given es [])" by (auto simp: via_def)
    from given_origin [OF this] consider p where "(p, m) \<in> set (taken es [])" | n where "n \<in> set (named es)" "m = joined_mesg n"
      by auto
    then show ?thesis
    proof cases
      case 1
      with es(5) show ?thesis by fast
    next
      case 2
      with es(4) show ?thesis by auto
    qed
  qed
  ultimately show ?thesis by (simp add: sorted_wrt_iff_nth_less members_clients es(2))
qed

theorem service_refines_room_witness:
  "\<exists>s0 w0 z x es. bl_server [''room''] True 0 demo_sys = Inr (Some (s0, w0))
    \<and> service_reach (service_start s0 w0) z \<and> cs_users z = [x] \<and> cu_read x = [joined_mesg ''zoe'']
    \<and> map snd (members_after es []) = [to_user_fifo 42] \<and> prefix [joined_mesg ''zoe''] (via (to_user_fifo 42) (given es []))"
proof -
  have ok: "length ''room'' < MAXPATH" "sys_ok demo_sys" by (simp_all add: sys_ok_def demo_sys_def)
  obtain s0 w0 z x where z: "bl_server [''room''] True 0 demo_sys = Inr (Some (s0, w0))"
      "v_sent w0 = []" "v_joins w0 = []" "v_fifo w0 = (\<lambda>_. [])" "service_reach (service_start s0 w0) z"
      "cs_users z = [x]" "cu_name x = ''zoe''" "cu_pid x = 42" "cu_read x = [joined_mesg ''zoe'']"
      "map tc_path (clients (cs_server z)) = [to_user_fifo 42]" by (rule service_demo)
  from service_refines_room [OF z(1) ok z(2-5)] obtain es where "members (cs_server z) = members_after es []"
      "prefix [joined_mesg ''zoe''] (via (to_user_fifo 42) (given es []))" by (auto simp: z(6,8,9))
  moreover have "map snd (members (cs_server z)) = [to_user_fifo 42]" using z(10) by (simp add: members_clients comp_def)
  ultimately show ?thesis using z(1,5,6,9) by metis
qed

theorem users_see_each_other_witness:
  "\<exists>s0 w0 z x. bl_server [''room''] True 0 demo_sys = Inr (Some (s0, w0))
    \<and> service_reach (service_start s0 w0) z \<and> cs_users z = [x] \<and> cu_read x = [joined_mesg ''zoe'']
    \<and> prefix (cu_read x) (via (to_user_fifo 42) (v_sent (cs_sys z)))"
proof -
  have ok: "length ''room'' < MAXPATH" "sys_ok demo_sys" by (simp_all add: sys_ok_def demo_sys_def)
  obtain s0 w0 z x where z: "bl_server [''room''] True 0 demo_sys = Inr (Some (s0, w0))"
      "v_sent w0 = []" "v_joins w0 = []" "v_fifo w0 = (\<lambda>_. [])" "service_reach (service_start s0 w0) z"
      "cs_users z = [x]" "cu_name x = ''zoe''" "cu_pid x = 42" "cu_read x = [joined_mesg ''zoe'']"
      "map tc_path (clients (cs_server z)) = [to_user_fifo 42]" by (rule service_demo)
  from users_see_each_other [OF z(1) ok z(2-5)] have "prefix (cu_read x) (via (to_user_fifo 42) (v_sent (cs_sys z)))"
    by (simp add: z(6,8))
  with z(1,5,6,9) show ?thesis by metis
qed

end
