(* ===== verification/Http_Config.thy ===== *)
theory Http_Config
  imports CLib
begin

text \<open>
  \<open>C_Server/src/server.c\<close>, \<open>populate_config\<close>: the words of \<open>conf/httpd.conf\<close> are read into an array;
  each word that is a keyword sets a field from the word behind it.
\<close>

abbreviation MAX_PATH :: nat where "MAX_PATH \<equiv> 255"
abbreviation MAX_IDX :: nat where "MAX_IDX \<equiv> 128"
abbreviation MAX_STRING_LENGTH :: nat where "MAX_STRING_LENGTH \<equiv> 255"
abbreviation MAX_WORD_COUNT :: nat where "MAX_WORD_COUNT \<equiv> 255"

abbreviation MAX_CONNECTIONS_KWD :: string where "MAX_CONNECTIONS_KWD \<equiv> ''MAX_CONNECTIONS''"
abbreviation ROOT_KWD :: string where "ROOT_KWD \<equiv> ''ROOT''"
abbreviation INDEX_KWD :: string where "INDEX_KWD \<equiv> ''INDEX''"
abbreviation PORT_KWD :: string where "PORT_KWD \<equiv> ''PORT''"

section \<open>The code\<close>

text \<open>\<open>config_data\<close>, with its character arrays as the strings they hold. It is a global of the
program: zero at the start.\<close>

record config_data =
  cf_max_connections :: int
  cf_root_path :: string
  cf_index :: string
  cf_port :: int

definition config_zero :: config_data where
  "config_zero = \<lparr>cf_max_connections = 0, cf_root_path = [], cf_index = [], cf_port = 0\<rparr>"

text \<open>\<open>fscanf(cf, " %1023s", data)\<close> on the rest of the file.\<close>

definition scan_word :: "string \<Rightarrow> (string \<times> string) option" where
  "scan_word s =
     (let s1 = dropWhile isspace s;
          w = take 1023 (takeWhile (\<lambda>c. \<not> isspace c) s1)
      in if s1 = [] then None else Some (w, drop (length w) s1))"

lemma scan_word_shorter: "scan_word s = Some (w, r) \<Longrightarrow> length r < length s"
proof -
  assume a: "scan_word s = Some (w, r)"
  let ?s1 = "dropWhile isspace s"
  from a have ne: "?s1 \<noteq> []" and r: "r = drop (length w) ?s1"
    and w: "w = take 1023 (takeWhile (\<lambda>c. \<not> isspace c) ?s1)"
    by (auto simp: scan_word_def Let_def split: if_splits)
  from hd_dropWhile [OF ne] ne have "w \<noteq> []" by (cases ?s1) (auto simp: w)
  then have "length r < length ?s1" using ne by (simp add: r)
  also have "\<dots> \<le> length s" by (rule length_dropWhile_le)
  finally show ?thesis .
qed

text \<open>The first loop, with \<open>i\<close> words read: \<open>data\<close> holds 255 bytes, and so many strings the array.\<close>

function read_words :: "nat \<Rightarrow> string \<Rightarrow> string list res" where
  "read_words i s =
     (case scan_word s of
        None \<Rightarrow> Inr []
      | Some (w, r) \<Rightarrow>
          if MAX_STRING_LENGTH \<le> length w then undef Buffer_Overflow
          else if MAX_WORD_COUNT \<le> i then undef Out_Of_Bounds
          else map_res (Cons (cstr w)) (read_words (Suc i) r))"
  by pat_completeness auto
termination
  by (relation "measure (\<lambda>(i, s). length s)") (auto dest: scan_word_shorter)

declare read_words.simps [simp del]

definition word_at :: "string list \<Rightarrow> nat \<Rightarrow> string res" where
  "word_at strings j =
     (if j < length strings then Inr (strings ! j)
      else undef (if j < MAX_WORD_COUNT then Uninitialised else Out_Of_Bounds))"

text \<open>One round of the second loop.\<close>

definition config_word :: "string list \<Rightarrow> nat \<Rightarrow> config_data \<Rightarrow> config_data res" where
  "config_word strings j config =
     rbind (word_at strings j) (\<lambda>s.
       if s = MAX_CONNECTIONS_KWD then
         rbind (word_at strings (j + 1)) (\<lambda>v.
           map_res (\<lambda>k. config\<lparr>cf_max_connections := k\<rparr>) (atoi v))
       else if s = ROOT_KWD then
         rbind (word_at strings (j + 1)) (\<lambda>v.
           if MAX_PATH \<le> length v then undef Buffer_Overflow else Inr (config\<lparr>cf_root_path := v\<rparr>))
       else if s = INDEX_KWD then
         rbind (word_at strings (j + 1)) (\<lambda>v.
           if MAX_IDX \<le> length v then undef Buffer_Overflow else Inr (config\<lparr>cf_index := v\<rparr>))
       else if s = PORT_KWD then
         rbind (word_at strings (j + 1)) (\<lambda>v. map_res (\<lambda>k. config\<lparr>cf_port := k\<rparr>) (atoi v))
       else Inr config)"

text \<open>The file is absent when it cannot be opened; the code reads from the null pointer then.\<close>

definition populate_config :: "string option \<Rightarrow> config_data \<Rightarrow> config_data res" where
  "populate_config file config =
     (case file of
        None \<Rightarrow> undef Null_Pointer
      | Some s \<Rightarrow>
          rbind (read_words 0 s) (\<lambda>strings.
            for_range [0..<length strings] (config_word strings) config))"

section \<open>The settings of a file\<close>

text \<open>The words with the words behind them; what one such pair sets, and the last of a key.\<close>

definition settings :: "string list \<Rightarrow> (string \<times> string) list" where
  "settings ws = zip ws (tl ws)"

definition apply_setting :: "string \<times> string \<Rightarrow> config_data \<Rightarrow> config_data" where
  "apply_setting = (\<lambda>(k, v) c.
     if k = MAX_CONNECTIONS_KWD then c\<lparr>cf_max_connections := atoi_value v\<rparr>
     else if k = ROOT_KWD then c\<lparr>cf_root_path := v\<rparr>
     else if k = INDEX_KWD then c\<lparr>cf_index := v\<rparr>
     else if k = PORT_KWD then c\<lparr>cf_port := atoi_value v\<rparr>
     else c)"

definition last_setting :: "string \<Rightarrow> (string \<times> string) list \<Rightarrow> string option" where
  "last_setting key ps =
     (let vs = map snd (filter (\<lambda>(k, v). k = key) ps) in if vs = [] then None else Some (last vs))"

definition config_keys :: "string set" where
  "config_keys = {MAX_CONNECTIONS_KWD, ROOT_KWD, INDEX_KWD, PORT_KWD}"

text \<open>The values fit their fields.\<close>

definition setting_ok :: "string \<times> string \<Rightarrow> bool" where
  "setting_ok = (\<lambda>(k, v).
     (k \<in> {MAX_CONNECTIONS_KWD, PORT_KWD} \<longrightarrow> in_int (atoi_value v))
     \<and> (k = ROOT_KWD \<longrightarrow> length v < MAX_PATH) \<and> (k = INDEX_KWD \<longrightarrow> length v < MAX_IDX))"

definition config_ok :: "string list \<Rightarrow> bool" where
  "config_ok ws \<longleftrightarrow> (ws \<noteq> [] \<longrightarrow> last ws \<notin> config_keys) \<and> list_all setting_ok (settings ws)"

lemma settings_Cons: "ws \<noteq> [] \<Longrightarrow> settings (w # ws) = (w, hd ws) # settings ws"
  by (cases ws) (simp_all add: settings_def)

lemma config_word_pair:
  assumes "strings ! j = k" and "Suc j < length strings" and "strings ! Suc j = v" and "setting_ok (k, v)"
  shows "config_word strings j c = Inr (apply_setting (k, v) c)"
  using assms by (auto simp: config_word_def word_at_def setting_ok_def apply_setting_def atoi_def)

lemma config_word_last:
  "j < length strings \<Longrightarrow> strings ! j \<notin> config_keys \<Longrightarrow> config_word strings j c = Inr c"
  by (simp add: config_word_def word_at_def config_keys_def)

lemma config_loop:
  assumes "config_ok ws"
  shows "for_range [length pre..<length pre + length ws] (config_word (pre @ ws)) c
    = Inr (fold apply_setting (settings ws) c)"
  using assms
proof (induction ws arbitrary: pre c)
  case Nil
  then show ?case by (simp add: settings_def)
next
  case (Cons w ws)
  have range: "[length pre..<length pre + length (w # ws)]
      = length pre # [length (pre @ [w])..<length (pre @ [w]) + length ws]"
    using upt_conv_Cons [of "length pre" "length pre + length (w # ws)"] by (simp del: upt_Suc)
  show ?case
  proof (cases "ws = []")
    case True
    with Cons.prems have "config_word (pre @ [w]) (length pre) c = Inr c"
      by (intro config_word_last) (auto simp: config_ok_def)
    then show ?thesis using True unfolding range by (simp add: settings_def)
  next
    case False
    then have ok: "setting_ok (w, hd ws)" "config_ok ws"
      using Cons.prems by (auto simp: config_ok_def settings_Cons)
    have "config_word (pre @ w # ws) (length pre) c = Inr (apply_setting (w, hd ws) c)"
      using False ok(1) by (intro config_word_pair) (auto simp: nth_append hd_conv_nth)
    then show ?thesis
      using Cons.IH [OF ok(2), of "pre @ [w]" "apply_setting (w, hd ws) c"] False
      unfolding range by (simp add: settings_Cons)
  qed
qed

lemma last_setting_simps [simp]:
  "last_setting key [] = None"
  "last_setting key (ps @ [(k, v)]) = (if k = key then Some v else last_setting key ps)"
  by (simp_all add: last_setting_def Let_def)

lemma fold_settings:
  "fold apply_setting ps c =
    \<lparr>cf_max_connections = (case last_setting MAX_CONNECTIONS_KWD ps of
       None \<Rightarrow> cf_max_connections c | Some v \<Rightarrow> atoi_value v),
     cf_root_path = (case last_setting ROOT_KWD ps of None \<Rightarrow> cf_root_path c | Some v \<Rightarrow> v),
     cf_index = (case last_setting INDEX_KWD ps of None \<Rightarrow> cf_index c | Some v \<Rightarrow> v),
     cf_port = (case last_setting PORT_KWD ps of None \<Rightarrow> cf_port c | Some v \<Rightarrow> atoi_value v)\<rparr>"
proof (induction ps rule: rev_induct)
  case (snoc p ps)
  obtain k v where p: "p = (k, v)" by force
  show ?case using snoc by (auto simp: p apply_setting_def)
qed simp

section \<open>The file of the repository\<close>

definition httpd_conf :: string where
  "httpd_conf =
     ''### httpd.conf'' @ [LF] @
     ''### INET 4021 - Lab 1'' @ [LF] @
     ''### Willy Firth'' @ [LF] @
     ''# Note: If keywords (all-caps strings) are changed in this file, then the'' @ [LF] @
     ''#   corresponding macro definitions in server.h must be updated accordingly.'' @ [LF] @
     ''#   Additionally, if the number of strings in this file is increased dramatically'' @ [LF] @
     ''#   then the macro definition MAX_WORD_COUNT must be increased.'' @ [LF] @ [LF] @
     ''MAX_CONNECTIONS 250'' @ [LF] @
     ''ROOT /mnt/c/Users/willy/Documents/UMN/DevProjects/INET4021/Lab1  # Replace with path to root project directory'' @ [LF] @
     ''INDEX index.html  # Do not include '' @ [CHR 0x27] @ ''/'' @ [CHR 0x27] @ '' or '' @ [CHR 0x27, CHR 0x5C, CHR 0x27]
       @ '' at beginning of file name'' @ [LF] @
     ''PORT 8080''"

section \<open>Properties\<close>

text \<open>
  C32. \<open>populate_config\<close> sets each field from the word behind the last occurrence of its keyword
  among all words of the file, and leaves it when the keyword does not occur; nothing is
  out of bounds when the last word is no keyword and the values fit. There are no comments:
  words behind a hash sign count like the others.
\<close>

theorem populate_config_settings:
  assumes "read_words 0 s = Inr ws" and "config_ok ws"
  shows "populate_config (Some s) c = Inr
    \<lparr>cf_max_connections = (case last_setting MAX_CONNECTIONS_KWD (settings ws) of
       None \<Rightarrow> cf_max_connections c | Some v \<Rightarrow> atoi_value v),
     cf_root_path = (case last_setting ROOT_KWD (settings ws) of None \<Rightarrow> cf_root_path c | Some v \<Rightarrow> v),
     cf_index = (case last_setting INDEX_KWD (settings ws) of None \<Rightarrow> cf_index c | Some v \<Rightarrow> v),
     cf_port = (case last_setting PORT_KWD (settings ws) of None \<Rightarrow> cf_port c | Some v \<Rightarrow> atoi_value v)\<rparr>"
  using config_loop [OF assms(2), of "[]" c] assms(1) by (simp add: populate_config_def fold_settings)

text \<open>The words of the repository's file satisfy the conditions.\<close>

lemma httpd_conf_words:
  "case read_words 0 httpd_conf of
     Inr ws \<Rightarrow> config_ok ws \<and> last_setting MAX_CONNECTIONS_KWD (settings ws) = Some ''250''
       \<and> last_setting ROOT_KWD (settings ws)
           = Some ''/mnt/c/Users/willy/Documents/UMN/DevProjects/INET4021/Lab1''
       \<and> last_setting INDEX_KWD (settings ws) = Some ''index.html''
       \<and> last_setting PORT_KWD (settings ws) = Some ''8080''
       \<and> atoi_value ''250'' = 250 \<and> atoi_value ''8080'' = 8080
   | Inl e \<Rightarrow> False"
  by code_simp

theorem populate_config_settings_witness:
  "populate_config (Some httpd_conf) config_zero = Inr
    \<lparr>cf_max_connections = 250,
     cf_root_path = ''/mnt/c/Users/willy/Documents/UMN/DevProjects/INET4021/Lab1'',
     cf_index = ''index.html'', cf_port = 8080\<rparr>"
proof (cases "read_words 0 httpd_conf")
  case (Inl e)
  then show ?thesis using httpd_conf_words by simp
next
  case (Inr ws)
  with httpd_conf_words have "config_ok ws" by simp
  from populate_config_settings [OF Inr this, of config_zero] show ?thesis
    using httpd_conf_words Inr by simp
qed

end
