(* ===== verification/Http_Date.thy ===== *)
theory Http_Date
  imports Http_Config
begin

text \<open>
  \<open>C_Server/src/httpResponses.c\<close>, \<open>get_current_date\<close> and \<open>get_last_modified_date\<close>, with the part
  of \<open>time.h\<close> they use: the calendar of \<open>gmtime\<close> and the fields of \<open>strftime\<close> and \<open>ctime\<close>. Times
  are seconds since 1970 and not negative.
\<close>

abbreviation MAX_RESPONSE_LINE_SIZE :: nat where "MAX_RESPONSE_LINE_SIZE \<equiv> 512"

section \<open>The calendar\<close>

record tm =
  tm_year :: nat
  tm_mon :: nat
  tm_mday :: nat
  tm_hour :: nat
  tm_min :: nat
  tm_sec :: nat
  tm_wday :: nat

definition leap :: "nat \<Rightarrow> bool" where
  "leap y \<longleftrightarrow> 4 dvd y \<and> (\<not> 100 dvd y \<or> 400 dvd y)"

definition month_days :: "nat \<Rightarrow> nat list" where
  "month_days y = [31, if leap y then 29 else 28, 31, 30, 31, 30, 31, 31, 30, 31, 30, 31]"

definition year_days :: "nat \<Rightarrow> nat" where
  "year_days y = (if leap y then 366 else 365)"

text \<open>The year a day falls into, and the day in that year; the same for the months of a year.\<close>

function year_loop :: "nat \<Rightarrow> nat \<Rightarrow> nat \<times> nat" where
  "year_loop y d = (if d < year_days y then (y, d) else year_loop (y + 1) (d - year_days y))"
  by pat_completeness auto
termination
  by (relation "measure (\<lambda>(y, d). d)") (auto simp: year_days_def)

declare year_loop.simps [simp del]

fun month_loop :: "nat list \<Rightarrow> nat \<Rightarrow> nat \<Rightarrow> nat \<times> nat" where
  "month_loop [] m d = (m, d)"
| "month_loop (l # ls) m d = (if d < l then (m, d) else month_loop ls (m + 1) (d - l))"

definition gmtime :: "nat \<Rightarrow> tm" where
  "gmtime now =
     (let days = now div 86400; secs = now mod 86400;
          (y, yd) = year_loop 1970 days;
          (m, d) = month_loop (month_days y) 0 yd
      in \<lparr>tm_year = y, tm_mon = m, tm_mday = d + 1, tm_hour = secs div 3600,
          tm_min = secs mod 3600 div 60, tm_sec = secs mod 60, tm_wday = (days + 4) mod 7\<rparr>)"

section \<open>The code\<close>

definition day_names :: "string list" where
  "day_names = [''Sun'', ''Mon'', ''Tue'', ''Wed'', ''Thu'', ''Fri'', ''Sat'']"

definition month_names :: "string list" where
  "month_names = [''Jan'', ''Feb'', ''Mar'', ''Apr'', ''May'', ''Jun'',
     ''Jul'', ''Aug'', ''Sep'', ''Oct'', ''Nov'', ''Dec'']"

text \<open>Two digits, as most fields are written.\<close>

definition two :: "nat \<Rightarrow> string" where
  "two n = [digits10 ! (n div 10 mod 10), digits10 ! (n mod 10)]"

text \<open>The format of \<open>strftime\<close>, where \<open>gmtime\<close> makes the zone GMT.\<close>

definition http_date :: "tm \<Rightarrow> string" where
  "http_date t = day_names ! tm_wday t @ '', '' @ two (tm_mday t) @ '' '' @ month_names ! tm_mon t @ '' ''
     @ show_nat (tm_year t) @ '' '' @ two (tm_hour t) @ '':'' @ two (tm_min t) @ '':'' @ two (tm_sec t) @ '' GMT''"

text \<open>A text that does not fit leaves the array of \<open>strftime\<close> unspecified.\<close>

definition date_line :: "tm \<Rightarrow> string res" where
  "date_line t =
     (let buf = http_date t; current = ''Date: '' @ buf @ CRLF
      in if MAX_STRING_LENGTH \<le> length buf then undef Uninitialised
         else if MAX_RESPONSE_LINE_SIZE \<le> length current then undef Buffer_Overflow
         else Inr current)"

definition get_current_date :: "nat \<Rightarrow> string res" where
  "get_current_date now = date_line (gmtime now)"

text \<open>
  \<open>get_last_modified_date\<close>, for a file last changed at \<open>mtime\<close>; the argument \<open>local\<close> is what the
  time zone makes of it. \<open>ctime\<close> ends its text with a line feed. The function is not called.
\<close>

definition ctime :: "tm \<Rightarrow> string" where
  "ctime t = day_names ! tm_wday t @ '' '' @ month_names ! tm_mon t @ '' '' @ pad_left 2 (show_nat (tm_mday t)) @ '' ''
     @ two (tm_hour t) @ '':'' @ two (tm_min t) @ '':'' @ two (tm_sec t) @ '' '' @ show_nat (tm_year t) @ [LF]"

definition get_last_modified_date :: "(nat \<Rightarrow> tm) \<Rightarrow> nat \<Rightarrow> string res" where
  "get_last_modified_date local mtime =
     (let last = ''Last-Modified: '' @ ctime (local mtime) @ CRLF
      in if MAX_RESPONSE_LINE_SIZE \<le> length last then undef Buffer_Overflow else Inr last)"

section \<open>Reading a date back\<close>

text \<open>The seconds of a calendar date, counted from its days.\<close>

definition year_start :: "nat \<Rightarrow> nat" where
  "year_start y = sum_list (map year_days [1970..<y])"

definition month_start :: "nat \<Rightarrow> nat \<Rightarrow> nat" where
  "month_start y m = sum_list (take m (month_days y))"

definition timestamp :: "nat \<Rightarrow> nat \<Rightarrow> nat \<Rightarrow> nat \<Rightarrow> nat \<Rightarrow> nat \<Rightarrow> nat" where
  "timestamp y m d hh mm ss =
     (year_start y + month_start y m + (d - 1)) * 86400 + hh * 3600 + mm * 60 + ss"

text \<open>The columns of a date as RFC 1123 has them, and the time they denote.\<close>

definition column :: "nat \<Rightarrow> nat \<Rightarrow> string \<Rightarrow> string" where
  "column i n s = take n (drop i s)"

definition month_index :: "string \<Rightarrow> nat" where
  "month_index s = length (takeWhile (\<lambda>x. x \<noteq> s) month_names)"

definition read_date :: "string \<Rightarrow> nat" where
  "read_date s =
     timestamp (read_digits 0 (column 12 4 s)) (month_index (column 8 3 s)) (read_digits 0 (column 5 2 s))
       (read_digits 0 (column 17 2 s)) (read_digits 0 (column 20 2 s)) (read_digits 0 (column 23 2 s))"

section \<open>The calendar is consistent\<close>

lemma year_start_Suc: "1970 \<le> y \<Longrightarrow> year_start (y + 1) = year_start y + year_days y"
  by (simp add: year_start_def)

lemma year_loop_start:
  assumes "1970 \<le> y" and "year_loop y d = (y1, d1)"
  shows "y \<le> y1 \<and> year_start y1 + d1 = year_start y + d \<and> d1 < year_days y1"
  using assms
proof (induction y d rule: year_loop.induct)
  case (1 y d)
  show ?case
  proof (cases "d < year_days y")
    case True
    then show ?thesis using "1.prems" by (simp add: year_loop.simps [of y d])
  next
    case False
    then have "year_loop (y + 1) (d - year_days y) = (y1, d1)"
      using "1.prems" by (simp add: year_loop.simps [of y d])
    from "1.IH" [OF False _ this] "1.prems" False show ?thesis by (simp add: year_start_Suc [simplified])
  qed
qed

lemma year_start_ge: "365 * k \<le> year_start (1970 + k)"
proof (induction k)
  case (Suc k)
  then show ?case using year_start_Suc [of "1970 + k"] by (simp add: year_days_def)
qed simp

lemma month_loop_start:
  "d < sum_list ls \<Longrightarrow> month_loop ls m d = (m1, d1) \<Longrightarrow>
   m \<le> m1 \<and> m1 < m + length ls \<and> sum_list (take (m1 - m) ls) + d1 = d \<and> d1 < ls ! (m1 - m)"
proof (induction ls arbitrary: m d)
  case (Cons l ls)
  show ?case
  proof (cases "d < l")
    case False
    with Cons.prems have "d - l < sum_list ls" "month_loop ls (m + 1) (d - l) = (m1, d1)" by auto
    from Cons.IH [OF this] obtain k where "m1 = Suc m + k" and "k < length ls"
      "sum_list (take k ls) + d1 = d - l" "d1 < ls ! k" by (auto simp: le_iff_add)
    then show ?thesis using False by simp
  qed (use Cons.prems in auto)
qed simp

lemma sum_month_days: "sum_list (month_days y) = year_days y"
  by (simp add: month_days_def year_days_def)

lemma length_month_days [simp]: "length (month_days y) = 12"
  by (simp add: month_days_def)

lemma month_day_le:
  assumes "m < 12"
  shows "month_days y ! m \<le> 31"
proof -
  have "\<forall>x \<in> set (month_days y). x \<le> 31" by (simp add: month_days_def)
  then show ?thesis using assms by simp
qed

lemma gmtime_fields:
  obtains y m d where "gmtime now = \<lparr>tm_year = y, tm_mon = m, tm_mday = d + 1,
      tm_hour = now mod 86400 div 3600, tm_min = now mod 86400 mod 3600 div 60,
      tm_sec = now mod 86400 mod 60, tm_wday = (now div 86400 + 4) mod 7\<rparr>"
    and "1970 \<le> y" and "m < 12" and "d < 31"
    and "year_start y + month_start y m + d = now div 86400"
proof -
  obtain y yd where y: "year_loop 1970 (now div 86400) = (y, yd)" by force
  obtain m d where m: "month_loop (month_days y) 0 yd = (m, d)" by force
  from year_loop_start [OF _ y] have ys: "1970 \<le> y" "year_start y + yd = now div 86400" "yd < year_days y"
    by (simp_all add: year_start_def)
  from month_loop_start [OF _ m] ys(3) have ms: "m < 12" "month_start y m + d = yd" "d < month_days y ! m"
    by (simp_all add: sum_month_days month_start_def)
  from month_day_le [OF ms(1), of y] ms(3) have "d < 31" by simp
  with ys ms show ?thesis using that [of y m d] by (simp add: gmtime_def y m Let_def)
qed

section \<open>The columns\<close>

lemma day_name: "k < 7 \<Longrightarrow> length (day_names ! k) = 3 \<and> NUL \<notin> set (day_names ! k)"
proof -
  assume "k < 7"
  then have "day_names ! k \<in> set day_names" by (intro nth_mem) (simp add: day_names_def)
  moreover have "\<forall>s \<in> set day_names. length s = 3 \<and> NUL \<notin> set s" by (simp add: day_names_def)
  ultimately show ?thesis by blast
qed

lemma month_name: "m < 12 \<Longrightarrow> length (month_names ! m) = 3 \<and> month_index (month_names ! m) = m"
proof -
  assume "m < 12"
  then have "m \<in> set [0..<12]" by simp
  moreover have "\<forall>m \<in> set [0..<12]. length (month_names ! m) = 3 \<and> month_index (month_names ! m) = m"
    by code_simp
  ultimately show ?thesis by blast
qed

lemma two_digits: "n < 100 \<Longrightarrow> read_digits 0 (two n) = n" "length (two n) = 2"
  by (simp_all add: two_def digit_value_digit)

lemma year_digits: "1000 \<le> y \<Longrightarrow> y < 10000 \<Longrightarrow> length (show_nat y) = 4"
proof -
  assume a: "1000 \<le> y" "y < 10000"
  then have "y div 10 div 10 div 10 < 10" "10 \<le> y div 10 div 10" "10 \<le> y div 10" by auto
  then show ?thesis using a by (simp add: show_nat_big [of y] show_nat_big [of "y div 10"]
      show_nat_big [of "y div 10 div 10"] show_nat_small)
qed

text \<open>The layout of a date whose parts have their widths.\<close>

lemma date_columns:
  assumes "length a = 3" and "length b = 2" and "length c = 3" and "length d = 4"
    and "length e = 2" and "length f = 2" and "length g = 2"
  defines "s \<equiv> a @ '', '' @ b @ '' '' @ c @ '' '' @ d @ '' '' @ e @ '':'' @ f @ '':'' @ g @ '' GMT''"
  shows "column 5 2 s = b" "column 8 3 s = c" "column 12 4 s = d" "column 17 2 s = e"
    "column 20 2 s = f" "column 23 2 s = g" "length s = 29"
  using assms(1-7) by (simp_all add: column_def s_def numeral_eq_Suc)

lemma clock_split: "s div 3600 * 3600 + s mod 3600 div 60 * 60 + s mod 60 = (s :: nat)"
proof -
  have "s mod 60 = s mod 3600 mod 60" by (simp add: mod_mod_cancel)
  then show ?thesis by (metis add.assoc div_mult_mod_eq)
qed

lemma no_CR: "CR \<notin> set (show_nat y)"
  using show_nat_digits [of CR y] by (auto simp: digit_value.simps)

lemma two_no_CR: "CR \<notin> set (two n)"
proof -
  have "digits10 ! k \<noteq> CR" if "k < 10" for k
    using digit_value_digit [OF that] by (auto simp: digit_value.simps)
  from this [of "n div 10 mod 10"] this [of "n mod 10"] show ?thesis by (auto simp: two_def)
qed

lemma no_CR_names: "k < 7 \<Longrightarrow> m < 12 \<Longrightarrow> CR \<notin> set (day_names ! k) \<and> CR \<notin> set (month_names ! m)"
proof -
  assume "k < 7" and "m < 12"
  then have "day_names ! k \<in> set day_names" "month_names ! m \<in> set month_names"
    by (auto intro!: nth_mem simp: day_names_def month_names_def simp del: set_simps)
  moreover have "\<forall>s \<in> set (day_names @ month_names). CR \<notin> set s"
    by (simp add: day_names_def month_names_def)
  ultimately show ?thesis by auto
qed

lemma current_date_line:
  assumes "now < 253234080000"
  shows "\<exists>date. get_current_date now = Inr (''Date: '' @ date @ CRLF)
    \<and> length date = 29 \<and> read_date date = now \<and> CR \<notin> set date"
proof -
  let ?s = "now mod 86400"
  obtain y m d where t: "gmtime now = \<lparr>tm_year = y, tm_mon = m, tm_mday = d + 1,
      tm_hour = ?s div 3600, tm_min = ?s mod 3600 div 60,
      tm_sec = ?s mod 60, tm_wday = (now div 86400 + 4) mod 7\<rparr>"
    and y: "1970 \<le> y" and m: "m < 12" and d: "d < 31"
    and days: "year_start y + month_start y m + d = now div 86400"
    by (rule gmtime_fields)
  have "365 * (y - 1970) \<le> year_start y" using year_start_ge [of "y - 1970"] y by simp
  moreover have "now div 86400 < 2930950" using assms by (simp add: less_mult_imp_div_less)
  ultimately have y2: "y < 10000" using days by arith
  have s: "?s < 86400" by simp
  then have parts: "?s div 3600 < 100" "?s mod 3600 div 60 < 100" "?s mod 60 < 100" "d + 1 < 100"
    using d by (auto simp: less_mult_imp_div_less)
  let ?date = "http_date (gmtime now)"
  have wd: "length (day_names ! ((now div 86400 + 4) mod 7)) = 3" using day_name by simp
  have y4: "length (show_nat y) = 4" using year_digits [of y] y y2 by simp
  note cols = date_columns [OF wd two_digits(2) month_name [OF m, THEN conjunct1] y4
      two_digits(2) two_digits(2) two_digits(2)]
  have "read_date ?date = timestamp y m (d + 1) (?s div 3600) (?s mod 3600 div 60) (?s mod 60)"
    unfolding read_date_def http_date_def t tm.select_convs cols
    by (simp only: two_digits(1) [OF parts(1)] two_digits(1) [OF parts(2)] two_digits(1) [OF parts(3)]
        two_digits(1) [OF parts(4)] month_name [OF m] read_show_nat)
  also have "\<dots> = now div 86400 * 86400 + (?s div 3600 * 3600 + ?s mod 3600 div 60 * 60 + ?s mod 60)"
    using days by (simp add: timestamp_def)
  also have "?s div 3600 * 3600 + ?s mod 3600 div 60 * 60 + ?s mod 60 = ?s"
    using clock_split [of ?s] .
  finally have "read_date ?date = now" by simp
  moreover have "length ?date = 29" unfolding http_date_def t tm.select_convs cols ..
  moreover have "CR \<notin> set ?date"
    unfolding http_date_def t tm.select_convs
    using no_CR [of y] no_CR_names [of "(now div 86400 + 4) mod 7" m] m by (simp add: two_no_CR)
  ultimately show ?thesis by (simp add: get_current_date_def date_line_def Let_def)
qed

text \<open>
  C33. The Date header of a response names the time of the response: it is 29 characters in the
  format of RFC 1123, and reading its columns back gives the seconds it was made from.
\<close>

theorem date_header_roundtrip:
  assumes "now < 253234080000"
  shows "\<exists>date. get_current_date now = Inr (''Date: '' @ date @ CRLF)
    \<and> length date = 29 \<and> read_date date = now"
  using current_date_line [OF assms] by blast

theorem date_header_roundtrip_witness:
  "get_current_date 784111777 = Inr (''Date: '' @ ''Sun, 06 Nov 1994 08:49:37 GMT'' @ CRLF)
   \<and> read_date ''Sun, 06 Nov 1994 08:49:37 GMT'' = 784111777"
proof -
  have y: "year_loop 1970 9075 = (1994, 309)" by (simp add: year_loop.simps year_days_def leap_def)
  have m: "month_loop (month_days 1994) 0 309 = (10, 5)" by (simp add: month_days_def leap_def)
  have a: "get_current_date 784111777 = Inr (''Date: '' @ ''Sun, 06 Nov 1994 08:49:37 GMT'' @ CRLF)"
    using y m by (simp add: get_current_date_def date_line_def gmtime_def http_date_def two_def day_names_def month_names_def
        show_nat.simps)
  with date_header_roundtrip [of 784111777] show ?thesis by auto
qed

end
