(* ===== verification/Http_Request.thy ===== *)
theory Http_Request
  imports Http_Config
begin

text \<open>
  \<open>C_Server/src/server.c\<close>, \<open>populate_request\<close>, \<open>file_type\<close> and \<open>get_query_string\<close>: the words of a
  request line are copied into fixed arrays. The arrays are on the stack and are neither
  cleared nor terminated, so what they held before is an argument of the model.
\<close>

abbreviation BUFFER_SIZE :: nat where "BUFFER_SIZE \<equiv> 1024"

abbreviation JPG :: string where "JPG \<equiv> ''jpg''"
abbreviation GIF :: string where "GIF \<equiv> ''gif''"
abbreviation HTTP09 :: string where "HTTP09 \<equiv> ''HTTP/0.9''"

section \<open>Strings in arrays\<close>

text \<open>\<open>!strcmp(bs, s)\<close> and \<open>!strcasecmp(bs, s)\<close> for a constant \<open>s\<close> shorter than the array.\<close>

definition str_eq :: "char list \<Rightarrow> string \<Rightarrow> bool" where
  "str_eq bs s \<longleftrightarrow> take (length s + 1) bs = s @ [NUL]"

definition lower :: "char \<Rightarrow> char" where
  "lower c = (let k = of_char c :: nat in if 65 \<le> k \<and> k \<le> 90 then char_of (k + 32) else c)"

definition str_caseeq :: "char list \<Rightarrow> string \<Rightarrow> bool" where
  "str_caseeq bs s \<longleftrightarrow> map lower (take (length s + 1) bs) = map lower s @ [NUL]"

text \<open>\<open>strcpy\<close> and \<open>strcat\<close> of a string into an array.\<close>

definition str_copy :: "char list \<Rightarrow> string \<Rightarrow> char list res" where
  "str_copy dst s =
     (if length s < length dst then Inr (s @ NUL # drop (length s + 1) dst) else undef Buffer_Overflow)"

definition str_cat :: "char list \<Rightarrow> string \<Rightarrow> char list res" where
  "str_cat dst s = rbind (c_string dst) (\<lambda>d. str_copy dst (d @ s))"

section \<open>The code\<close>

record request_data =
  rq_type :: "char list"
  rq_rel_path :: "char list"
  rq_abs_path :: "char list"
  rq_protocol :: "char list"
  rq_file_type :: int

text \<open>
  One of the three copying loops, from position \<open>i\<close> of the buffer and \<open>j\<close> of the field. \<open>ISspace\<close>
  casts a \<open>char\<close> to \<open>int\<close>, so a byte above 127 is a negative argument of \<open>isspace\<close>. The C standard
  leaves that undefined; the tables of the GNU library, for which the programs are written, have
  entries from -128 on, and none of these bytes is a space.
\<close>

function copy_word :: "char list \<Rightarrow> nat \<Rightarrow> nat \<Rightarrow> char list \<Rightarrow> (nat \<times> char list) res" where
  "copy_word buf i j field =
     (if length buf \<le> i then undef Out_Of_Bounds
      else if \<not> isspace (buf ! i) \<and> j < MAX_STRING_LENGTH - 1 then
        rbind (set_byte (int j) (buf ! i) field) (\<lambda>field1. copy_word buf (i + 1) (j + 1) field1)
      else Inr (i, field))"
  by pat_completeness auto
termination
  by (relation "measure (\<lambda>(buf, i, j, field). length buf - i)") auto

declare copy_word.simps [simp del]

text \<open>The three words of the request line.\<close>

definition request_line :: "char list \<Rightarrow> request_data \<Rightarrow> request_data res" where
  "request_line buf request =
     rbind (copy_word buf 0 0 (rq_type request)) (\<lambda>(i1, t).
     rbind (copy_word buf (i1 + 1) 0 (rq_rel_path request)) (\<lambda>(i2, r).
     rbind (copy_word buf (i2 + 1) 0 (rq_protocol request)) (\<lambda>(i3, p).
       Inr (request\<lparr>rq_type := t, rq_rel_path := r, rq_protocol := p\<rparr>))))"

text \<open>The loop of \<open>file_type\<close> over the path: the array has four bytes, of which it fills three.\<close>

fun ext_loop :: "string \<Rightarrow> bool \<Rightarrow> nat \<Rightarrow> char list \<Rightarrow> char list" where
  "ext_loop [] copy j ft = ft"
| "ext_loop (c # cs) copy j ft =
     (if copy \<and> 3 \<le> j then ft
      else ext_loop cs (copy \<or> c = CHR ''.'') (if copy then j + 1 else j) (if copy then ft[j := c] else ft))"

definition file_type :: "char list \<Rightarrow> string \<Rightarrow> int" where
  "file_type stack path =
     (let ft = ext_loop path False 0 stack
      in if str_eq ft JPG then 1
         else if str_eq ft GIF then 2
         else if str_eq ft ''css'' then -1
         else if str_eq ft ''cgi'' then -2
         else 0)"

text \<open>\<open>stack\<close> is what the four bytes of \<open>file_type\<close> hold when it is entered.\<close>

definition populate_request ::
  "char list \<Rightarrow> char list \<Rightarrow> config_data \<Rightarrow> request_data \<Rightarrow> request_data res" where
  "populate_request stack buf config request =
     rbind (request_line buf request) (\<lambda>r.
     rbind (str_copy (rq_abs_path r) (cf_root_path config)) (\<lambda>abs1.
     rbind (if str_eq (rq_rel_path r) ''/'' then str_cat (rq_rel_path r) (cf_index config)
            else Inr (rq_rel_path r)) (\<lambda>rel.
     rbind (c_string rel) (\<lambda>rel_str.
     rbind (str_cat abs1 rel_str) (\<lambda>abs2.
       Inr (r\<lparr>rq_rel_path := rel, rq_abs_path := abs2, rq_file_type := file_type stack rel_str\<rparr>))))))"

text \<open>\<open>get_query_string\<close>: it copies without a bound and adds no terminator.\<close>

fun query_loop :: "string \<Rightarrow> bool \<Rightarrow> nat \<Rightarrow> char list \<Rightarrow> (bool \<times> char list) res" where
  "query_loop [] copy j qs = Inr (copy, qs)"
| "query_loop (c # cs) copy j qs =
     rbind (if copy then set_byte (int j) c qs else Inr qs) (\<lambda>qs1.
       query_loop cs (copy \<or> c = CHR ''?'') (if copy then j + 1 else j) qs1)"

definition get_query_string :: "char list \<Rightarrow> string \<Rightarrow> (int \<times> char list) res" where
  "get_query_string query_string uri =
     map_res (\<lambda>(copy, qs). (if copy then 1 else 0, qs)) (query_loop uri False 0 query_string)"

section \<open>Copying a word\<close>

definition word_from :: "nat \<Rightarrow> char list \<Rightarrow> string" where
  "word_from n s = takeWhile (\<lambda>c. \<not> isspace c) (take n s)"

lemma word_from_length: "length (word_from n s) \<le> n"
  unfolding word_from_def by (rule order_trans [OF length_takeWhile_le]) simp

lemma copy_word_loop:
  assumes "k + j = MAX_STRING_LENGTH - 1" and "i + k < length buf" and "length field = MAX_STRING_LENGTH"
  shows "copy_word buf i j field =
    (let w = word_from k (drop i buf)
     in Inr (i + length w, take j field @ w @ drop (j + length w) field))"
  using assms
proof (induction k arbitrary: i j field)
  case 0
  then show ?case by (subst copy_word.simps) (simp add: word_from_def)
next
  case (Suc k)
  have i: "drop i buf = buf ! i # drop (i + 1) buf" using Suc.prems(2) by (simp add: Cons_nth_drop_Suc)
  show ?case
  proof (cases "isspace (buf ! i)")
    case True
    then show ?thesis using Suc.prems by (subst copy_word.simps) (simp add: i word_from_def)
  next
    case False
    let ?f = "field[j := buf ! i]"
    have j: "j < length field" using Suc.prems(1,3) by simp
    have "copy_word buf i j field = copy_word buf (i + 1) (j + 1) ?f"
      using False Suc.prems j by (subst copy_word.simps) (simp add: set_byte_def)
    also have "\<dots> = (let w = word_from k (drop (i + 1) buf)
        in Inr (i + 1 + length w, take (j + 1) ?f @ w @ drop (j + 1 + length w) ?f))"
      using Suc.prems by (intro Suc.IH) auto
    also have "take (j + 1) ?f = take j field @ [buf ! i]"
      using j by (simp add: take_Suc_conv_app_nth)
    finally show ?thesis using False by (simp add: i word_from_def Let_def)
  qed
qed

lemma copy_word_whole:
  assumes "i + 254 < length buf" and "length field = MAX_STRING_LENGTH"
  shows "copy_word buf i 0 field = (let w = word_from 254 (drop i buf)
    in Inr (i + length w, w @ drop (length w) field))"
  using copy_word_loop [of 254 0 i buf field] assms by simp

section \<open>Extensions\<close>

text \<open>The first three characters behind the first dot.\<close>

definition extension :: "string \<Rightarrow> string" where
  "extension path = take 3 (drop 1 (dropWhile (\<lambda>c. c \<noteq> CHR ''.'') path))"

lemma ext_loop_copy:
  "j \<le> 3 \<Longrightarrow> length ft = 4 \<Longrightarrow>
   ext_loop path True j ft = take j ft @ take (3 - j) path @ drop (j + length (take (3 - j) path)) ft"
proof (induction path arbitrary: j ft)
  case (Cons c cs)
  show ?case
  proof (cases "j = 3")
    case False
    then have j: "Suc j \<le> 3" "3 - j = Suc (2 - j)" "3 - Suc j = 2 - j" using Cons.prems by auto
    have "take (Suc j) (ft[j := c]) = take j ft @ [c]"
      using Cons.prems j by (simp add: take_Suc_conv_app_nth)
    then show ?thesis using Cons.IH [of "Suc j" "ft[j := c]"] Cons.prems j by simp
  qed simp
qed simp

lemma ext_loop_ext:
  "length ft = 4 \<Longrightarrow> ext_loop path False 0 ft = extension path @ drop (length (extension path)) ft"
proof (induction path)
  case (Cons c cs)
  then show ?case
    by (cases "c = CHR ''.''") (simp_all add: ext_loop_copy [of 0] extension_def)
qed (simp add: extension_def)

lemma str_eq_four:
  assumes "length ft = 4" and "length s = 3" and "NUL \<notin> set s"
  shows "str_eq ft s \<longleftrightarrow> ft ! 3 = NUL \<and> take 3 ft = s"
proof -
  have "ft = take 3 ft @ [ft ! 3]"
    using take_Suc_conv_app_nth [of 3 ft] assms(1) by simp
  then show ?thesis using assms by (auto simp: str_eq_def)
qed

text \<open>The number of a file type, by its three letters.\<close>

definition type_number :: "string \<Rightarrow> int" where
  "type_number e =
     (if e = ''jpg'' then 1 else if e = ''gif'' then 2 else if e = ''css'' then -1
      else if e = ''cgi'' then -2 else 0)"

text \<open>What the four bytes of the array hold behind the extension comes from the stack.\<close>

lemma file_type_bytes:
  assumes "length stack = 4"
  shows "file_type stack path =
    (if stack ! 3 = NUL
     then type_number (extension path @ drop (length (extension path)) (take 3 stack)) else 0)"
proof -
  let ?e = "extension path" and ?ft = "ext_loop path False 0 stack"
  have e: "length ?e \<le> 3" by (simp add: extension_def)
  have ft: "?ft = ?e @ drop (length ?e) stack" using assms by (rule ext_loop_ext)
  have len: "length ?ft = 4" and last: "?ft ! 3 = stack ! 3"
    and front: "take 3 ?ft = ?e @ drop (length ?e) (take 3 stack)"
    using assms e by (simp_all add: ft nth_append drop_take)
  show ?thesis
    using str_eq_four [OF len] by (simp add: file_type_def Let_def last front type_number_def)
qed

section \<open>Requests\<close>

text \<open>A word of a request line, as the copying loops see it.\<close>

definition is_word :: "string \<Rightarrow> bool" where
  "is_word w \<longleftrightarrow> length w \<le> 254 \<and> (\<forall>c \<in> set w. \<not> isspace c \<and> c \<noteq> NUL)"

text \<open>The arrays of the two structures have their sizes, and the configuration holds strings.\<close>

definition request_shape :: "request_data \<Rightarrow> bool" where
  "request_shape r \<longleftrightarrow> length (rq_type r) = MAX_STRING_LENGTH \<and> length (rq_rel_path r) = MAX_STRING_LENGTH
     \<and> length (rq_abs_path r) = MAX_STRING_LENGTH \<and> length (rq_protocol r) = MAX_STRING_LENGTH"

definition config_shape :: "config_data \<Rightarrow> bool" where
  "config_shape c \<longleftrightarrow> length (cf_root_path c) < MAX_PATH \<and> NUL \<notin> set (cf_root_path c)
     \<and> length (cf_index c) < MAX_IDX \<and> NUL \<notin> set (cf_index c)"

text \<open>The path a request asks for.\<close>

definition wanted :: "config_data \<Rightarrow> string \<Rightarrow> string" where
  "wanted config p = (if p = ''/'' then p @ cf_index config else p)"

text \<open>A field after a word was copied over what it held, and after a string was.\<close>

definition over :: "string \<Rightarrow> char list \<Rightarrow> char list" where
  "over w field = w @ drop (length w) field"

definition over_nul :: "string \<Rightarrow> char list \<Rightarrow> char list" where
  "over_nul w field = w @ NUL # drop (length w + 1) field"

lemma length_over [simp]: "length w \<le> length field \<Longrightarrow> length (over w field) = length field"
  by (simp add: over_def)

lemma length_over_nul [simp]: "length w < length field \<Longrightarrow> length (over_nul w field) = length field"
  by (simp add: over_nul_def)

lemma over_terminated:
  "length w < length field \<Longrightarrow> field ! length w = NUL \<Longrightarrow> over w field = over_nul w field"
  by (simp add: over_def over_nul_def Cons_nth_drop_Suc [symmetric])

lemma over_nul_again:
  "length w \<le> length v \<Longrightarrow> over_nul v (over_nul w field) = over_nul v field"
  by (simp add: over_nul_def Suc_diff_le)

lemma c_string_over_nul [simp]: "NUL \<notin> set w \<Longrightarrow> c_string (over_nul w field) = Inr w"
  by (simp add: c_string_def over_nul_def cstr_stop)

lemma str_copy_fits: "length s < length dst \<Longrightarrow> str_copy dst s = Inr (over_nul s dst)"
  by (simp add: str_copy_def over_nul_def)

lemma str_cat_over_nul:
  assumes "NUL \<notin> set w" and "length w < length field"
  shows "str_cat (over_nul w field) s =
    (if length (w @ s) < length field then Inr (over_nul (w @ s) field) else undef Buffer_Overflow)"
proof -
  have "str_cat (over_nul w field) s = str_copy (over_nul w field) (w @ s)"
    using assms(1) by (simp add: str_cat_def)
  then show ?thesis
    using assms(2) over_nul_again [of w "w @ s" field] str_copy_fits [of "w @ s" "over_nul w field"]
    by (simp add: str_copy_def [of _ "w @ s"])
qed

lemma str_eq_over_nul:
  assumes "NUL \<notin> set w" and "NUL \<notin> set s"
  shows "str_eq (over_nul w field) s \<longleftrightarrow> w = s"
proof
  assume "str_eq (over_nul w field) s"
  then have "over_nul w field = s @ NUL # drop (length s + 1) (over_nul w field)"
    by (metis append.assoc append_Cons append_Nil append_take_drop_id str_eq_def)
  then have "cstr (over_nul w field) = s" using cstr_stop [OF assms(2)] by metis
  then show "w = s" using cstr_stop [OF assms(1)] by (simp add: over_nul_def)
qed (simp add: str_eq_def over_nul_def)

lemma str_eq_nul: "str_eq a s \<Longrightarrow> NUL \<in> set a"
  unfolding str_eq_def by (metis in_set_conv_decomp in_set_takeD)

lemma word_from_word:
  assumes "is_word w" and "isspace c"
  shows "word_from 254 (w @ c # rest) = w"
proof (cases "length w = 254")
  case True
  then show ?thesis using assms by (simp add: word_from_def is_word_def)
next
  case False
  then have "take 254 (w @ c # rest) = w @ c # take (253 - length w) rest"
    using assms(1) by (simp add: is_word_def take_Cons' min_def)
  then show ?thesis using assms by (simp add: word_from_def is_word_def takeWhile_stop)
qed

lemma isspace_SP [simp]: "isspace SP"
  by (simp add: isspace_def)

lemma request_line_words:
  assumes "is_word m" and "is_word p" and "is_word v" and "isspace c"
    and "buf = m @ SP # p @ SP # v @ c # rest" and "length buf = BUFFER_SIZE" and "request_shape request"
  shows "request_line buf request = Inr (request\<lparr>rq_type := over m (rq_type request),
    rq_rel_path := over p (rq_rel_path request), rq_protocol := over v (rq_protocol request)\<rparr>)"
proof -
  have len: "length m \<le> 254" "length p \<le> 254" using assms(1,2) by (simp_all add: is_word_def)
  have 1: "copy_word buf 0 0 (rq_type request) = Inr (length m, over m (rq_type request))"
    using copy_word_whole [of 0 buf "rq_type request"] word_from_word [OF assms(1) isspace_SP] assms
    by (simp add: request_shape_def over_def Let_def)
  have 2: "copy_word buf (length m + 1) 0 (rq_rel_path request)
      = Inr (length m + 1 + length p, over p (rq_rel_path request))"
    using copy_word_whole [of "length m + 1" buf "rq_rel_path request"]
      word_from_word [OF assms(2) isspace_SP] assms len
    by (simp add: request_shape_def over_def Let_def)
  have 3: "copy_word buf (length m + 1 + length p + 1) 0 (rq_protocol request)
      = Inr (length m + 1 + length p + 1 + length v, over v (rq_protocol request))"
    using copy_word_whole [of "length m + 1 + length p + 1" buf "rq_protocol request"]
      word_from_word [OF assms(3,4)] assms len
    by (simp add: request_shape_def over_def Let_def)
  from 2 3 show ?thesis by (simp add: request_line_def 1)
qed

lemma cstr_over_nul:
  assumes "NUL \<in> set a"
  shows "over_nul (cstr a) a = a"
proof -
  from cstr_length_nul [OF assms] have n: "length (cstr a) < length a" "a ! length (cstr a) = NUL" by auto
  moreover have "take (length (cstr a)) a = cstr a" by (simp add: cstr_def takeWhile_eq_take [symmetric])
  ultimately show ?thesis using id_take_nth_drop [OF n(1)] by (simp add: over_nul_def)
qed

lemma copy_word_shape:
  assumes "i + 254 < length buf" and "length field = MAX_STRING_LENGTH"
  obtains k field1 where "copy_word buf i 0 field = Inr (i + k, field1)" and "k \<le> 254"
    and "length field1 = MAX_STRING_LENGTH"
proof -
  let ?w = "word_from 254 (drop i buf)"
  have "copy_word buf i 0 field = Inr (i + length ?w, ?w @ drop (length ?w) field)"
    using copy_word_whole [OF assms] by (simp add: Let_def)
  moreover have "length ?w \<le> 254" by (rule word_from_length)
  ultimately show ?thesis using assms(2) that by simp
qed

lemma request_line_shape:
  assumes "length buf = BUFFER_SIZE" and "request_shape request"
  shows "\<exists>r. request_line buf request = Inr r \<and> request_shape r
    \<and> rq_abs_path r = rq_abs_path request"
proof -
  have f: "length (rq_type request) = MAX_STRING_LENGTH" "length (rq_rel_path request) = MAX_STRING_LENGTH"
    "length (rq_protocol request) = MAX_STRING_LENGTH" using assms(2) by (simp_all add: request_shape_def)
  obtain k t where 1: "copy_word buf 0 0 (rq_type request) = Inr (0 + k, t)" "k \<le> 254"
    "length t = MAX_STRING_LENGTH" by (rule copy_word_shape [of 0 buf "rq_type request"]) (use assms f in auto)
  obtain l r where 2: "copy_word buf (k + 1) 0 (rq_rel_path request) = Inr (k + 1 + l, r)" "l \<le> 254"
    "length r = MAX_STRING_LENGTH"
    by (rule copy_word_shape [of "k + 1" buf "rq_rel_path request"]) (use assms f 1(2) in auto)
  obtain n p where 3: "copy_word buf (k + 1 + l + 1) 0 (rq_protocol request) = Inr (k + 1 + l + 1 + n, p)"
    "length p = MAX_STRING_LENGTH"
    by (rule copy_word_shape [of "k + 1 + l + 1" buf "rq_protocol request"]) (use assms f 1(2) 2(2) in auto)
  show ?thesis using 1 2 3 assms(2) by (simp add: request_line_def request_shape_def)
qed

text \<open>What the second half of the function makes of the three words.\<close>

definition located :: "char list \<Rightarrow> config_data \<Rightarrow> request_data \<Rightarrow> request_data res" where
  "located stack config r =
     (if NUL \<notin> set (rq_rel_path r) then undef Out_Of_Bounds
      else let rel = wanted config (cstr (rq_rel_path r)); path = cf_root_path config @ rel
           in if length path < MAX_STRING_LENGTH
              then Inr (r\<lparr>rq_rel_path := over_nul rel (rq_rel_path r),
                     rq_abs_path := over_nul path (rq_abs_path r), rq_file_type := file_type stack rel\<rparr>)
              else undef Buffer_Overflow)"

lemma populate_request_located:
  assumes "request_line buf request = Inr r" and "request_shape r" and "config_shape config"
  shows "populate_request stack buf config request = located stack config r"
proof (cases "NUL \<in> set (rq_rel_path r)")
  case False
  then have "\<not> str_eq (rq_rel_path r) ''/''" by (auto dest: str_eq_nul)
  then show ?thesis using assms False
    by (simp add: populate_request_def located_def str_copy_def request_shape_def config_shape_def c_string_def)
next
  case True
  let ?w = "cstr (rq_rel_path r)" and ?root = "cf_root_path config"
  let ?rel = "wanted config ?w"
  have rel: "over_nul ?w (rq_rel_path r) = rq_rel_path r" using True by (rule cstr_over_nul)
  have w: "length ?w < length (rq_rel_path r)" "NUL \<notin> set ?w"
    using cstr_length_nul [OF True] cstr_no_nul by auto
  have eq: "str_eq (rq_rel_path r) ''/'' \<longleftrightarrow> ?w = ''/''"
    using str_eq_over_nul [of ?w "''/''" "rq_rel_path r"] w(2) rel by simp
  have step: "(if str_eq (rq_rel_path r) ''/'' then str_cat (rq_rel_path r) (cf_index config)
      else Inr (rq_rel_path r)) = Inr (over_nul ?rel (rq_rel_path r))"
    using str_cat_over_nul [OF w(2,1), of "cf_index config"] assms(2,3) rel
    by (simp add: eq wanted_def request_shape_def config_shape_def)
  have nul: "NUL \<notin> set ?rel" using w(2) assms(3) by (simp add: wanted_def config_shape_def)
  have "str_copy (rq_abs_path r) ?root = Inr (over_nul ?root (rq_abs_path r))"
    using assms(2,3) by (intro str_copy_fits) (simp add: request_shape_def config_shape_def)
  moreover have "str_cat (over_nul ?root (rq_abs_path r)) ?rel =
      (if length (?root @ ?rel) < MAX_STRING_LENGTH then Inr (over_nul (?root @ ?rel) (rq_abs_path r))
       else undef Buffer_Overflow)"
    using assms(2,3) by (subst str_cat_over_nul) (simp_all add: request_shape_def config_shape_def)
  ultimately show ?thesis
    using True assms(1) step nul by (simp add: populate_request_def located_def Let_def)
qed

section \<open>The query string\<close>

text \<open>Once the question mark is passed, every further character is copied, terminator excluded.\<close>

lemma query_copy:
  "query_loop cs True (length a) (a @ b) =
     (if length cs \<le> length b then Inr (True, a @ cs @ drop (length cs) b) else undef Out_Of_Bounds)"
proof (induction cs arbitrary: a b)
  case (Cons c cs)
  show ?case
  proof (cases b)
    case (Cons d b1)
    have "set_byte (int (length a)) c (a @ b) = Inr ((a @ [c]) @ b1)" by (simp add: set_byte_def Cons)
    then show ?thesis using Cons.IH [of "a @ [c]" b1] by (simp add: Cons)
  qed (simp add: set_byte_def)
qed simp

lemma query_search:
  "query_loop uri False j qs =
     (case dropWhile (\<lambda>c. c \<noteq> CHR ''?'') uri of [] \<Rightarrow> Inr (False, qs) | c # q \<Rightarrow> query_loop q True j qs)"
  by (induction uri) auto

lemma get_query_string_spec:
  "get_query_string qs uri =
     (case dropWhile (\<lambda>c. c \<noteq> CHR ''?'') uri of
        [] \<Rightarrow> Inr (0, qs)
      | c # q \<Rightarrow> if length q \<le> length qs then Inr (1, q @ drop (length q) qs) else undef Out_Of_Bounds)"
proof (cases "dropWhile (\<lambda>c. c \<noteq> CHR ''?'') uri")
  case Nil
  show ?thesis unfolding get_query_string_def query_search Nil by simp
next
  case (Cons c q)
  show ?thesis unfolding get_query_string_def query_search Cons using query_copy [of q "[]" qs] by simp
qed

section \<open>Properties\<close>

lemma populate_request_words:
  assumes "is_word m" and "is_word p" and "is_word v" and "isspace c"
    and "length (m @ SP # p @ SP # v @ c # rest) = BUFFER_SIZE"
    and "request_shape request" and "config_shape config" and "rq_rel_path request ! length p = NUL"
  shows "populate_request stack (m @ SP # p @ SP # v @ c # rest) config request =
    (let path = cf_root_path config @ wanted config p
     in if length path < MAX_STRING_LENGTH
        then Inr \<lparr>rq_type = over m (rq_type request),
               rq_rel_path = over_nul (wanted config p) (rq_rel_path request),
               rq_abs_path = over_nul path (rq_abs_path request),
               rq_protocol = over v (rq_protocol request),
               rq_file_type = file_type stack (wanted config p)\<rparr>
        else undef Buffer_Overflow)"
proof -
  let ?r = "request\<lparr>rq_type := over m (rq_type request),
    rq_rel_path := over p (rq_rel_path request), rq_protocol := over v (rq_protocol request)\<rparr>"
  have line: "request_line (m @ SP # p @ SP # v @ c # rest) request = Inr ?r"
    using assms by (intro request_line_words) auto
  have shape: "request_shape ?r" using assms(1-3,6) by (simp add: request_shape_def is_word_def)
  have rel: "over p (rq_rel_path request) = over_nul p (rq_rel_path request)"
    using assms(2,6,8) by (intro over_terminated) (auto simp: request_shape_def is_word_def)
  have p: "cstr (over_nul p (rq_rel_path request)) = p" "NUL \<in> set (over_nul p (rq_rel_path request))"
    using assms(2) by (auto simp: over_nul_def is_word_def intro!: cstr_stop)
  have "length p \<le> length (wanted config p)" by (simp add: wanted_def)
  then show ?thesis
    by (simp add: populate_request_located [OF line shape assms(7)] located_def rel p Let_def over_nul_again)
qed

text \<open>
  C24. A request line of three words of at most 254 characters is taken apart as written,
  whatever the stack held: the first and the last word are copied over their fields without a
  terminator, and, where the byte behind the second word is zero, the relative path is that
  word (the index file added to a single slash), the absolute path is the root directory with
  the relative path behind it, and the file type is that of the relative path. When the
  absolute path does not fit 254 characters, the array overflows.
\<close>

theorem populate_request_fields:
  assumes "is_word m" and "is_word p" and "is_word v" and "isspace c"
    and "length (m @ SP # p @ SP # v @ c # rest) = BUFFER_SIZE"
    and "request_shape request" and "config_shape config" and "rq_rel_path request ! length p = NUL"
  shows "populate_request stack (m @ SP # p @ SP # v @ c # rest) config request =
    (let path = cf_root_path config @ wanted config p
     in if length path < MAX_STRING_LENGTH
        then Inr \<lparr>rq_type = over m (rq_type request),
               rq_rel_path = over_nul (wanted config p) (rq_rel_path request),
               rq_abs_path = over_nul path (rq_abs_path request),
               rq_protocol = over v (rq_protocol request),
               rq_file_type = file_type stack (wanted config p)\<rparr>
        else undef Buffer_Overflow)"
  using assms by (rule populate_request_words)

text \<open>A configuration and a request structure for the witnesses.\<close>

definition sample_config :: config_data where
  "sample_config = \<lparr>cf_max_connections = 250, cf_root_path = ''/srv'', cf_index = ''index.html'', cf_port = 8080\<rparr>"

definition blank_request :: request_data where
  "blank_request = \<lparr>rq_type = replicate 255 NUL, rq_rel_path = replicate 255 NUL,
     rq_abs_path = replicate 255 NUL, rq_protocol = replicate 255 NUL, rq_file_type = 0\<rparr>"

lemma sample_shapes: "config_shape sample_config" "request_shape blank_request"
  by (simp_all add: config_shape_def sample_config_def request_shape_def blank_request_def)

theorem populate_request_fields_witness:
  "populate_request (replicate 4 NUL) (''GET'' @ SP # ''/'' @ SP # ''HTTP/1.0'' @ CR # replicate 1009 NUL)
     sample_config blank_request =
   Inr \<lparr>rq_type = over ''GET'' (replicate 255 NUL), rq_rel_path = over_nul ''/index.html'' (replicate 255 NUL),
     rq_abs_path = over_nul ''/srv/index.html'' (replicate 255 NUL),
     rq_protocol = over ''HTTP/1.0'' (replicate 255 NUL), rq_file_type = 0\<rparr>"
proof -
  have w: "is_word ''GET''" "is_word ''/''" "is_word ''HTTP/1.0''" "isspace CR"
    by (simp_all add: is_word_def isspace_def)
  have "file_type (replicate 4 NUL) (wanted sample_config ''/'') = 0"
    "wanted sample_config ''/'' = ''/index.html''" by code_simp+
  with populate_request_fields [OF w(1,2,3,4) _ sample_shapes(2,1), of "replicate 1009 NUL" "replicate 4 NUL"]
  show ?thesis by (simp add: Let_def) (simp add: sample_config_def blank_request_def)
qed

text \<open>
  C34. Whatever arrives and whatever the stack held, the three words are copied within the
  buffer and within their fields. The function returns exactly when the field of the path
  holds a terminator and the two paths together fit 254 characters; otherwise it reads or
  writes out of bounds.
\<close>

theorem populate_request_outcome:
  assumes "length buf = BUFFER_SIZE" and "request_shape request" and "config_shape config"
  shows "\<exists>r. request_line buf request = Inr r \<and> request_shape r
    \<and> populate_request stack buf config request = located stack config r
    \<and> safe request_shape (request_line buf request)
    \<and> ((\<exists>q. populate_request stack buf config request = Inr q \<and> request_shape q) \<longleftrightarrow>
        NUL \<in> set (rq_rel_path r)
        \<and> length (cf_root_path config @ wanted config (cstr (rq_rel_path r))) < MAX_STRING_LENGTH)"
proof -
  obtain r where r: "request_line buf request = Inr r" "request_shape r"
    using request_line_shape [OF assms(1,2)] by auto
  note loc = populate_request_located [OF r assms(3)]
  show ?thesis
    using r by (intro exI [of _ r]) (auto simp: loc located_def Let_def request_shape_def wanted_def)
qed

theorem populate_request_outcome_witness:
  "\<exists>r. request_line (replicate 1024 (CHR ''x'')) blank_request = Inr r \<and> request_shape r"
  using populate_request_outcome [OF _ sample_shapes(2,1), of "replicate 1024 (CHR ''x'')"] by auto

text \<open>
  The type of a file is told from the three characters behind the first dot of its path,
  wherever that dot is: 1 for jpg, 2 for gif, -1 for css, -2 for cgi and 0 for anything else.
  Shorter extensions are filled up from the stack, and the byte behind the three is never
  written: when the stack holds another byte than zero there, every file has type 0.
\<close>

theorem file_type_of_extension:
  assumes "length stack = 4"
  shows "file_type stack path =
    (if stack ! 3 \<noteq> NUL then 0
     else if length (extension path) = 3 then type_number (extension path)
     else type_number (extension path @ drop (length (extension path)) (take 3 stack)))"
  using file_type_bytes [OF assms, of path] assms by auto

theorem file_type_of_extension_witness:
  "file_type [CHR ''z'', CHR ''z'', CHR ''z'', NUL] ''/images/panda.jpg'' = 1
   \<and> file_type [CHR ''z'', CHR ''z'', CHR ''z'', NUL] ''/old.css.d/panda.jpg'' = -1
   \<and> file_type ''junk'' ''/images/panda.jpg'' = 0"
  using file_type_of_extension [of "[CHR ''z'', CHR ''z'', CHR ''z'', NUL]" "''/images/panda.jpg''"]
    file_type_of_extension [of "[CHR ''z'', CHR ''z'', CHR ''z'', NUL]" "''/old.css.d/panda.jpg''"]
    file_type_of_extension [of "''junk''" "''/images/panda.jpg''"]
  by (simp add: extension_def type_number_def)

end
