(* ===== verification/Http_Response.thy ===== *)
theory Http_Response
  imports Http_Date Http_Request
begin

text \<open>
  \<open>C_Server/src/httpResponses.c\<close>: the responses. The world is what the responses touch: the
  files, the clock, the bytes sent to the client, the log, and the files opened and not closed.
  The clock does not move during a response, and the browser stays until it has the response.
\<close>

abbreviation MAX_ENTITY_BODY_SIZE :: nat where "MAX_ENTITY_BODY_SIZE \<equiv> 32768"
abbreviation TEXT_ENTITY_BODY_SIZE :: nat where "TEXT_ENTITY_BODY_SIZE \<equiv> 8096"

abbreviation SERVER :: string where "SERVER \<equiv> ''ServiceAce''"
abbreviation HTML :: string where "HTML \<equiv> ''text/html''"
abbreviation CSS :: string where "CSS \<equiv> ''text/css''"
abbreviation GRAPHIC_IMAGE :: string where "GRAPHIC_IMAGE \<equiv> ''image/jpeg''"
abbreviation GRAPHIC_GIF :: string where "GRAPHIC_GIF \<equiv> ''image/gif''"

section \<open>The world\<close>

text \<open>
  A file that exists: whether it can be opened for reading, its bytes (none when \<open>read\<close> fails, as
  for a directory), and the position of its end as \<open>ftell\<close> reports it.
\<close>

record web_file =
  wf_opens :: bool
  wf_data :: "string option"
  wf_end :: int

definition regular :: "string \<Rightarrow> web_file" where
  "regular d = \<lparr>wf_opens = True, wf_data = Some d, wf_end = int (length d)\<rparr>"

record web =
  wb_files :: "string \<rightharpoonup> web_file"
  wb_now :: nat
  wb_out :: string
  wb_log :: string
  wb_access :: string
  wb_fds :: nat
  wb_closed :: bool

definition send_bytes :: "web \<Rightarrow> string \<Rightarrow> web" where
  "send_bytes w s = w\<lparr>wb_out := wb_out w @ s\<rparr>"

definition log_line :: "string \<Rightarrow> web \<Rightarrow> web" where
  "log_line s w = w\<lparr>wb_log := wb_log w @ s @ [LF]\<rparr>"

text \<open>\<open>sprintf\<close> into an array of \<open>n\<close> bytes.\<close>

definition sprintf_to :: "nat \<Rightarrow> string \<Rightarrow> string res" where
  "sprintf_to n s = (if length s < n then Inr s else undef Buffer_Overflow)"

section \<open>Headers\<close>

text \<open>The texts in the arrays of the two structures; an array not written yet is empty here.\<close>

record general_header =
  gh_date :: string
  gh_server :: string
  gh_connection :: string

record entity_header =
  eh_content_type :: string
  eh_content_length :: string
  eh_last_modified :: string

definition general_headers :: "nat \<Rightarrow> general_header res" where
  "general_headers now =
     rbind (get_current_date now) (\<lambda>date.
     rbind (sprintf_to MAX_RESPONSE_LINE_SIZE (''Server: '' @ SERVER @ CRLF)) (\<lambda>server.
     rbind (sprintf_to MAX_RESPONSE_LINE_SIZE (''Connection: close'' @ CRLF)) (\<lambda>connection.
       Inr \<lparr>gh_date = date, gh_server = server, gh_connection = connection\<rparr>)))"

definition send_general_headers :: "web \<Rightarrow> web res" where
  "send_general_headers w =
     rbind (general_headers (wb_now w)) (\<lambda>gen_headers.
       Inr (send_bytes (send_bytes (send_bytes w (gh_date gen_headers)) (gh_server gen_headers))
         (gh_connection gen_headers)))"

definition get_content_type :: "int \<Rightarrow> string res" where
  "get_content_type ft =
     (let type = (if ft = 0 then HTML
                  else if ft = 1 then GRAPHIC_IMAGE
                  else if ft = 2 then GRAPHIC_GIF
                  else CSS)
      in sprintf_to MAX_RESPONSE_LINE_SIZE (''Content-Type: '' @ type @ CRLF))"

definition typed :: "string \<Rightarrow> entity_header" where
  "typed t = \<lparr>eh_content_type = t, eh_content_length = [], eh_last_modified = []\<rparr>"

lemma typed_simps [simp]:
  "eh_content_type (typed t) = t" "eh_content_type (h\<lparr>eh_content_length := l\<rparr>) = eh_content_type h"
  "eh_content_length (h\<lparr>eh_content_length := l\<rparr>) = l"
  by (simp_all add: typed_def)

definition content_length :: "int \<Rightarrow> string res" where
  "content_length n = sprintf_to MAX_RESPONSE_LINE_SIZE (''Content-Length: '' @ show_int n @ CRLF @ CRLF)"

definition status_line :: "request_data \<Rightarrow> string \<Rightarrow> string res" where
  "status_line request status =
     rbind (c_string (rq_protocol request)) (\<lambda>p. sprintf_to MAX_RESPONSE_LINE_SIZE (p @ status @ CRLF))"

definition send_string_as_entity :: "string \<Rightarrow> web \<Rightarrow> web res" where
  "send_string_as_entity body w =
     rbind (sprintf_to MAX_RESPONSE_LINE_SIZE (''Content-Type: '' @ HTML @ CRLF)) (\<lambda>type.
     rbind (content_length (int (length body))) (\<lambda>len.
     let ent_headers = (typed type)\<lparr>eh_content_length := len\<rparr>
     in Inr (send_bytes (send_bytes (send_bytes w (eh_content_type ent_headers))
          (eh_content_length ent_headers)) body)))"

section \<open>Hard-coded responses\<close>

definition simple_page :: "string \<Rightarrow> web \<Rightarrow> web res" where
  "simple_page page w = rbind (sprintf_to BUFFER_SIZE (page @ CRLF)) (\<lambda>buf. Inr (send_bytes w buf))"

definition full_page :: "string \<Rightarrow> string \<Rightarrow> request_data \<Rightarrow> web \<Rightarrow> web res" where
  "full_page status body request w =
     rbind (status_line request status) (\<lambda>line.
     rbind (send_general_headers (send_bytes w line)) (\<lambda>w1.
       send_string_as_entity body w1))"

definition simple_bad_request :: "web \<Rightarrow> web res" where
  "simple_bad_request = simple_page
     ''<html><h1>Client Error 400</h1><p>Server could not understand the request due to malformed syntax.</p></html>''"

definition simple_unauthorized :: "web \<Rightarrow> web res" where
  "simple_unauthorized = simple_page
     ''<html><h1>Client Error 401</h1><p>The request requires user authentication.</p></html>''"

definition simple_forbidden :: "web \<Rightarrow> web res" where
  "simple_forbidden = simple_page
     ''<html><h1>Client Error 403</h1><p>The server refuses to fulfill this request.</p></html>''"

definition simple_not_found :: "web \<Rightarrow> web res" where
  "simple_not_found = simple_page
     ''<html><h1>Client Error 404</h1><p>The server has not found anything matching the Request-URI.</p></html>''"

definition simple_internal_server_error :: "web \<Rightarrow> web res" where
  "simple_internal_server_error = simple_page
     ''<html><h1>Server Error 500</h1><p>Server encountered an unexpected condition which prevented it from fulfilling the request.</p></html>''"

definition simple_not_implemented :: "web \<Rightarrow> web res" where
  "simple_not_implemented = simple_page
     ''<html><h1>Server Error 501</h1><p>Server does not support the functionality required to fulfill the request.</p></html>''"

definition simple_bad_gateway :: "web \<Rightarrow> web res" where
  "simple_bad_gateway = simple_page
     ''<html><h1>Server Error 502</h1><p>Server received an invalid response from an upstream server.</p></html>''"

definition simple_service_unavailable :: "web \<Rightarrow> web res" where
  "simple_service_unavailable = simple_page
     ''<html><h1>Server Error 503</h1><p>Server is temporarily unable to handle the request.</p></html>''"

definition full_bad_request :: "request_data \<Rightarrow> web \<Rightarrow> web res" where
  "full_bad_request = full_page '' 400 Bad Request''
     ''<html><h1>Client Error 400</h1><p>Server could not understand the request due to malformed syntax.</p></html>''"

definition full_unauthorized :: "request_data \<Rightarrow> web \<Rightarrow> web res" where
  "full_unauthorized = full_page '' 401 Unauthorized''
     ''<html><h1>Client Error 401</h1><p>The request requires user authentication.</p></html>''"

definition full_forbidden :: "request_data \<Rightarrow> web \<Rightarrow> web res" where
  "full_forbidden = full_page '' 403 Forbidden''
     ''<html><h1>Client Error 403</h1><p>The server refuses to fulfill this request.</p></html>''"

definition full_not_found :: "request_data \<Rightarrow> web \<Rightarrow> web res" where
  "full_not_found = full_page '' 404 Not Found''
     ''<html><h1>Client Error 404</h1><p>The server has not found anything matching the Request-URI.</p></html>''"

definition full_internal_server_error :: "request_data \<Rightarrow> web \<Rightarrow> web res" where
  "full_internal_server_error = full_page '' 500 Internal Server Error''
     ''<html><h1>Server Error 500</h1><p>Server encountered an unexpected condition which prevented it from fulfilling the request.</p></html>''"

definition full_not_implemented :: "request_data \<Rightarrow> web \<Rightarrow> web res" where
  "full_not_implemented = full_page '' 501 Method Not Implemented''
     ''<html><h1>Server Error 501</h1><p>Server does not support the functionality required to fulfill the request.</p></html>''"

definition full_bad_gateway :: "request_data \<Rightarrow> web \<Rightarrow> web res" where
  "full_bad_gateway = full_page '' 502 Bad Gateway''
     ''<html><h1>Server Error 502</h1><p>Server received an invalid response from an upstream server.</p></html>''"

definition full_service_unavailable :: "request_data \<Rightarrow> web \<Rightarrow> web res" where
  "full_service_unavailable = full_page '' 503 Service Unavailable''
     ''<html><h1>Server Error 503</h1><p>Server is temporarily unable to handle the request.</p></html>''"

section \<open>Files\<close>

definition internal_error :: "bool \<Rightarrow> request_data \<Rightarrow> web \<Rightarrow> web res" where
  "internal_error simple request w =
     (if simple then simple_internal_server_error w else full_internal_server_error request w)"

definition open_file :: "string \<Rightarrow> web \<Rightarrow> (web_file \<times> web) option" where
  "open_file path w =
     (case wb_files w path of
        None \<Rightarrow> None
      | Some f \<Rightarrow> if wf_opens f then Some (f, w\<lparr>wb_fds := wb_fds w + 1\<rparr>) else None)"

text \<open>The headers of an entity: the content type was made before.\<close>

definition send_entity_headers :: "entity_header \<Rightarrow> int \<Rightarrow> bool \<Rightarrow> web \<Rightarrow> web res" where
  "send_entity_headers ent_headers n simple w =
     (if simple then Inr w
      else rbind (content_length n) (\<lambda>len.
        let h = ent_headers\<lparr>eh_content_length := len\<rparr>
        in Inr (send_bytes (send_bytes w (eh_content_type h)) (eh_content_length h))))"

text \<open>\<open>stack\<close> is what the buffer of 8096 bytes holds before the file is read into it.\<close>

definition send_text_file :: "char list \<Rightarrow> entity_header \<Rightarrow> request_data \<Rightarrow> bool \<Rightarrow> web \<Rightarrow> (int \<times> web) res" where
  "send_text_file stack ent_headers request simple w =
     rbind (c_string (rq_abs_path request)) (\<lambda>path.
       case open_file path w of
         None \<Rightarrow> map_res (\<lambda>w1. (- 1, w1))
           (internal_error simple request (log_line (''Unable to open file: '' @ path) w))
       | Some (f, w1) \<Rightarrow>
           (case wf_data f of
              None \<Rightarrow> map_res (\<lambda>w2. (- 1, w2))
                (internal_error simple request (log_line (''Unable to read file: '' @ path) w1))
            | Some d \<Rightarrow>
                let data = take TEXT_ENTITY_BODY_SIZE d; buffer = data @ drop (length data) stack
                in rbind (send_entity_headers ent_headers (int (length data)) simple w1) (\<lambda>w2.
                   rbind (c_string buffer) (\<lambda>body. Inr (0, send_bytes w2 body)))))"

text \<open>The loop of \<open>send_graphics_file\<close> over what \<open>fread\<close> has not delivered.\<close>

function send_chunks :: "string \<Rightarrow> web \<Rightarrow> web" where
  "send_chunks rest w =
     (let buf = take MAX_ENTITY_BODY_SIZE rest
      in if buf = [] then w else send_chunks (drop MAX_ENTITY_BODY_SIZE rest) (send_bytes w buf))"
  by pat_completeness auto
termination
  by (relation "measure (\<lambda>(rest, w). length rest)") auto

declare send_chunks.simps [simp del]

definition send_graphics_file :: "entity_header \<Rightarrow> request_data \<Rightarrow> bool \<Rightarrow> web \<Rightarrow> (int \<times> web) res" where
  "send_graphics_file ent_headers request simple w =
     rbind (c_string (rq_abs_path request)) (\<lambda>path.
       case open_file path w of
         None \<Rightarrow> map_res (\<lambda>w1. (0, w1))
           (internal_error simple request (log_line (''Unable to open file: '' @ path) w))
       | Some (f, w1) \<Rightarrow>
           if wf_end f \<le> 0 then map_res (\<lambda>w2. (- 1, w2))
             (internal_error simple request (log_line (''Unable to read file: '' @ path) w1))
           else rbind (send_entity_headers ent_headers (wf_end f) simple w1) (\<lambda>w2.
             Inr (0, send_chunks (case wf_data f of None \<Rightarrow> [] | Some d \<Rightarrow> d) w2)))"

definition send_file_as_entity :: "char list \<Rightarrow> request_data \<Rightarrow> bool \<Rightarrow> web \<Rightarrow> web res" where
  "send_file_as_entity stack request simple w =
     rbind (get_content_type (rq_file_type request)) (\<lambda>type.
       map_res snd
         (if rq_file_type request \<le> 0 then send_text_file stack (typed type) request simple w
          else send_graphics_file (typed type) request simple w))"

definition simple_ok :: "char list \<Rightarrow> request_data \<Rightarrow> web \<Rightarrow> web res" where
  "simple_ok stack request w = send_file_as_entity stack request True w"

definition full_ok :: "char list \<Rightarrow> request_data \<Rightarrow> web \<Rightarrow> web res" where
  "full_ok stack request w =
     rbind (status_line request '' 200 OK'') (\<lambda>line.
     rbind (send_general_headers (send_bytes w line)) (\<lambda>w1.
       send_file_as_entity stack request False w1))"

section \<open>Reading a response\<close>

text \<open>How a client reads a response: lines up to an empty one, then the body.\<close>

fun cut_line :: "string \<Rightarrow> (string \<times> string) option" where
  "cut_line (c # d # s) =
     (if c = CR \<and> d = LF then Some ([], s) else map_option (\<lambda>(l, r). (c # l, r)) (cut_line (d # s)))"
| "cut_line s = None"

lemma cut_line_shorter: "cut_line s = Some (l, r) \<Longrightarrow> length r < length s"
  by (induction s arbitrary: l rule: cut_line.induct) (fastforce split: if_splits)+

function read_head :: "string \<Rightarrow> (string list \<times> string) option" where
  "read_head s =
     (case cut_line s of
        None \<Rightarrow> None
      | Some (l, r) \<Rightarrow> if l = [] then Some ([], r) else map_option (\<lambda>(ls, b). (l # ls, b)) (read_head r))"
  by pat_completeness auto
termination
  by (relation "measure length") (auto dest: cut_line_shorter)

declare read_head.simps [simp del]

lemma read_head_shorter: "read_head s = Some (ls, b) \<Longrightarrow> length b < length s"
proof (induction s arbitrary: ls rule: read_head.induct)
  case (1 s)
  then obtain l r where c: "cut_line s = Some (l, r)"
    by (subst (asm) (2) read_head.simps) (auto split: option.splits)
  from cut_line_shorter [OF this] have r: "length r < length s" .
  show ?case
  proof (cases "l = []")
    case True
    then show ?thesis using "1.prems" c r by (simp add: read_head.simps [of s])
  next
    case False
    then obtain ks where "read_head r = Some (ks, b)"
      using "1.prems" c by (auto simp: read_head.simps [of s])
    from "1.IH" [OF c refl False this] r show ?thesis by simp
  qed
qed

definition crlf_lines :: "string list \<Rightarrow> string" where
  "crlf_lines ls = concat (map (\<lambda>l. l @ CRLF) ls)"

lemma crlf_lines_simps [simp]:
  "crlf_lines [] = []"
  "crlf_lines (l # ls) = l @ CRLF @ crlf_lines ls"
  by (simp_all add: crlf_lines_def)

lemma cut_line_line: "CR \<notin> set l \<Longrightarrow> cut_line (l @ CR # LF # s) = Some (l, s)"
proof (induction l)
  case (Cons c l)
  then show ?case by (cases l) auto
qed simp

lemma read_head_lines:
  "\<forall>l \<in> set ls. l \<noteq> [] \<and> CR \<notin> set l \<Longrightarrow> read_head (crlf_lines ls @ CRLF @ b) = Some (ls, b)"
proof (induction ls)
  case Nil
  then show ?case by (simp add: read_head.simps)
next
  case (Cons l ls)
  then have "cut_line (crlf_lines (l # ls) @ CRLF @ b) = Some (l, crlf_lines ls @ CRLF @ b)"
    using cut_line_line [of l "crlf_lines ls @ CRLF @ b"] by simp
  then show ?case using Cons by (subst read_head.simps) simp
qed

section \<open>Sending\<close>

lemma send_bytes_append [simp]: "send_bytes (send_bytes w s) t = send_bytes w (s @ t)"
  by (simp add: send_bytes_def)

lemma send_bytes_select [simp]:
  "wb_files (send_bytes w s) = wb_files w" "wb_now (send_bytes w s) = wb_now w"
  "wb_out (send_bytes w s) = wb_out w @ s" "wb_log (send_bytes w s) = wb_log w"
  "wb_access (send_bytes w s) = wb_access w" "wb_fds (send_bytes w s) = wb_fds w"
  "wb_closed (send_bytes w s) = wb_closed w"
  by (simp_all add: send_bytes_def)

lemma log_line_select [simp]:
  "wb_files (log_line s w) = wb_files w" "wb_now (log_line s w) = wb_now w"
  "wb_out (log_line s w) = wb_out w" "wb_fds (log_line s w) = wb_fds w"
  "wb_access (log_line s w) = wb_access w" "wb_closed (log_line s w) = wb_closed w"
  by (simp_all add: log_line_def)

text \<open>Times before the year 9994, in which the date has its 29 characters.\<close>

abbreviation TIME_LIMIT :: nat where "TIME_LIMIT \<equiv> 253234080000"

definition date_now :: "web \<Rightarrow> string" where
  "date_now w = http_date (gmtime (wb_now w))"

lemma date_now_select [simp]:
  "date_now (send_bytes w s) = date_now w" "date_now (log_line s w) = date_now w"
  by (simp_all add: date_now_def)

lemma date_now_line:
  assumes "wb_now w < TIME_LIMIT"
  shows "get_current_date (wb_now w) = Inr (''Date: '' @ date_now w @ CRLF)" and "CR \<notin> set (date_now w)"
proof -
  obtain d where d: "get_current_date (wb_now w) = Inr (''Date: '' @ d @ CRLF)" "CR \<notin> set d"
    using current_date_line [OF assms] by blast
  then have "d = date_now w" by (simp add: get_current_date_def date_line_def date_now_def Let_def split: if_splits)
  with d show "get_current_date (wb_now w) = Inr (''Date: '' @ date_now w @ CRLF)" "CR \<notin> set (date_now w)" by auto
qed

definition general_lines :: "web \<Rightarrow> string list" where
  "general_lines w = [''Date: '' @ date_now w, ''Server: ServiceAce'', ''Connection: close'']"

lemma send_general_headers_lines:
  assumes "wb_now w < TIME_LIMIT"
  shows "send_general_headers w = Inr (send_bytes w (crlf_lines (general_lines w)))"
  by (simp add: send_general_headers_def general_headers_def date_now_line(1) [OF assms] sprintf_to_def general_lines_def)

text \<open>A request whose protocol can be copied into a status line.\<close>

definition protocol_ok :: "request_data \<Rightarrow> bool" where
  "protocol_ok r \<longleftrightarrow> length (rq_protocol r) = MAX_STRING_LENGTH \<and> NUL \<in> set (rq_protocol r)
     \<and> CR \<notin> set (cstr (rq_protocol r))"

definition protocol_of :: "request_data \<Rightarrow> string" where
  "protocol_of r = cstr (rq_protocol r)"

lemma status_line_ok:
  assumes "protocol_ok r" and "length status < 200"
  shows "status_line r status = Inr (protocol_of r @ status @ CRLF)"
proof -
  have "length (cstr (rq_protocol r)) < 255" using assms(1) cstr_length_nul [of "rq_protocol r"]
    by (simp add: protocol_ok_def)
  then show ?thesis using assms
    by (simp add: status_line_def c_string_def protocol_ok_def protocol_of_def sprintf_to_def)
qed

lemma content_length_nat:
  assumes "n < 10 ^ 100"
  shows "content_length (int n) = Inr (''Content-Length: '' @ show_nat n @ CRLF @ CRLF)"
  using length_show_nat [OF assms] by (simp add: content_length_def sprintf_to_def show_int_def)

text \<open>The lines of a full response in front of its body of \<open>n\<close> bytes.\<close>

definition full_head :: "web \<Rightarrow> request_data \<Rightarrow> string \<Rightarrow> string \<Rightarrow> nat \<Rightarrow> string list" where
  "full_head w r status type n =
     (protocol_of r @ status) # general_lines w
       @ [''Content-Type: '' @ type, ''Content-Length: '' @ show_nat n]"

definition framed :: "string list \<Rightarrow> string \<Rightarrow> string" where
  "framed head body = crlf_lines head @ CRLF @ body"

definition line_ok :: "string \<Rightarrow> bool" where
  "line_ok l \<longleftrightarrow> l \<noteq> [] \<and> CR \<notin> set l"

lemma full_head_lines:
  assumes "protocol_ok r" and "wb_now w < TIME_LIMIT" and "line_ok status" and "CR \<notin> set type"
  shows "read_head (framed (full_head w r status type n) b) = Some (full_head w r status type n, b)"
  unfolding framed_def using assms no_CR [of n] date_now_line(2) [OF assms(2)]
  by (intro read_head_lines)
    (auto simp: full_head_def general_lines_def line_ok_def protocol_ok_def protocol_of_def)

lemma crlf_lines_append: "crlf_lines (ls @ ks) = crlf_lines ls @ crlf_lines ks"
  by (simp add: crlf_lines_def)

text \<open>Bodies shorter than this have a length that fits its line.\<close>

abbreviation BODY_LIMIT :: nat where "BODY_LIMIT \<equiv> 10 ^ 100"

lemma full_page_sends:
  assumes "protocol_ok r" and "wb_now w < TIME_LIMIT" and "length status < 200" and "length page < BODY_LIMIT"
  shows "full_page status page r w
    = Inr (send_bytes w (framed (full_head w r status ''text/html'' (length page)) page))"
  using status_line_ok [OF assms(1,3)] content_length_nat [OF assms(4)] assms(2)
  by (simp add: full_page_def send_string_as_entity_def send_general_headers_lines sprintf_to_def
      full_head_def framed_def crlf_lines_append general_lines_def)

section \<open>The contract of the hard-coded responses\<close>

text \<open>
  A status has two responses: the simple one is the page alone, the full one frames the same
  page with a status line and headers.
\<close>

locale error_response =
  fixes simple_response :: "web \<Rightarrow> web res"
    and full_response :: "request_data \<Rightarrow> web \<Rightarrow> web res"
    and status :: string
    and page :: string
  assumes simple_law: "simple_response w = Inr (send_bytes w (page @ CRLF))"
    and full_law: "protocol_ok r \<Longrightarrow> wb_now w < TIME_LIMIT \<Longrightarrow> full_response r w
      = Inr (send_bytes w (framed (full_head w r status ''text/html'' (length page)) page))"
    and status_law: "line_ok status"
begin

lemma framed_page:
  assumes "protocol_ok r" and "wb_now w < TIME_LIMIT"
  shows "\<exists>s. full_response r w = Inr (send_bytes w s)
    \<and> read_head s = Some (full_head w r status ''text/html'' (length page), page)"
  using full_law [OF assms] full_head_lines [OF assms status_law, of "''text/html''"]
  by (intro exI conjI) simp_all

lemma both_responses:
  assumes "protocol_ok r" and "wb_now w < TIME_LIMIT"
  shows "\<exists>body s. simple_response w = Inr (send_bytes w (body @ CRLF))
    \<and> full_response r w = Inr (send_bytes w s)
    \<and> read_head s = Some (full_head w r status ''text/html'' (length body), body)"
  using framed_page [OF assms] simple_law by blast

end

lemmas page_simps = simple_page_def full_page_sends sprintf_to_def line_ok_def

interpretation bad_request: error_response simple_bad_request full_bad_request "'' 400 Bad Request''"
  "''<html><h1>Client Error 400</h1><p>Server could not understand the request due to malformed syntax.</p></html>''"
  by unfold_locales (simp_all add: page_simps simple_bad_request_def full_bad_request_def)

interpretation unauthorized: error_response simple_unauthorized full_unauthorized "'' 401 Unauthorized''"
  "''<html><h1>Client Error 401</h1><p>The request requires user authentication.</p></html>''"
  by unfold_locales (simp_all add: page_simps simple_unauthorized_def full_unauthorized_def)

interpretation forbidden: error_response simple_forbidden full_forbidden "'' 403 Forbidden''"
  "''<html><h1>Client Error 403</h1><p>The server refuses to fulfill this request.</p></html>''"
  by unfold_locales (simp_all add: page_simps simple_forbidden_def full_forbidden_def)

interpretation not_found: error_response simple_not_found full_not_found "'' 404 Not Found''"
  "''<html><h1>Client Error 404</h1><p>The server has not found anything matching the Request-URI.</p></html>''"
  by unfold_locales (simp_all add: page_simps simple_not_found_def full_not_found_def)

interpretation internal_server_error: error_response simple_internal_server_error full_internal_server_error
  "'' 500 Internal Server Error''"
  "''<html><h1>Server Error 500</h1><p>Server encountered an unexpected condition which prevented it from fulfilling the request.</p></html>''"
  by unfold_locales (simp_all add: page_simps simple_internal_server_error_def full_internal_server_error_def)

interpretation not_implemented: error_response simple_not_implemented full_not_implemented
  "'' 501 Method Not Implemented''"
  "''<html><h1>Server Error 501</h1><p>Server does not support the functionality required to fulfill the request.</p></html>''"
  by unfold_locales (simp_all add: page_simps simple_not_implemented_def full_not_implemented_def)

interpretation bad_gateway: error_response simple_bad_gateway full_bad_gateway "'' 502 Bad Gateway''"
  "''<html><h1>Server Error 502</h1><p>Server received an invalid response from an upstream server.</p></html>''"
  by unfold_locales (simp_all add: page_simps simple_bad_gateway_def full_bad_gateway_def)

interpretation service_unavailable: error_response simple_service_unavailable full_service_unavailable
  "'' 503 Service Unavailable''"
  "''<html><h1>Server Error 503</h1><p>Server is temporarily unable to handle the request.</p></html>''"
  by unfold_locales (simp_all add: page_simps simple_service_unavailable_def full_service_unavailable_def)

text \<open>The statuses with their two responses.\<close>

definition error_table :: "((web \<Rightarrow> web res) \<times> (request_data \<Rightarrow> web \<Rightarrow> web res) \<times> string) list" where
  "error_table =
     [(simple_bad_request, full_bad_request, '' 400 Bad Request''),
      (simple_unauthorized, full_unauthorized, '' 401 Unauthorized''),
      (simple_forbidden, full_forbidden, '' 403 Forbidden''),
      (simple_not_found, full_not_found, '' 404 Not Found''),
      (simple_internal_server_error, full_internal_server_error, '' 500 Internal Server Error''),
      (simple_not_implemented, full_not_implemented, '' 501 Method Not Implemented''),
      (simple_bad_gateway, full_bad_gateway, '' 502 Bad Gateway''),
      (simple_service_unavailable, full_service_unavailable, '' 503 Service Unavailable'')]"

section \<open>File responses\<close>

text \<open>The type that is named for the number of a file type.\<close>

definition mime :: "int \<Rightarrow> string" where
  "mime ft = (if ft = 0 then ''text/html'' else if ft = 1 then ''image/jpeg''
     else if ft = 2 then ''image/gif'' else ''text/css'')"

lemma mime_no_CR: "CR \<notin> set (mime ft)"
  by (simp add: mime_def)

lemma get_content_type_mime: "get_content_type ft = Inr (''Content-Type: '' @ mime ft @ CRLF)"
  by (simp add: get_content_type_def mime_def sprintf_to_def Let_def)

text \<open>The world in which the file of the response stays open.\<close>

definition opened :: "web \<Rightarrow> web" where
  "opened w = w\<lparr>wb_fds := wb_fds w + 1\<rparr>"

lemma opened_send: "opened (send_bytes w s) = send_bytes (opened w) s"
  by (simp add: opened_def send_bytes_def)

lemma open_file_regular:
  "wb_files w path = Some (regular d) \<Longrightarrow> open_file path w = Some (regular d, opened w)"
  by (simp add: open_file_def regular_def opened_def)

lemma send_entity_headers_lines:
  "n < BODY_LIMIT \<Longrightarrow> send_entity_headers (typed (''Content-Type: '' @ t @ CRLF)) (int n) False w =
    Inr (send_bytes w (crlf_lines [''Content-Type: '' @ t, ''Content-Length: '' @ show_nat n] @ CRLF))"
  by (simp add: send_entity_headers_def content_length_nat)

lemma send_chunks_all: "send_chunks rest w = send_bytes w rest"
proof (induction rest w rule: send_chunks.induct)
  case (1 rest w)
  show ?case
  proof (cases "rest = []")
    case True
    then show ?thesis by (simp add: send_chunks.simps send_bytes_def)
  next
    case False
    then show ?thesis using 1 by (subst send_chunks.simps) simp
  qed
qed

text \<open>The array a text file is sent from.\<close>

definition text_buffer :: "char list \<Rightarrow> string \<Rightarrow> char list" where
  "text_buffer stack d =
     (let data = take TEXT_ENTITY_BODY_SIZE d in data @ drop (length data) stack)"

lemma send_text_file_regular:
  assumes "c_string (rq_abs_path r) = Inr path" and "wb_files w path = Some (regular d)"
  shows "send_text_file stack (typed (''Content-Type: '' @ t @ CRLF)) r False w =
    (if NUL \<notin> set (text_buffer stack d) then undef Out_Of_Bounds
     else Inr (0, send_bytes (opened w)
       (framed [''Content-Type: '' @ t, ''Content-Length: '' @ show_nat (min TEXT_ENTITY_BODY_SIZE (length d))]
          (cstr (text_buffer stack d)))))"
proof -
  let ?n = "min TEXT_ENTITY_BODY_SIZE (length d)"
  have "(8096 :: nat) < BODY_LIMIT" by simp
  then have n: "?n < BODY_LIMIT" by linarith
  have l: "int (length (take TEXT_ENTITY_BODY_SIZE d)) = int ?n" by (simp add: min.commute)
  have buf: "take TEXT_ENTITY_BODY_SIZE d @ drop (length (take TEXT_ENTITY_BODY_SIZE d)) stack = text_buffer stack d"
    by (simp add: text_buffer_def Let_def)
  have "send_text_file stack (typed (''Content-Type: '' @ t @ CRLF)) r False w =
      rbind (send_entity_headers (typed (''Content-Type: '' @ t @ CRLF)) (int ?n) False (opened w)) (\<lambda>w2.
        rbind (c_string (text_buffer stack d)) (\<lambda>body. Inr (0, send_bytes w2 body)))"
    using open_file_regular [OF assms(2)] assms(1) unfolding send_text_file_def Let_def
    by (simp only: rbind.simps option.case prod.case regular_def web_file.select_convs buf l)
  then show ?thesis
    by (simp add: send_entity_headers_lines [OF n, simplified] c_string_def [of "text_buffer stack d"] framed_def)
qed

lemma send_graphics_file_regular:
  assumes "c_string (rq_abs_path r) = Inr path" and "wb_files w path = Some (regular d)"
    and "d \<noteq> []" and "length d < 2 ^ 63"
  shows "send_graphics_file (typed (''Content-Type: '' @ t @ CRLF)) r False w =
    Inr (0, send_bytes (opened w)
       (framed [''Content-Type: '' @ t, ''Content-Length: '' @ show_nat (length d)] d))"
proof -
  have "(2 :: nat) ^ 63 < BODY_LIMIT" by simp
  with assms(4) have n: "length d < BODY_LIMIT" by linarith
  have "\<not> wf_end (regular d) \<le> 0" using assms(3) by (simp add: regular_def)
  then have "send_graphics_file (typed (''Content-Type: '' @ t @ CRLF)) r False w =
      rbind (send_entity_headers (typed (''Content-Type: '' @ t @ CRLF)) (int (length d)) False (opened w)) (\<lambda>w2.
        Inr (0, send_chunks d w2))"
    using open_file_regular [OF assms(2)] assms(1) unfolding send_graphics_file_def
    by (simp only: rbind.simps option.case prod.case regular_def web_file.select_convs if_False)
  then show ?thesis
    by (simp add: send_entity_headers_lines [OF n, simplified] send_chunks_all framed_def)
qed

lemma full_ok_start:
  assumes "protocol_ok r" and "wb_now w < TIME_LIMIT"
  shows "full_ok stack r w = send_file_as_entity stack r False
    (send_bytes w (crlf_lines ((protocol_of r @ '' 200 OK'') # general_lines w)))"
  using status_line_ok [OF assms(1), of "'' 200 OK''"] assms(2)
  by (simp add: full_ok_def send_general_headers_lines general_lines_def)

lemma full_head_split:
  "crlf_lines ((protocol_of r @ status) # general_lines w)
     @ framed [''Content-Type: '' @ t, ''Content-Length: '' @ show_nat n] b
   = framed (full_head w r status t n) b"
  by (simp add: framed_def full_head_def crlf_lines_append)

text \<open>A request for the file of an existing path, before its response.\<close>

definition asks_for :: "request_data \<Rightarrow> string \<Rightarrow> web \<Rightarrow> bool" where
  "asks_for r path w \<longleftrightarrow> protocol_ok r \<and> wb_now w < TIME_LIMIT \<and> c_string (rq_abs_path r) = Inr path"

lemma full_ok_text:
  assumes "asks_for r path w" and "wb_files w path = Some (regular d)" and "rq_file_type r \<le> 0"
  shows "full_ok stack r w =
    (if NUL \<notin> set (text_buffer stack d) then undef Out_Of_Bounds
     else Inr (send_bytes (opened w)
       (framed (full_head w r '' 200 OK'' (mime (rq_file_type r)) (min TEXT_ENTITY_BODY_SIZE (length d)))
          (cstr (text_buffer stack d)))))"
proof -
  let ?h = "crlf_lines ((protocol_of r @ '' 200 OK'') # general_lines w)"
  have f: "wb_files (send_bytes w ?h) path = Some (regular d)" using assms(2) by simp
  have p: "c_string (rq_abs_path r) = Inr path" using assms(1) by (simp add: asks_for_def)
  have "full_ok stack r w = map_res snd
      (send_text_file stack (typed (''Content-Type: '' @ mime (rq_file_type r) @ CRLF)) r False (send_bytes w ?h))"
    using assms(1,3) full_ok_start [of r w stack]
    by (simp add: asks_for_def send_file_as_entity_def get_content_type_mime)
  also have "\<dots> = (if NUL \<notin> set (text_buffer stack d) then undef Out_Of_Bounds
     else Inr (send_bytes (opened w) (?h @ framed [''Content-Type: '' @ mime (rq_file_type r),
       ''Content-Length: '' @ show_nat (min TEXT_ENTITY_BODY_SIZE (length d))] (cstr (text_buffer stack d)))))"
    unfolding send_text_file_regular [OF p f] by (simp add: opened_send del: crlf_lines_simps)
  finally show ?thesis unfolding full_head_split .
qed

lemma full_ok_graphics:
  assumes "asks_for r path w" and "wb_files w path = Some (regular d)" and "rq_file_type r \<in> {1, 2}"
    and "d \<noteq> []" and "length d < 2 ^ 63"
  shows "full_ok stack r w = Inr (send_bytes (opened w)
    (framed (full_head w r '' 200 OK'' (mime (rq_file_type r)) (length d)) d))"
proof -
  let ?h = "crlf_lines ((protocol_of r @ '' 200 OK'') # general_lines w)"
  have f: "wb_files (send_bytes w ?h) path = Some (regular d)" using assms(2) by simp
  have p: "c_string (rq_abs_path r) = Inr path" using assms(1) by (simp add: asks_for_def)
  have "full_ok stack r w = map_res snd
      (send_graphics_file (typed (''Content-Type: '' @ mime (rq_file_type r) @ CRLF)) r False (send_bytes w ?h))"
    using assms(1,3) full_ok_start [of r w stack]
    by (auto simp: asks_for_def send_file_as_entity_def get_content_type_mime)
  also have "\<dots> = Inr (send_bytes (opened w) (?h @ framed [''Content-Type: '' @ mime (rq_file_type r),
       ''Content-Length: '' @ show_nat (length d)] d))"
    unfolding send_graphics_file_regular [OF p f assms(4,5)] by (simp add: opened_send del: crlf_lines_simps)
  finally show ?thesis unfolding full_head_split .
qed

lemma full_ok_unopened:
  assumes "asks_for r path w" and "wb_files w path = Some f" and "\<not> wf_opens f"
  shows "full_ok stack r w = full_internal_server_error r (log_line (''Unable to open file: '' @ path)
    (send_bytes w (crlf_lines ((protocol_of r @ '' 200 OK'') # general_lines w))))"
proof -
  let ?w = "send_bytes w (crlf_lines ((protocol_of r @ '' 200 OK'') # general_lines w))"
  have o: "open_file path ?w = None" using assms(2,3) by (simp add: open_file_def)
  have p: "c_string (rq_abs_path r) = Inr path" using assms(1) by (simp add: asks_for_def)
  have snd_id: "map_res snd (map_res (Pair k) x) = x" for k :: int and x :: "web res" by (cases x) simp_all
  have "full_ok stack r w = send_file_as_entity stack r False ?w"
    using assms(1) full_ok_start [of r w stack] by (simp add: asks_for_def)
  also have "\<dots> = full_internal_server_error r (log_line (''Unable to open file: '' @ path) ?w)"
    unfolding send_file_as_entity_def send_text_file_def send_graphics_file_def get_content_type_mime p
    by (cases "rq_file_type r \<le> 0")
      (simp_all only: rbind.simps o option.case internal_error_def if_True if_False snd_id not_True_eq_False)
  finally show ?thesis .
qed

lemma full_ok_empty:
  assumes "asks_for r path w" and "wb_files w path = Some (regular [])" and "rq_file_type r \<in> {1, 2}"
  shows "full_ok stack r w = full_internal_server_error r (log_line (''Unable to read file: '' @ path)
    (send_bytes (opened w) (crlf_lines ((protocol_of r @ '' 200 OK'') # general_lines w))))"
proof -
  let ?w = "send_bytes w (crlf_lines ((protocol_of r @ '' 200 OK'') # general_lines w))"
  have o: "open_file path ?w = Some (regular [], opened ?w)"
    using assms(2) by (intro open_file_regular) simp
  have p: "c_string (rq_abs_path r) = Inr path" using assms(1) by (simp add: asks_for_def)
  have snd_id: "map_res snd (map_res (Pair k) x) = x" for k :: int and x :: "web res" by (cases x) simp_all
  have size: "(wf_end (regular []) \<le> 0) = True" by (simp add: regular_def)
  have ft: "(rq_file_type r \<le> 0) = False" using assms(3) by auto
  have "full_ok stack r w = send_file_as_entity stack r False ?w"
    using assms(1) full_ok_start [of r w stack] by (simp add: asks_for_def)
  also have "\<dots> = full_internal_server_error r (log_line (''Unable to read file: '' @ path) (opened ?w))"
    unfolding send_file_as_entity_def send_graphics_file_def get_content_type_mime p ft
    by (simp only: rbind.simps o option.case prod.case size internal_error_def if_True if_False snd_id)
  finally show ?thesis by (simp only: opened_send)
qed

text \<open>A 500 response behind the line of the 200 response and its general headers.\<close>

lemma two_heads:
  assumes r: "protocol_ok r" "wb_now w < TIME_LIMIT"
    and ok: "full_ok stack r w = full_internal_server_error r (log_line msg
      (send_bytes v (crlf_lines ((protocol_of r @ '' 200 OK'') # general_lines w))))"
    and v: "wb_now v = wb_now w"
  shows "\<exists>page s. full_ok stack r w = Inr (send_bytes (log_line msg v) s)
    \<and> read_head s = Some (((protocol_of r @ '' 200 OK'') # general_lines w)
        @ full_head w r '' 500 Internal Server Error'' ''text/html'' (length page), page)"
proof -
  let ?h = "(protocol_of r @ '' 200 OK'') # general_lines w"
  let ?k = "\<lambda>page. full_head w r '' 500 Internal Server Error'' ''text/html'' (length page)"
  have heads: "general_lines (log_line msg (send_bytes v s)) = general_lines w"
    "full_head (log_line msg (send_bytes v s)) r st t n = full_head w r st t n" for s st t n
    using v by (simp_all add: general_lines_def full_head_def date_now_def)
  have logs: "send_bytes (log_line msg (send_bytes v s)) u = send_bytes (log_line msg v) (s @ u)" for s u
    by (simp add: send_bytes_def log_line_def)
  have now: "wb_now (log_line msg (send_bytes v (crlf_lines ?h))) < TIME_LIMIT" using r(2) v by simp
  obtain page where page: "full_internal_server_error r (log_line msg (send_bytes v (crlf_lines ?h)))
      = Inr (send_bytes (log_line msg (send_bytes v (crlf_lines ?h))) (framed (?k page) page))"
    using internal_server_error.full_law [OF r(1) now, unfolded heads] by (rule that)
  have "full_ok stack r w = Inr (send_bytes (log_line msg v) (framed (?h @ ?k page) page))"
    unfolding ok page logs by (simp add: framed_def crlf_lines_append)
  moreover have "read_head (framed (?h @ ?k page) page) = Some (?h @ ?k page, page)"
    unfolding framed_def using r date_now_line(2) [OF r(2)] no_CR [of "length page"]
    by (intro read_head_lines)
      (auto simp: full_head_def general_lines_def protocol_ok_def protocol_of_def)
  ultimately show ?thesis by blast
qed

text \<open>A short text file in the buffer, with a zero behind it.\<close>

lemma text_buffer_short:
  assumes "length d < TEXT_ENTITY_BODY_SIZE" and "length stack = TEXT_ENTITY_BODY_SIZE" and "stack ! length d = NUL"
  shows "text_buffer stack d = d @ NUL # drop (Suc (length d)) stack"
proof -
  have "drop (length d) stack = NUL # drop (Suc (length d)) stack"
    using assms by (metis Cons_nth_drop_Suc)
  then show ?thesis using assms(1) by (simp add: text_buffer_def)
qed

text \<open>The simple responses send the body alone.\<close>

lemma simple_ok_text:
  assumes "c_string (rq_abs_path r) = Inr path" and "wb_files w path = Some (regular d)" and "rq_file_type r \<le> 0"
  shows "simple_ok stack r w = (if NUL \<notin> set (text_buffer stack d) then undef Out_Of_Bounds
    else Inr (send_bytes (opened w) (cstr (text_buffer stack d))))"
proof -
  have buf: "take TEXT_ENTITY_BODY_SIZE d @ drop (length (take TEXT_ENTITY_BODY_SIZE d)) stack = text_buffer stack d"
    by (simp add: text_buffer_def Let_def)
  have "send_text_file stack (typed (''Content-Type: '' @ mime (rq_file_type r) @ CRLF)) r True w =
      rbind (c_string (text_buffer stack d)) (\<lambda>body. Inr (0, send_bytes (opened w) body))"
    using open_file_regular [OF assms(2)] assms(1) unfolding send_text_file_def Let_def send_entity_headers_def
    by (simp only: rbind.simps option.case prod.case regular_def web_file.select_convs buf if_True)
  then show ?thesis using assms(3)
    by (simp add: simple_ok_def send_file_as_entity_def get_content_type_mime c_string_def [of "text_buffer stack d"])
qed

lemma simple_ok_graphics:
  assumes "c_string (rq_abs_path r) = Inr path" and "wb_files w path = Some (regular d)"
    and "rq_file_type r \<in> {1, 2}" and "d \<noteq> []"
  shows "simple_ok stack r w = Inr (send_bytes (opened w) d)"
proof -
  have "\<not> wf_end (regular d) \<le> 0" using assms(4) by (simp add: regular_def)
  then have "send_graphics_file (typed (''Content-Type: '' @ mime (rq_file_type r) @ CRLF)) r True w =
      Inr (0, send_chunks d (opened w))"
    using open_file_regular [OF assms(2)] assms(1) unfolding send_graphics_file_def send_entity_headers_def
    by (simp only: rbind.simps option.case prod.case regular_def web_file.select_convs if_False if_True)
  then show ?thesis using assms(3)
    by (auto simp: simple_ok_def send_file_as_entity_def get_content_type_mime send_chunks_all)
qed

section \<open>Properties\<close>

text \<open>A world and a request for the witnesses.\<close>

definition sample_web :: "string \<Rightarrow> web_file \<Rightarrow> web" where
  "sample_web path f = \<lparr>wb_files = [path \<mapsto> f], wb_now = 784111777, wb_out = [], wb_log = [],
     wb_access = [], wb_fds = 0, wb_closed = False\<rparr>"

definition sample_request :: "string \<Rightarrow> int \<Rightarrow> request_data" where
  "sample_request path ft = blank_request\<lparr>rq_abs_path := over_nul path (replicate 255 NUL),
     rq_protocol := over_nul ''HTTP/1.0'' (replicate 255 NUL), rq_file_type := ft\<rparr>"

lemma sample_protocol: "protocol_ok (sample_request path ft)" "protocol_of (sample_request path ft) = ''HTTP/1.0''"
  using cstr_stop [of "''HTTP/1.0''"]
  by (simp_all add: protocol_ok_def protocol_of_def sample_request_def over_nul_def)

lemma sample_asks:
  "NUL \<notin> set path \<Longrightarrow> asks_for (sample_request path ft) path (sample_web path f)"
  using sample_protocol(1) [of path ft] by (simp add: asks_for_def sample_web_def) (simp add: sample_request_def)

lemma sample_select [simp]:
  "wb_files (sample_web path f) path = Some f" "rq_file_type (sample_request path ft) = ft"
  by (simp_all add: sample_web_def sample_request_def)

text \<open>
  Each of the eight error statuses has one page, which its simple response sends alone and
  its full response behind a status line, the general headers, the content type and a
  Content-Length that is the length of the page: a client that reads to the empty line finds
  the page exactly.
\<close>

theorem error_responses_framed:
  assumes "(simple_response, full_response, status) \<in> set error_table"
    and "protocol_ok r" and "wb_now w < TIME_LIMIT"
  shows "\<exists>page s. simple_response w = Inr (send_bytes w (page @ CRLF))
    \<and> full_response r w = Inr (send_bytes w s)
    \<and> read_head s = Some (full_head w r status ''text/html'' (length page), page)"
proof -
  note laws = bad_request.both_responses unauthorized.both_responses forbidden.both_responses
    not_found.both_responses internal_server_error.both_responses not_implemented.both_responses
    bad_gateway.both_responses service_unavailable.both_responses
  have "\<forall>(simple_response, full_response, status) \<in> set error_table.
      \<exists>page s. simple_response w = Inr (send_bytes w (page @ CRLF))
        \<and> full_response r w = Inr (send_bytes w s)
        \<and> read_head s = Some (full_head w r status ''text/html'' (length page), page)"
    unfolding error_table_def list.set ball_simps(5,7) prod.case
    by (intro conjI TrueI laws [OF assms(2,3)])
  then show ?thesis using assms(1) by blast
qed

theorem error_responses_framed_witness:
  "\<exists>page s. simple_not_found (sample_web ''/a'' (regular ''x'')) = Inr (send_bytes (sample_web ''/a'' (regular ''x'')) (page @ CRLF))
    \<and> full_not_found (sample_request ''/b'' 0) (sample_web ''/a'' (regular ''x''))
        = Inr (send_bytes (sample_web ''/a'' (regular ''x'')) s)
    \<and> read_head s = Some (full_head (sample_web ''/a'' (regular ''x'')) (sample_request ''/b'' 0)
        '' 404 Not Found'' ''text/html'' (length page), page)"
  by (rule error_responses_framed [OF _ sample_protocol(1)]) (simp_all add: error_table_def sample_web_def)

lemma full_ok_text_exact:
  assumes "asks_for r path w" and "wb_files w path = Some (regular d)" and "rq_file_type r \<le> 0"
    and "NUL \<notin> set d" and "length d < TEXT_ENTITY_BODY_SIZE" and "length stack = TEXT_ENTITY_BODY_SIZE"
    and "stack ! length d = NUL"
  shows "\<exists>s. full_ok stack r w = Inr (send_bytes (opened w) s)
    \<and> read_head s = Some (full_head w r '' 200 OK'' (mime (rq_file_type r)) (length d), d)"
proof -
  note b = text_buffer_short [OF assms(5-7)]
  have "read_head (framed (full_head w r '' 200 OK'' (mime (rq_file_type r)) (length d)) d)
      = Some (full_head w r '' 200 OK'' (mime (rq_file_type r)) (length d), d)"
    using assms(1) by (intro full_head_lines) (simp_all add: asks_for_def line_ok_def mime_no_CR)
  moreover have "full_ok stack r w = Inr (send_bytes (opened w)
      (framed (full_head w r '' 200 OK'' (mime (rq_file_type r)) (length d)) d))"
    using full_ok_text [OF assms(1-3), of stack] assms(5) cstr_stop [OF assms(4)] by (simp add: b)
  ultimately show ?thesis by blast
qed

text \<open>
  A text file shorter than 8096 bytes and without NUL bytes is sent as it is, with its
  length and type named, when the byte behind it in the buffer happens to be zero: the code
  measures the buffer with \<open>strlen\<close> and does not terminate it. The file stays open.
\<close>

theorem text_file_exact:
  assumes "asks_for r path w" and "wb_files w path = Some (regular d)" and "rq_file_type r \<le> 0"
    and "NUL \<notin> set d" and "length d < TEXT_ENTITY_BODY_SIZE" and "length stack = TEXT_ENTITY_BODY_SIZE"
    and "stack ! length d = NUL"
  shows "\<exists>s. full_ok stack r w = Inr (send_bytes (opened w) s)
    \<and> read_head s = Some (full_head w r '' 200 OK'' (mime (rq_file_type r)) (length d), d)"
  using assms by (rule full_ok_text_exact)

theorem text_file_exact_witness:
  "\<exists>s. full_ok (replicate 8096 NUL) (sample_request ''/srv/a.html'' 0) (sample_web ''/srv/a.html'' (regular ''<p>hi</p>''))
      = Inr (send_bytes (opened (sample_web ''/srv/a.html'' (regular ''<p>hi</p>''))) s)
    \<and> read_head s = Some (full_head (sample_web ''/srv/a.html'' (regular ''<p>hi</p>''))
        (sample_request ''/srv/a.html'' 0) '' 200 OK'' (mime 0) (length ''<p>hi</p>''), ''<p>hi</p>'')"
  using text_file_exact [OF sample_asks [of "''/srv/a.html''" 0 "regular ''<p>hi</p>''"], of "''<p>hi</p>''" "replicate 8096 NUL"]
  by simp

text \<open>
  A text file of 8096 bytes or more without a NUL byte among the first 8096 makes the server
  read beyond its buffer; a text file with a NUL byte is announced with its whole length and
  sent only up to that byte.
\<close>

theorem text_file_limits:
  assumes "asks_for r path w" and "wb_files w path = Some (regular d)" and "rq_file_type r \<le> 0"
    and "length stack = TEXT_ENTITY_BODY_SIZE"
  shows "(TEXT_ENTITY_BODY_SIZE \<le> length d \<and> NUL \<notin> set (take TEXT_ENTITY_BODY_SIZE d)
      \<longrightarrow> full_ok stack r w = undef Out_Of_Bounds)
    \<and> (d = a @ NUL # b \<and> NUL \<notin> set a \<and> length d \<le> TEXT_ENTITY_BODY_SIZE
      \<longrightarrow> (\<exists>s. full_ok stack r w = Inr (send_bytes (opened w) s)
        \<and> read_head s = Some (full_head w r '' 200 OK'' (mime (rq_file_type r)) (length d), a)))"
proof (intro conjI impI; elim conjE)
  assume "TEXT_ENTITY_BODY_SIZE \<le> length d" and "NUL \<notin> set (take TEXT_ENTITY_BODY_SIZE d)"
  then show "full_ok stack r w = undef Out_Of_Bounds"
    using full_ok_text [OF assms(1-3), of stack] assms(4) by (simp add: text_buffer_def Let_def)
next
  assume d: "d = a @ NUL # b" "NUL \<notin> set a" "length d \<le> TEXT_ENTITY_BODY_SIZE"
  then have "text_buffer stack d = a @ NUL # b @ drop (length d) stack"
    by (simp add: text_buffer_def Let_def)
  then have "full_ok stack r w = Inr (send_bytes (opened w)
      (framed (full_head w r '' 200 OK'' (mime (rq_file_type r)) (length d)) a))"
    using full_ok_text [OF assms(1-3), of stack] cstr_stop [OF d(2)] d(3) by (simp add: min_def)
  moreover have "read_head (framed (full_head w r '' 200 OK'' (mime (rq_file_type r)) (length d)) a)
      = Some (full_head w r '' 200 OK'' (mime (rq_file_type r)) (length d), a)"
    using assms(1) by (intro full_head_lines) (simp_all add: asks_for_def line_ok_def mime_no_CR)
  ultimately show "\<exists>s. full_ok stack r w = Inr (send_bytes (opened w) s)
      \<and> read_head s = Some (full_head w r '' 200 OK'' (mime (rq_file_type r)) (length d), a)" by blast
qed

theorem text_file_limits_witness:
  "full_ok (replicate 8096 NUL) (sample_request ''/srv/a.html'' 0)
     (sample_web ''/srv/a.html'' (regular (replicate 9000 (CHR ''x'')))) = undef Out_Of_Bounds"
  using text_file_limits [OF sample_asks [of "''/srv/a.html''" 0 "regular (replicate 9000 (CHR ''x''))"],
      of "replicate 9000 (CHR ''x'')" "replicate 8096 NUL"]
  by simp

lemma full_ok_graphics_whole:
  assumes "asks_for r path w" and "wb_files w path = Some (regular d)" and "rq_file_type r \<in> {1, 2}"
    and "d \<noteq> []" and "length d < 2 ^ 63"
  shows "\<exists>s. full_ok stack r w = Inr (send_bytes (opened w) s)
    \<and> read_head s = Some (full_head w r '' 200 OK'' (mime (rq_file_type r)) (length d), d)"
proof -
  have "read_head (framed (full_head w r '' 200 OK'' (mime (rq_file_type r)) (length d)) d)
      = Some (full_head w r '' 200 OK'' (mime (rq_file_type r)) (length d), d)"
    using assms(1) by (intro full_head_lines) (simp_all add: asks_for_def line_ok_def mime_no_CR)
  then show ?thesis using full_ok_graphics [OF assms, of stack] by blast
qed

text \<open>
  C25. A graphics file of any bytes and any length but 0 is sent whole, in pieces of 32768 bytes,
  with its length and type named. An empty one is taken for a file that cannot be read: a whole
  500 response follows the line and the general headers of the 200 response. The file stays open.
\<close>

theorem graphics_file_whole:
  assumes "asks_for r path w" and "wb_files w path = Some (regular d)" and "rq_file_type r \<in> {1, 2}"
    and "length d < 2 ^ 63"
  shows "if d \<noteq> [] then
      \<exists>s. full_ok stack r w = Inr (send_bytes (opened w) s)
        \<and> read_head s = Some (full_head w r '' 200 OK'' (mime (rq_file_type r)) (length d), d)
    else \<exists>page s. full_ok stack r w = Inr (send_bytes (log_line (''Unable to read file: '' @ path) (opened w)) s)
        \<and> read_head s = Some (((protocol_of r @ '' 200 OK'') # general_lines w)
            @ full_head w r '' 500 Internal Server Error'' ''text/html'' (length page), page)"
proof (cases "d = []")
  case True
  with full_ok_empty [OF assms(1) _ assms(3)] assms(2) two_heads [of r w stack _ "opened w"] assms(1)
  show ?thesis by (simp add: asks_for_def opened_def)
next
  case False
  with full_ok_graphics_whole [OF assms(1-3) False assms(4)] show ?thesis by simp
qed

theorem graphics_file_whole_witness:
  "\<exists>s. full_ok [] (sample_request ''/srv/a.gif'' 2) (sample_web ''/srv/a.gif'' (regular [CHR ''G'', NUL, CR, LF]))
      = Inr (send_bytes (opened (sample_web ''/srv/a.gif'' (regular [CHR ''G'', NUL, CR, LF]))) s)
    \<and> read_head s = Some (full_head (sample_web ''/srv/a.gif'' (regular [CHR ''G'', NUL, CR, LF]))
        (sample_request ''/srv/a.gif'' 2) '' 200 OK'' (mime 2) (length [CHR ''G'', NUL, CR, LF]), [CHR ''G'', NUL, CR, LF])
    \<and> (\<exists>s. full_ok [] (sample_request ''/srv/a.gif'' 2) (sample_web ''/srv/a.gif'' (regular []))
      = Inr (send_bytes (log_line (''Unable to read file: '' @ ''/srv/a.gif'')
          (opened (sample_web ''/srv/a.gif'' (regular [])))) s))"
  using graphics_file_whole [OF sample_asks [of "''/srv/a.gif''" 2 "regular [CHR ''G'', NUL, CR, LF]"],
      of "[CHR ''G'', NUL, CR, LF]" "[]"]
    graphics_file_whole [OF sample_asks [of "''/srv/a.gif''" 2 "regular []"], of "[]" "[]"]
  by auto

text \<open>
  C38. A file that exists and cannot be opened is answered with two status lines: the line of
  the 200 response and its general headers are sent before the file is opened, and the whole
  500 response follows among them, so that a client reads status 200 and the page of 500.
\<close>

theorem unreadable_file_two_heads:
  assumes "asks_for r path w" and "wb_files w path = Some f" and "\<not> wf_opens f"
  shows "\<exists>page s. full_ok stack r w = Inr (send_bytes (log_line (''Unable to open file: '' @ path) w) s)
    \<and> read_head s = Some (((protocol_of r @ '' 200 OK'') # general_lines w)
        @ full_head w r '' 500 Internal Server Error'' ''text/html'' (length page), page)"
  using assms two_heads [OF _ _ full_ok_unopened [OF assms] refl] by (simp add: asks_for_def)

theorem unreadable_file_two_heads_witness:
  "\<exists>(page :: string) s. full_ok [] (sample_request ''/srv/a.gif'' 2) (sample_web ''/srv/a.gif'' \<lparr>wf_opens = False, wf_data = None, wf_end = 0\<rparr>)
      = Inr (send_bytes (log_line (''Unable to open file: '' @ ''/srv/a.gif'')
          (sample_web ''/srv/a.gif'' \<lparr>wf_opens = False, wf_data = None, wf_end = 0\<rparr>)) s)
    \<and> length page < length s"
proof -
  let ?f = "\<lparr>wf_opens = False, wf_data = None, wf_end = 0\<rparr>" and ?path = "''/srv/a.gif''"
  have p: "NUL \<notin> set ?path" and f: "\<not> wf_opens ?f" by simp_all
  obtain page s ls where e: "full_ok [] (sample_request ?path 2) (sample_web ?path ?f)
      = Inr (send_bytes (log_line (''Unable to open file: '' @ ?path) (sample_web ?path ?f)) s)"
    and h: "read_head s = Some (ls, page)"
    using unreadable_file_two_heads [OF sample_asks [OF p] sample_select(1) f] by blast
  show ?thesis using e read_head_shorter [OF h] by blast
qed

end
