(* ===== verification/Http_Server.thy ===== *)
theory Http_Server
  imports Http_Response
begin

text \<open>
  \<open>C_Server/src/server.c\<close>: \<open>send_get_response\<close>, \<open>handle_cgi\<close>, \<open>handle_request\<close> and \<open>main\<close>. A
  thread answers one request and shares nothing but the logs and the configuration with the
  others; \<open>main\<close> accepts connections and starts the threads.
\<close>

section \<open>Answering a request\<close>

text \<open>What the stack of a thread holds: the buffer of \<open>recv\<close>, the request structure, the
extension of \<open>file_type\<close> and the buffer of \<open>send_text_file\<close>.\<close>

record stack_bytes =
  sk_buffer :: "char list"
  sk_request :: request_data
  sk_ext :: "char list"
  sk_text :: "char list"

text \<open>What \<open>recv\<close> returns: the bytes received, at most as many as asked for, or an error.\<close>

datatype received = Received "char list" | Recv_Error string

definition simple_protocol :: "request_data \<Rightarrow> bool" where
  "simple_protocol r = str_caseeq (rq_protocol r) HTTP09"

definition valid_path :: "string \<Rightarrow> web \<Rightarrow> bool" where
  "valid_path abs_path w \<longleftrightarrow> wb_files w abs_path \<noteq> None"

definition send_get_response :: "char list \<Rightarrow> request_data \<Rightarrow> web \<Rightarrow> web res" where
  "send_get_response stack r w =
     rbind (c_string (rq_abs_path r)) (\<lambda>path.
       if valid_path path w then
         if simple_protocol r then simple_ok stack r w else full_ok stack r w
       else
         let w1 = log_line (''Invalid URI: '' @ path) w
         in if simple_protocol r then simple_not_found w1 else full_not_found r w1)"

text \<open>The same lines stand in \<open>handle_cgi\<close> and at the end of \<open>handle_request\<close>.\<close>

definition refuse_method :: "request_data \<Rightarrow> web \<Rightarrow> web res" where
  "refuse_method r w =
     rbind (c_string (rq_type r)) (\<lambda>type.
       let w1 = log_line (''Requested method is not imlemented: '' @ type) w
       in if simple_protocol r then simple_not_implemented w1 else full_not_implemented r w1)"

definition handle_cgi :: "request_data \<Rightarrow> web \<Rightarrow> web res" where
  "handle_cgi r w = refuse_method r w"

definition recv_buffer :: "stack_bytes \<Rightarrow> received \<Rightarrow> char list" where
  "recv_buffer sk rcv =
     (case rcv of
        Received bytes \<Rightarrow> bytes @ drop (length bytes) (sk_buffer sk)
      | Recv_Error e \<Rightarrow> sk_buffer sk)"

text \<open>What is written to the two logs when a message has come.\<close>

definition log_received :: "char list \<Rightarrow> received \<Rightarrow> int \<Rightarrow> web \<Rightarrow> web res" where
  "log_received buffer rcv client w =
     (case rcv of
        Recv_Error e \<Rightarrow> Inr (log_line (''Did not receive anything because : '' @ e) w)
      | Received bytes \<Rightarrow>
          rbind (c_string buffer) (\<lambda>s.
            Inr (log_line (''String length = '' @ show_nat (length s) @ '' '')
              (w\<lparr>wb_access := wb_access w @ ''Got '' @ [CHR 0x22] @ s @ [CHR 0x22] @ '' from socket ''
                 @ show_int client @ [LF]\<rparr>))))"

definition handle_request :: "stack_bytes \<Rightarrow> received \<Rightarrow> int \<Rightarrow> config_data \<Rightarrow> web \<Rightarrow> web res" where
  "handle_request sk rcv client config w =
     (let buffer = recv_buffer sk rcv
      in rbind (log_received buffer rcv client w) (\<lambda>w1.
         rbind (populate_request (sk_ext sk) buffer config (sk_request sk)) (\<lambda>request.
         rbind (if rq_file_type request = -2 then handle_cgi request w1
                else if str_caseeq (rq_type request) ''GET'' then send_get_response (sk_text sk) request w1
                else refuse_method request w1) (\<lambda>w2.
           Inr (w2\<lparr>wb_closed := True\<rparr>)))))"

section \<open>Accepting connections\<close>

text \<open>What \<open>main\<close> changes: the count of connections, the threads it started with the socket of
each, the port, and standard error.\<close>

record main_state =
  mn_connections :: int
  mn_threads :: "int list"
  mn_port :: "16 word"
  mn_err :: string

definition perror :: "string \<Rightarrow> string \<Rightarrow> main_state \<Rightarrow> main_state" where
  "perror msg e st = st\<lparr>mn_err := mn_err st @ msg @ '': '' @ e @ [LF]\<rparr>"

text \<open>An outcome of \<open>accept\<close> and of \<open>pthread_create\<close> after it, with the error text of either.\<close>

record accepted =
  ac_socket :: int
  ac_thread :: bool
  ac_error :: string

definition accept_turn :: "accepted \<Rightarrow> main_state \<Rightarrow> main_state res" where
  "accept_turn a st =
     (let st1 = (if ac_socket a < 0 then perror ''Accept connection'' (ac_error a) st
                 else st\<lparr>mn_err := mn_err st @ ''got a connection'' @ [LF]\<rparr>)
      in if mn_connections st1 = INT_MAX then undef Signed_Overflow
         else let st2 = st1\<lparr>mn_connections := mn_connections st1 + 1\<rparr>
           in Inr (if ac_thread a then st2\<lparr>mn_threads := mn_threads st2 @ [ac_socket a]\<rparr>
                   else perror ''Unable to create pthread because '' (ac_error a) st2))"

text \<open>The loop of \<open>main\<close> on the connections that come; with none left it waits in \<open>accept\<close>.\<close>

fun accept_loop :: "int \<Rightarrow> accepted list \<Rightarrow> main_state \<Rightarrow> main_state res" where
  "accept_loop limit [] st = (if limit < mn_connections st then Inr st else Inl Blocked)"
| "accept_loop limit (a # as) st =
     (if limit < mn_connections st then Inr st else rbind (accept_turn a st) (accept_loop limit as))"

text \<open>The results of the system calls at the start, and the text of the configuration file.\<close>

record boot =
  bt_access :: int
  bt_error :: int
  bt_dup_out :: int
  bt_dup_err :: int
  bt_conf :: "string option"
  bt_socket :: int
  bt_bind :: int
  bt_text :: string

definition main_start :: main_state where
  "main_start = \<lparr>mn_connections = 0, mn_threads = [], mn_port = 0, mn_err = []\<rparr>"

text \<open>\<open>main\<close>, with the value it returns; the process and its threads end then.\<close>

definition http_main :: "boot \<Rightarrow> accepted list \<Rightarrow> (int \<times> main_state) res" where
  "http_main bt as =
     (let st = main_start; err = bt_text bt
      in if bt_access bt = -1 then Inr (0, perror ''Unable to open logs/access.log because '' err st)
         else if bt_error bt = -1 then Inr (0, perror ''Unable to open logs/error.log because '' err st)
         else if bt_dup_out bt = -1 then Inr (0, perror ''Unable to redirect stdout because '' err st)
         else if bt_dup_err bt = -1 then Inr (0, perror ''Unable to redirect stderr because '' err st)
         else rbind (populate_config (bt_conf bt) config_zero) (\<lambda>config.
           let st1 = st\<lparr>mn_port := word_of_int (cf_port config)\<rparr>;
               st2 = (if bt_socket bt < 0 then perror ''Could not create socket because '' err st1 else st1);
               st3 = (if bt_bind bt < 0 then perror ''Could not bind to socket because '' err st2 else st2)
           in map_res (Pair 1) (accept_loop (cf_max_connections config) as st3)))"

section \<open>The end of the loop\<close>

definition started :: "accepted list \<Rightarrow> int list" where
  "started as = map ac_socket (filter ac_thread as)"

lemma accept_turn_counts:
  assumes "mn_connections st < INT_MAX"
  shows "\<exists>st1. accept_turn a st = Inr st1 \<and> mn_connections st1 = mn_connections st + 1
    \<and> mn_threads st1 = mn_threads st @ started [a] \<and> mn_port st1 = mn_port st"
  using assms by (simp add: accept_turn_def perror_def started_def Let_def)

lemma started_Cons: "started (a # as) = started [a] @ started as"
  by (simp add: started_def)

lemma accept_loop_all:
  assumes "mn_connections st + int (length as) = limit + 1" and "limit < INT_MAX"
  shows "\<exists>st1. accept_loop limit (as @ later) st = Inr st1 \<and> mn_connections st1 = limit + 1
    \<and> mn_threads st1 = mn_threads st @ started as \<and> mn_port st1 = mn_port st"
  using assms
proof (induction as arbitrary: st)
  case Nil
  then show ?case by (cases later) (auto simp: started_def)
next
  case (Cons a as)
  then have "mn_connections st < INT_MAX" by simp
  then obtain st1 where st1: "accept_turn a st = Inr st1" "mn_connections st1 = mn_connections st + 1"
    "mn_threads st1 = mn_threads st @ started [a]" "mn_port st1 = mn_port st"
    using accept_turn_counts by blast
  from Cons.IH [of st1] Cons.prems st1(2) obtain st2 where
    "accept_loop limit (as @ later) st1 = Inr st2" "mn_connections st2 = limit + 1"
    "mn_threads st2 = mn_threads st1 @ started as" "mn_port st2 = mn_port st1" by auto
  moreover have "\<not> limit < mn_connections st" using Cons.prems(1) by simp
  ultimately show ?case using st1 by (simp add: started_Cons [of a as])
qed

lemma accept_loop_waits:
  assumes "mn_connections st + int (length as) \<le> limit" and "limit < INT_MAX"
  shows "accept_loop limit as st = Inl Blocked"
  using assms
proof (induction as arbitrary: st)
  case (Cons a as)
  then have "mn_connections st < INT_MAX" by simp
  then obtain st1 where st1: "accept_turn a st = Inr st1" "mn_connections st1 = mn_connections st + 1"
    using accept_turn_counts by blast
  with Cons show ?case by simp
qed simp

text \<open>
  C29. A server whose logs open and whose configuration allows \<open>n\<close> connections takes exactly
  \<open>n + 1\<close> connections in its life: it waits while fewer have come, and after that many it
  returns, whether the earlier ones are closed or not, since nothing lowers the count. Failed
  \<open>accept\<close> calls count as well, and a thread is started on their socket -1.
\<close>

theorem server_ends_after_max:
  assumes "bt_access bt \<noteq> -1" and "bt_error bt \<noteq> -1" and "bt_dup_out bt \<noteq> -1" and "bt_dup_err bt \<noteq> -1"
    and "populate_config (bt_conf bt) config_zero = Inr config"
    and "0 \<le> cf_max_connections config" and "cf_max_connections config < INT_MAX"
  defines "n \<equiv> nat (cf_max_connections config) + 1"
  shows "if length as < n then http_main bt as = Inl Blocked
    else \<exists>st. http_main bt as = Inr (1, st) \<and> mn_connections st = int n
      \<and> mn_threads st = started (take n as) \<and> mn_port st = word_of_int (cf_port config)"
proof -
  obtain st where st: "http_main bt as = map_res (Pair 1) (accept_loop (cf_max_connections config) as st)"
    "mn_connections st = 0" "mn_threads st = []" "mn_port st = word_of_int (cf_port config)"
    using assms(1-5) that by (simp add: http_main_def Let_def main_start_def perror_def)
  show ?thesis
  proof (cases "length as < n")
    case True
    then have "accept_loop (cf_max_connections config) as st = Inl Blocked"
      using assms(6,7) st(2) by (intro accept_loop_waits) (auto simp: n_def)
    then show ?thesis using True st(1) by simp
  next
    case False
    then have "mn_connections st + int (length (take n as)) = cf_max_connections config + 1"
      using assms(6) st(2) by (simp add: n_def)
    from accept_loop_all [OF this assms(7), of "drop n as"] show ?thesis
      using False st assms(6) by (auto simp: n_def)
  qed
qed

definition sample_boot :: boot where
  "sample_boot = \<lparr>bt_access = 3, bt_error = 4, bt_dup_out = 1, bt_dup_err = 2,
     bt_conf = Some ''MAX_CONNECTIONS 1 PORT 80 # end'', bt_socket = 7, bt_bind = 0, bt_text = []\<rparr>"

definition sample_accepts :: "accepted list" where
  "sample_accepts = [\<lparr>ac_socket = 8, ac_thread = True, ac_error = []\<rparr>,
     \<lparr>ac_socket = -1, ac_thread = True, ac_error = ''Interrupted system call''\<rparr>,
     \<lparr>ac_socket = 9, ac_thread = True, ac_error = []\<rparr>]"

lemma sample_boot_config:
  "populate_config (bt_conf sample_boot) config_zero
    = Inr \<lparr>cf_max_connections = 1, cf_root_path = [], cf_index = [], cf_port = 80\<rparr>"
  by code_simp

theorem server_ends_after_max_witness:
  "\<exists>st. http_main sample_boot sample_accepts = Inr (1, st) \<and> mn_connections st = 2
    \<and> mn_threads st = [8, -1] \<and> mn_port st = 80"
  using server_ends_after_max [OF _ _ _ _ sample_boot_config, of sample_accepts]
  by (simp add: sample_boot_def sample_accepts_def started_def)

section \<open>Requests and their answers\<close>

lemma lower_NUL [simp]: "lower c = NUL \<longleftrightarrow> c = NUL"
proof (cases "65 \<le> (of_char c :: nat) \<and> (of_char c :: nat) \<le> 90")
  case True
  define k where "k = (of_char c :: nat)"
  have k: "65 \<le> k" "k \<le> 90" using True by (simp_all add: k_def)
  then have "(of_char (char_of (k + 32) :: char) :: nat) = k + 32"
    by (simp only: of_char_of) simp
  then have "char_of (k + 32) \<noteq> NUL" by (intro notI) simp
  moreover have "c \<noteq> NUL" using True by auto
  ultimately show ?thesis using True by (simp add: lower_def k_def)
next
  case False
  then show ?thesis by (simp only: lower_def Let_def if_False)
qed

lemma NUL_lower [simp]: "NUL = lower c \<longleftrightarrow> c = NUL"
  using lower_NUL [of c] by (simp only: eq_commute [of NUL])

lemma str_caseeq_over_nul:
  assumes "NUL \<notin> set w" and "NUL \<notin> set s"
  shows "str_caseeq (over_nul w field) s \<longleftrightarrow> map lower w = map lower s"
proof -
  have low: "NUL \<notin> set (map lower x)" if "NUL \<notin> set x" for x
    using that by (auto simp: image_iff)
  have a: "map lower (over_nul w field) = over_nul (map lower w) (map lower field)"
    using lower_NUL [of NUL] by (simp add: over_nul_def drop_map)
  have "str_caseeq (over_nul w field) s \<longleftrightarrow> str_eq (map lower (over_nul w field)) (map lower s)"
    by (simp add: str_caseeq_def str_eq_def take_map)
  then show ?thesis unfolding a using str_eq_over_nul [OF low low] assms by blast
qed

text \<open>
  A message whose first line is three words, on a stack where the byte behind the path and
  behind the protocol is zero; the byte behind the method is looked at apart.
\<close>

record request_words =
  rw_method :: string
  rw_path :: string
  rw_protocol :: string

definition message :: "request_words \<Rightarrow> char \<Rightarrow> string \<Rightarrow> string" where
  "message q c rest = rw_method q @ SP # rw_path q @ SP # rw_protocol q @ c # rest"

definition words_ok :: "request_words \<Rightarrow> bool" where
  "words_ok q \<longleftrightarrow> is_word (rw_method q) \<and> is_word (rw_path q) \<and> is_word (rw_protocol q)"

definition stack_ok :: "stack_bytes \<Rightarrow> request_words \<Rightarrow> bool" where
  "stack_ok sk q \<longleftrightarrow> length (sk_buffer sk) = BUFFER_SIZE \<and> request_shape (sk_request sk)
     \<and> rq_rel_path (sk_request sk) ! length (rw_path q) = NUL
     \<and> rq_protocol (sk_request sk) ! length (rw_protocol q) = NUL
     \<and> length (sk_text sk) = TEXT_ENTITY_BODY_SIZE"

definition method_clean :: "stack_bytes \<Rightarrow> request_words \<Rightarrow> bool" where
  "method_clean sk q \<longleftrightarrow> rq_type (sk_request sk) ! length (rw_method q) = NUL"

definition target :: "config_data \<Rightarrow> request_words \<Rightarrow> string" where
  "target config q = cf_root_path config @ wanted config (rw_path q)"

text \<open>The structure such a request becomes.\<close>

definition parsed :: "stack_bytes \<Rightarrow> config_data \<Rightarrow> request_words \<Rightarrow> request_data" where
  "parsed sk config q =
     \<lparr>rq_type = over (rw_method q) (rq_type (sk_request sk)),
      rq_rel_path = over_nul (wanted config (rw_path q)) (rq_rel_path (sk_request sk)),
      rq_abs_path = over_nul (target config q) (rq_abs_path (sk_request sk)),
      rq_protocol = over_nul (rw_protocol q) (rq_protocol (sk_request sk)),
      rq_file_type = file_type (sk_ext sk) (wanted config (rw_path q))\<rparr>"

lemma is_word_facts:
  assumes "is_word w"
  shows "NUL \<notin> set w" and "CR \<notin> set w" and "length w \<le> 254" and "length w < MAX_STRING_LENGTH"
proof -
  have "isspace CR" by (simp add: isspace_def)
  then show "NUL \<notin> set w" "CR \<notin> set w" "length w \<le> 254" "length w < MAX_STRING_LENGTH"
    using assms unfolding is_word_def by (blast, blast, simp, simp)
qed

lemma populate_message:
  assumes "words_ok q" and "stack_ok sk q" and "config_shape config" and "isspace c"
    and "length (message q c rest) \<le> BUFFER_SIZE" and "length (target config q) < MAX_STRING_LENGTH"
  shows "populate_request (sk_ext sk) (recv_buffer sk (Received (message q c rest))) config (sk_request sk)
    = Inr (parsed sk config q)"
proof -
  let ?rest = "rest @ drop (length (message q c rest)) (sk_buffer sk)"
  let ?r = "sk_request sk"
  have w: "is_word (rw_method q)" "is_word (rw_path q)" "is_word (rw_protocol q)"
    using assms(1) by (simp_all add: words_ok_def)
  have buf: "recv_buffer sk (Received (message q c rest))
      = rw_method q @ SP # rw_path q @ SP # rw_protocol q @ c # ?rest"
    by (simp add: recv_buffer_def message_def)
  have len: "length (rw_method q @ SP # rw_path q @ SP # rw_protocol q @ c # ?rest) = BUFFER_SIZE"
    using assms(2,5) by (simp add: stack_ok_def message_def)
  have shape: "request_shape ?r" and nul: "rq_rel_path ?r ! length (rw_path q) = NUL"
    using assms(2) by (simp_all add: stack_ok_def)
  have v: "over (rw_protocol q) (rq_protocol ?r) = over_nul (rw_protocol q) (rq_protocol ?r)"
    using assms(2) is_word_facts(4) [OF w(3)]
    by (simp add: over_terminated stack_ok_def request_shape_def)
  show ?thesis
    unfolding buf populate_request_words [OF w assms(4) len shape assms(3) nul]
    using assms(6) by (simp add: Let_def target_def parsed_def v)
qed

text \<open>The world after the message is logged, and at the end of the request.\<close>

definition logged :: "stack_bytes \<Rightarrow> string \<Rightarrow> int \<Rightarrow> web \<Rightarrow> web" where
  "logged sk bytes client w =
     (let s = cstr (recv_buffer sk (Received bytes))
      in log_line (''String length = '' @ show_nat (length s) @ '' '')
           (w\<lparr>wb_access := wb_access w @ ''Got '' @ [CHR 0x22] @ s @ [CHR 0x22] @ '' from socket ''
              @ show_int client @ [LF]\<rparr>))"

lemma logged_select [simp]:
  "wb_files (logged sk bytes client w) = wb_files w" "wb_now (logged sk bytes client w) = wb_now w"
  "wb_out (logged sk bytes client w) = wb_out w" "wb_fds (logged sk bytes client w) = wb_fds w"
  by (simp_all add: logged_def Let_def)

text \<open>What the server does with a parsed request.\<close>

definition reply :: "stack_bytes \<Rightarrow> request_data \<Rightarrow> web \<Rightarrow> web res" where
  "reply sk r w =
     (if rq_file_type r = -2 then handle_cgi r w
      else if str_caseeq (rq_type r) ''GET'' then send_get_response (sk_text sk) r w
      else refuse_method r w)"

lemma handle_request_reply:
  assumes "words_ok q" and "stack_ok sk q" and "config_shape config" and "isspace c"
    and "length (message q c rest) \<le> BUFFER_SIZE" and "length (target config q) < MAX_STRING_LENGTH"
    and "NUL \<in> set (recv_buffer sk (Received (message q c rest)))"
  shows "handle_request sk (Received (message q c rest)) client config w =
    map_res (\<lambda>w1. w1\<lparr>wb_closed := True\<rparr>)
      (reply sk (parsed sk config q) (logged sk (message q c rest) client w))"
proof -
  let ?rcv = "Received (message q c rest)"
  have "log_received (recv_buffer sk ?rcv) ?rcv client w = Inr (logged sk (message q c rest) client w)"
    using assms(7) by (simp add: log_received_def logged_def c_string_def Let_def)
  then show ?thesis
    unfolding handle_request_def Let_def populate_message [OF assms(1-6)]
    by (simp only: rbind.simps reply_def map_res_def)
qed

text \<open>The facts about the parsed structure the responses use.\<close>

lemma parsed_facts:
  assumes "words_ok q" and "stack_ok sk q" and "config_shape config"
    and "length (target config q) < MAX_STRING_LENGTH"
  shows "protocol_ok (parsed sk config q)" and "protocol_of (parsed sk config q) = rw_protocol q"
    and "c_string (rq_abs_path (parsed sk config q)) = Inr (target config q)"
    and "simple_protocol (parsed sk config q) \<longleftrightarrow> map lower (rw_protocol q) = ''http/0.9''"
proof -
  have nul: "NUL \<notin> set (rw_method q)" "NUL \<notin> set (rw_path q)" "NUL \<notin> set (rw_protocol q)"
    and CR: "CR \<notin> set (rw_protocol q)" and len: "length (rw_protocol q) \<le> 254"
    using assms(1) is_word_facts by (simp_all add: words_ok_def)
  have "NUL \<notin> set (target config q)"
    using nul(2) assms(3) by (simp add: target_def wanted_def config_shape_def)
  then show "c_string (rq_abs_path (parsed sk config q)) = Inr (target config q)" by (simp add: parsed_def)
  have p: "cstr (rq_protocol (parsed sk config q)) = rw_protocol q"
    using cstr_stop [OF nul(3)] by (simp add: parsed_def over_nul_def)
  then show "protocol_of (parsed sk config q) = rw_protocol q" by (simp add: protocol_of_def)
  have "length (rq_protocol (parsed sk config q)) = MAX_STRING_LENGTH"
    using assms(2) len by (simp add: parsed_def stack_ok_def request_shape_def)
  then show "protocol_ok (parsed sk config q)"
    using p CR by (simp add: protocol_ok_def) (simp add: parsed_def over_nul_def)
  have g: "map lower ''HTTP/0.9'' = ''http/0.9''" by code_simp
  show "simple_protocol (parsed sk config q) \<longleftrightarrow> map lower (rw_protocol q) = ''http/0.9''"
    using str_caseeq_over_nul [OF nul(3), of "''HTTP/0.9''"] g by (simp add: parsed_def simple_protocol_def)
qed

lemma lower_GET: "map lower ''GET'' = ''get''"
  by code_simp

lemma parsed_method_clean:
  assumes "words_ok q" and "stack_ok sk q" and "method_clean sk q"
  shows "c_string (rq_type (parsed sk config q)) = Inr (rw_method q)"
    and "str_caseeq (rq_type (parsed sk config q)) ''GET'' \<longleftrightarrow> map lower (rw_method q) = ''get''"
proof -
  have w: "NUL \<notin> set (rw_method q)" "length (rw_method q) < MAX_STRING_LENGTH"
    using assms(1) is_word_facts by (simp_all add: words_ok_def)
  have "over (rw_method q) (rq_type (sk_request sk)) = over_nul (rw_method q) (rq_type (sk_request sk))"
    using assms(2,3) w(2) by (intro over_terminated) (simp_all add: method_clean_def stack_ok_def request_shape_def)
  then have t: "rq_type (parsed sk config q) = over_nul (rw_method q) (rq_type (sk_request sk))"
    by (simp add: parsed_def)
  show "c_string (rq_type (parsed sk config q)) = Inr (rw_method q)" unfolding t using w(1) by simp
  show "str_caseeq (rq_type (parsed sk config q)) ''GET'' \<longleftrightarrow> map lower (rw_method q) = ''get''"
    unfolding t using str_caseeq_over_nul [OF w(1), of "''GET''"] lower_GET by simp
qed

lemma parsed_method_stale:
  assumes "stack_ok sk q" and "\<not> method_clean sk q" and "map lower (rw_method q) = ''get''"
  shows "\<not> str_caseeq (rq_type (parsed sk config q)) ''GET''"
proof
  let ?t = "rq_type (sk_request sk)"
  have m: "length (rw_method q) = 3" using arg_cong [OF assms(3), of length] by simp
  then have "drop 3 ?t = ?t ! 3 # drop 4 ?t"
    using assms(1) Cons_nth_drop_Suc [of 3 ?t] by (simp add: stack_ok_def request_shape_def)
  then have "take (length ''GET'' + 1) (rq_type (parsed sk config q)) = rw_method q @ [?t ! 3]"
    using m by (simp add: parsed_def over_def)
  moreover assume "str_caseeq (rq_type (parsed sk config q)) ''GET''"
  ultimately have "lower (?t ! 3) = NUL" unfolding str_caseeq_def by simp
  then show False using assms(2) m by (simp add: method_clean_def)
qed

section \<open>One request, one answer\<close>

text \<open>
  The request is answered with this status line and body: the connection is closed, the files
  are as before, and what was sent reads as a response whose last header is the length of its
  body.
\<close>

definition answers :: "web res \<Rightarrow> web \<Rightarrow> string \<Rightarrow> string \<Rightarrow> bool" where
  "answers res w line body \<longleftrightarrow> (\<exists>w1 s head. res = Inr w1 \<and> wb_closed w1 \<and> wb_files w1 = wb_files w
     \<and> wb_out w1 = wb_out w @ s \<and> read_head s = Some (line # head, body)
     \<and> last head = ''Content-Length: '' @ show_nat (length body))"

lemma answersI:
  assumes "res = Inr (send_bytes u s)" and "wb_out u = wb_out w" and "wb_files u = wb_files w"
    and "read_head s = Some (full_head w2 r status type (length body), body)"
  shows "answers (map_res (\<lambda>w1. w1\<lparr>wb_closed := True\<rparr>) res) w (protocol_of r @ status) body"
  unfolding answers_def using assms
  by (intro exI [of _ "(send_bytes u s)\<lparr>wb_closed := True\<rparr>"] exI [of _ s]
      exI [of _ "tl (full_head w2 r status type (length body))"])
    (simp add: full_head_def)

lemma opened_select [simp]:
  "wb_out (opened w) = wb_out w" "wb_files (opened w) = wb_files w"
  by (simp_all add: opened_def)

text \<open>The status a request of a full protocol gets, and the files that can be sent exactly.\<close>

definition expected_status :: "int \<Rightarrow> string \<Rightarrow> bool \<Rightarrow> string" where
  "expected_status ft m exists =
     (if ft = -2 \<or> map lower m \<noteq> ''get'' then '' 501 Method Not Implemented''
      else if exists then '' 200 OK'' else '' 404 Not Found'')"

definition servable :: "int \<Rightarrow> char list \<Rightarrow> string \<Rightarrow> bool" where
  "servable ft stack d \<longleftrightarrow>
     (if ft \<in> {1, 2} then d \<noteq> [] \<and> length d < 2 ^ 63
      else NUL \<notin> set d \<and> length d < TEXT_ENTITY_BODY_SIZE \<and> stack ! length d = NUL)"

lemma expected_status_cases [case_names refuse missing found]:
  assumes "ft = -2 \<or> map lower m \<noteq> ''get'' \<Longrightarrow>
      expected_status ft m (entry \<noteq> None) = '' 501 Method Not Implemented'' \<Longrightarrow> P"
    and "ft \<noteq> -2 \<Longrightarrow> map lower m = ''get'' \<Longrightarrow> entry = None \<Longrightarrow>
      expected_status ft m (entry \<noteq> None) = '' 404 Not Found'' \<Longrightarrow> P"
    and "\<And>f. ft \<noteq> -2 \<Longrightarrow> map lower m = ''get'' \<Longrightarrow> entry = Some f \<Longrightarrow>
      expected_status ft m (entry \<noteq> None) = '' 200 OK'' \<Longrightarrow> P"
  shows P
  using assms by (cases "ft = -2 \<or> map lower m \<noteq> ''get''"; cases entry) (auto simp: expected_status_def)

lemma file_type_range: "file_type stack path \<in> {-2, -1, 0, 1, 2}"
  by (simp add: file_type_def Let_def)

lemma parsed_range:
  assumes "rq_file_type (parsed sk config q) \<noteq> -2"
  shows "rq_file_type (parsed sk config q) \<in> {-1, 0, 1, 2}"
  using assms file_type_range [of "sk_ext sk" "wanted config (rw_path q)"] by (simp add: parsed_def)

lemma reply_refused:
  assumes "protocol_ok r" and "wb_now w < TIME_LIMIT" and "c_string (rq_type r) = Inr m"
    and "\<not> simple_protocol r" and "rq_file_type r = -2 \<or> \<not> str_caseeq (rq_type r) ''GET''"
    and "wb_out w = wb_out w0" and "wb_files w = wb_files w0"
  shows "\<exists>body. answers (map_res (\<lambda>w1. w1\<lparr>wb_closed := True\<rparr>) (reply sk r w)) w0
    (protocol_of r @ '' 501 Method Not Implemented'') body"
proof -
  let ?w = "log_line (''Requested method is not imlemented: '' @ m) w"
  have now: "wb_now ?w < TIME_LIMIT" using assms(2) by simp
  obtain page s where s: "full_not_implemented r ?w = Inr (send_bytes ?w s)"
    "read_head s = Some (full_head ?w r '' 501 Method Not Implemented'' ''text/html'' (length page), page)"
    using not_implemented.framed_page [OF assms(1) now] by (rule exE) (rule that, (erule conjE, assumption)+)
  have "reply sk r w = refuse_method r w"
    using assms(5) by (auto simp only: reply_def handle_cgi_def split: if_split)
  also have "\<dots> = full_not_implemented r ?w"
    using assms(3,4) by (simp add: refuse_method_def Let_def)
  finally have reply: "reply sk r w = Inr (send_bytes ?w s)" using s(1) by (rule trans)
  have "wb_out ?w = wb_out w0" "wb_files ?w = wb_files w0" using assms(6,7) by simp_all
  from answersI [OF reply this s(2)] show ?thesis by (rule exI)
qed

lemma reply_get:
  assumes "c_string (rq_abs_path r) = Inr path"
    and "rq_file_type r \<noteq> -2" and "str_caseeq (rq_type r) ''GET''" and "\<not> simple_protocol r"
  shows "reply sk r w = (if wb_files w path = None then full_not_found r (log_line (''Invalid URI: '' @ path) w)
    else full_ok (sk_text sk) r w)"
  unfolding reply_def send_get_response_def valid_path_def assms(1)
  by (cases "wb_files w path = None") (simp_all only: assms(2-4) rbind.simps Let_def if_False if_True simp_thms)

lemma reply_not_found:
  assumes "protocol_ok r" and "wb_now w < TIME_LIMIT" and "c_string (rq_abs_path r) = Inr path"
    and "rq_file_type r \<noteq> -2" and "str_caseeq (rq_type r) ''GET''" and "\<not> simple_protocol r"
    and "wb_files w path = None" and "wb_out w = wb_out w0" and "wb_files w = wb_files w0"
  shows "\<exists>body. answers (map_res (\<lambda>w1. w1\<lparr>wb_closed := True\<rparr>) (reply sk r w)) w0
    (protocol_of r @ '' 404 Not Found'') body"
proof -
  let ?w = "log_line (''Invalid URI: '' @ path) w"
  have now: "wb_now ?w < TIME_LIMIT" using assms(2) by simp
  obtain page s where s: "full_not_found r ?w = Inr (send_bytes ?w s)"
    "read_head s = Some (full_head ?w r '' 404 Not Found'' ''text/html'' (length page), page)"
    using not_found.framed_page [OF assms(1) now] by (rule exE) (rule that, (erule conjE, assumption)+)
  have "reply sk r w = full_not_found r ?w"
    unfolding reply_get [OF assms(3-6)] by (simp only: assms(7) if_True simp_thms)
  then have reply: "reply sk r w = Inr (send_bytes ?w s)" using s(1) by (rule trans)
  have "wb_out ?w = wb_out w0" "wb_files ?w = wb_files w0" using assms(8,9) by simp_all
  from answersI [OF reply this s(2)] show ?thesis by (rule exI)
qed

lemma reply_file:
  assumes "asks_for r path w" and "rq_file_type r \<in> {-1, 0, 1, 2}" and "str_caseeq (rq_type r) ''GET''"
    and "\<not> simple_protocol r" and "wb_files w path = Some (regular d)"
    and "servable (rq_file_type r) (sk_text sk) d" and "length (sk_text sk) = TEXT_ENTITY_BODY_SIZE"
    and "wb_out w = wb_out w0" and "wb_files w = wb_files w0"
  shows "answers (map_res (\<lambda>w1. w1\<lparr>wb_closed := True\<rparr>) (reply sk r w)) w0
    (protocol_of r @ '' 200 OK'') d"
proof -
  have "\<exists>s. full_ok (sk_text sk) r w = Inr (send_bytes (opened w) s)
    \<and> read_head s = Some (full_head w r '' 200 OK'' (mime (rq_file_type r)) (length d), d)"
  proof (cases "rq_file_type r \<in> {1, 2}")
    case True
    then show ?thesis using assms(1,5,6) by (intro full_ok_graphics_whole) (simp_all only: servable_def if_True simp_thms)
  next
    case False
    then have "rq_file_type r \<le> 0" using assms(2) by auto
    then show ?thesis using False assms(1,5-7)
      by (intro full_ok_text_exact) (simp_all only: servable_def if_False simp_thms)
  qed
  then obtain s where s: "full_ok (sk_text sk) r w = Inr (send_bytes (opened w) s)"
    "read_head s = Some (full_head w r '' 200 OK'' (mime (rq_file_type r)) (length d), d)" by blast
  have p: "c_string (rq_abs_path r) = Inr path" using assms(1) by (simp add: asks_for_def)
  have ft: "rq_file_type r \<noteq> -2" using assms(2) by auto
  have "reply sk r w = full_ok (sk_text sk) r w"
    unfolding reply_get [OF p ft assms(3,4)] by (simp only: assms(5) option.simps if_False)
  then have reply: "reply sk r w = Inr (send_bytes (opened w) s)" using s(1) by (rule trans)
  have "wb_out (opened w) = wb_out w0" "wb_files (opened w) = wb_files w0" using assms(8,9) by simp_all
  from answersI [OF reply this s(2)] show ?thesis .
qed

text \<open>A request that reaches the handler as three words.\<close>

definition request_arrives ::
  "stack_bytes \<Rightarrow> config_data \<Rightarrow> request_words \<Rightarrow> char \<Rightarrow> string \<Rightarrow> web \<Rightarrow> bool" where
  "request_arrives sk config q c rest w \<longleftrightarrow>
     words_ok q \<and> stack_ok sk q \<and> config_shape config \<and> isspace c
     \<and> length (message q c rest) \<le> BUFFER_SIZE \<and> length (target config q) < MAX_STRING_LENGTH
     \<and> NUL \<in> set (recv_buffer sk (Received (message q c rest)))
     \<and> wb_now w < TIME_LIMIT"

lemma request_arrives_facts:
  assumes "request_arrives sk config q c rest w"
  shows "handle_request sk (Received (message q c rest)) client config w =
      map_res (\<lambda>w1. w1\<lparr>wb_closed := True\<rparr>)
        (reply sk (parsed sk config q) (logged sk (message q c rest) client w))"
    and "protocol_ok (parsed sk config q)" and "protocol_of (parsed sk config q) = rw_protocol q"
    and "c_string (rq_abs_path (parsed sk config q)) = Inr (target config q)"
    and "simple_protocol (parsed sk config q) \<longleftrightarrow> map lower (rw_protocol q) = ''http/0.9''"
    and "wb_now (logged sk (message q c rest) client w) < TIME_LIMIT"
    and "words_ok q" and "stack_ok sk q"
proof -
  have ok: "words_ok q" "stack_ok sk q" "config_shape config" "isspace c"
      "length (message q c rest) \<le> BUFFER_SIZE" "length (target config q) < MAX_STRING_LENGTH"
      "NUL \<in> set (recv_buffer sk (Received (message q c rest)))" "wb_now w < TIME_LIMIT"
    using assms unfolding request_arrives_def by blast+
  show "handle_request sk (Received (message q c rest)) client config w =
      map_res (\<lambda>w1. w1\<lparr>wb_closed := True\<rparr>)
        (reply sk (parsed sk config q) (logged sk (message q c rest) client w))"
    by (rule handle_request_reply [OF ok(1-7)])
  note facts = parsed_facts [OF ok(1-3,6)]
  show "protocol_ok (parsed sk config q)" "protocol_of (parsed sk config q) = rw_protocol q"
    "c_string (rq_abs_path (parsed sk config q)) = Inr (target config q)"
    "simple_protocol (parsed sk config q) \<longleftrightarrow> map lower (rw_protocol q) = ''http/0.9''"
    by (rule facts)+
  show "wb_now (logged sk (message q c rest) client w) < TIME_LIMIT" using ok(8) by simp
  show "words_ok q" "stack_ok sk q" by (rule ok)+
qed

text \<open>The answer in full, as a lemma that the properties share.\<close>

lemma full_answer:
  assumes "request_arrives sk config q c rest w" and "method_clean sk q"
    and "map lower (rw_protocol q) \<noteq> ''http/0.9''"
  defines "ft \<equiv> file_type (sk_ext sk) (wanted config (rw_path q))"
  defines "status \<equiv> expected_status ft (rw_method q) (wb_files w (target config q) \<noteq> None)"
  assumes "\<And>f. status = '' 200 OK'' \<Longrightarrow> wb_files w (target config q) = Some f \<Longrightarrow>
    \<exists>d. f = regular d \<and> servable ft (sk_text sk) d"
  shows "\<exists>body. answers (handle_request sk (Received (message q c rest)) client config w) w
      (rw_protocol q @ status) body
    \<and> (status = '' 200 OK'' \<longrightarrow> wb_files w (target config q) = Some (regular body))"
proof -
  let ?r = "parsed sk config q" and ?w = "logged sk (message q c rest) client w"
  note facts = request_arrives_facts [OF assms(1)]
  have full: "\<not> simple_protocol ?r" unfolding facts(5) by (rule assms(3))
  note verb = parsed_method_clean [OF facts(7,8) assms(2)]
  have ft: "rq_file_type ?r = ft" by (simp add: parsed_def ft_def)
  have world: "wb_out ?w = wb_out w" "wb_files ?w = wb_files w" by simp_all
  show ?thesis
  proof (cases ft "rw_method q" "wb_files w (target config q)" rule: expected_status_cases)
    case refuse
    note refuse = refuse(1) refuse(2) [folded status_def]
    then have "rq_file_type ?r = -2 \<or> \<not> str_caseeq (rq_type ?r) ''GET''" unfolding ft verb(2) by blast
    from reply_refused [OF facts(2,6) verb(1) full this world, of sk]
    show ?thesis unfolding facts(1,3) refuse(2) by simp
  next
    case missing
    note missing = missing(1-3) missing(4) [folded status_def]
    then have "str_caseeq (rq_type ?r) ''GET''" unfolding verb(2) by blast
    moreover have "rq_file_type ?r \<noteq> -2" unfolding ft by (rule missing(1))
    moreover have "wb_files ?w (target config q) = None" using missing(3) by simp
    ultimately show ?thesis
      using reply_not_found [OF facts(2,6,4) _ _ full _ world, of sk]
      unfolding facts(1,3) missing(4) by simp
  next
    case (found f)
    note found = found(1-3) found(4) [folded status_def]
    from assms(6) [OF found(4,3)] obtain d where d: "f = regular d" "servable ft (sk_text sk) d" by blast
    have get: "str_caseeq (rq_type ?r) ''GET''" unfolding verb(2) by (rule found(2))
    have asks: "asks_for ?r (target config q) ?w" unfolding asks_for_def using facts(2,4,6) by blast
    have range: "rq_file_type ?r \<in> {-1, 0, 1, 2}" by (rule parsed_range) (simp only: ft found(1) simp_thms)
    have f: "wb_files ?w (target config q) = Some (regular d)" using found(3) d(1) by simp
    have serv: "servable (rq_file_type ?r) (sk_text sk) d" unfolding ft by (rule d(2))
    have len: "length (sk_text sk) = TEXT_ENTITY_BODY_SIZE" using facts(8) by (simp add: stack_ok_def)
    from reply_file [OF asks range get full f serv len world] show ?thesis
      unfolding facts(1,3) found(4) using found(3) d(1) by blast
  qed
qed

text \<open>
  C7. From the bytes received to the bytes sent: a request of three words for a full response
  gets 501 when the path names a cgi file or the method is not GET, 404 when the file under
  the root directory does not exist, and otherwise 200 with the bytes of that file as its
  body. The body has the length its header announces, and the connection is closed.
\<close>

theorem request_answered:
  assumes "request_arrives sk config q c rest w" and "method_clean sk q"
    and "map lower (rw_protocol q) \<noteq> ''http/0.9''"
  defines "ft \<equiv> file_type (sk_ext sk) (wanted config (rw_path q))"
  defines "status \<equiv> expected_status ft (rw_method q) (wb_files w (target config q) \<noteq> None)"
  assumes "\<And>f. status = '' 200 OK'' \<Longrightarrow> wb_files w (target config q) = Some f \<Longrightarrow>
    \<exists>d. f = regular d \<and> servable ft (sk_text sk) d"
  shows "\<exists>body. answers (handle_request sk (Received (message q c rest)) client config w) w
      (rw_protocol q @ status) body
    \<and> (status = '' 200 OK'' \<longrightarrow> wb_files w (target config q) = Some (regular body))"
  using full_answer [OF assms(1-3), folded ft_def, folded status_def, OF assms(6)] .

text \<open>An answer without a head: the body alone is sent.\<close>

definition answers_raw :: "web res \<Rightarrow> web \<Rightarrow> string \<Rightarrow> bool" where
  "answers_raw res w body \<longleftrightarrow> (\<exists>w1. res = Inr w1 \<and> wb_closed w1 \<and> wb_files w1 = wb_files w
     \<and> wb_out w1 = wb_out w @ body)"

lemma answers_rawI:
  "res = Inr (send_bytes u body) \<Longrightarrow> wb_out u = wb_out w \<Longrightarrow> wb_files u = wb_files w \<Longrightarrow>
   answers_raw (map_res (\<lambda>w1. w1\<lparr>wb_closed := True\<rparr>) res) w body"
  by (simp add: answers_raw_def)

lemma reply_simple_get:
  assumes "c_string (rq_abs_path r) = Inr path"
    and "rq_file_type r \<noteq> -2" and "str_caseeq (rq_type r) ''GET''" and "simple_protocol r"
  shows "reply sk r w = (if wb_files w path = None then simple_not_found (log_line (''Invalid URI: '' @ path) w)
    else simple_ok (sk_text sk) r w)"
  unfolding reply_def send_get_response_def valid_path_def assms(1)
  by (cases "wb_files w path = None") (simp_all only: assms(2-4) rbind.simps Let_def if_False if_True simp_thms)

lemma reply_simple_refused:
  assumes "c_string (rq_type r) = Inr m" and "simple_protocol r"
    and "rq_file_type r = -2 \<or> \<not> str_caseeq (rq_type r) ''GET''"
  shows "reply sk r w = simple_not_implemented (log_line (''Requested method is not imlemented: '' @ m) w)"
proof -
  have "reply sk r w = refuse_method r w"
    using assms(3) by (auto simp only: reply_def handle_cgi_def split: if_split)
  then show ?thesis using assms(1,2) by (simp add: refuse_method_def Let_def)
qed

lemma reply_simple_file:
  assumes "c_string (rq_abs_path r) = Inr path" and "rq_file_type r \<in> {-1, 0, 1, 2}"
    and "str_caseeq (rq_type r) ''GET''" and "simple_protocol r" and "wb_files w path = Some (regular d)"
    and "servable (rq_file_type r) (sk_text sk) d" and "length (sk_text sk) = TEXT_ENTITY_BODY_SIZE"
  shows "reply sk r w = Inr (send_bytes (opened w) d)"
proof -
  have ft: "rq_file_type r \<noteq> -2" using assms(2) by auto
  have "reply sk r w = simple_ok (sk_text sk) r w"
    unfolding reply_simple_get [OF assms(1) ft assms(3,4)] by (simp only: assms(5) option.simps if_False)
  also have "\<dots> = Inr (send_bytes (opened w) d)"
  proof (cases "rq_file_type r \<in> {1, 2}")
    case True
    then have "d \<noteq> []" using assms(6) by (simp only: servable_def if_True simp_thms)
    with True assms(1,5) show ?thesis by (intro simple_ok_graphics)
  next
    case False
    then have s: "NUL \<notin> set d" "length d < TEXT_ENTITY_BODY_SIZE" "sk_text sk ! length d = NUL"
      using assms(6) by (simp_all only: servable_def if_False simp_thms)
    from False have "rq_file_type r \<le> 0" using assms(2) by auto
    from simple_ok_text [OF assms(1,5) this, of "sk_text sk"] show ?thesis
      unfolding text_buffer_short [OF s(2) assms(7) s(3)] cstr_stop [OF s(1)] by simp
  qed
  finally show ?thesis .
qed

text \<open>The three decisions, in the world after the message is logged.\<close>

lemma simple_refused:
  assumes "c_string (rq_type r) = Inr m" and "simple_protocol r"
    and "rq_file_type r = -2 \<or> \<not> str_caseeq (rq_type r) ''GET''"
    and "wb_out w = wb_out w0" and "wb_files w = wb_files w0"
  shows "\<exists>body. answers_raw (map_res (\<lambda>w1. w1\<lparr>wb_closed := True\<rparr>) (reply sk r w)) w0 body
    \<and> (\<forall>u. simple_not_implemented u = Inr (send_bytes u body))"
proof -
  obtain body where law: "\<forall>u. simple_not_implemented u = Inr (send_bytes u body)"
    using not_implemented.simple_law by (intro that allI)
  have "reply sk r w = Inr (send_bytes (log_line (''Requested method is not imlemented: '' @ m) w) body)"
    unfolding reply_simple_refused [OF assms(1-3)] by (rule law [rule_format])
  from answers_rawI [OF this, of w0] assms(4,5) law show ?thesis by (intro exI [of _ body]) simp
qed

lemma simple_missing:
  assumes "c_string (rq_abs_path r) = Inr path" and "rq_file_type r \<noteq> -2"
    and "str_caseeq (rq_type r) ''GET''" and "simple_protocol r" and "wb_files w path = None"
    and "wb_out w = wb_out w0" and "wb_files w = wb_files w0"
  shows "\<exists>body. answers_raw (map_res (\<lambda>w1. w1\<lparr>wb_closed := True\<rparr>) (reply sk r w)) w0 body
    \<and> (\<forall>u. simple_not_found u = Inr (send_bytes u body))"
proof -
  obtain body where law: "\<forall>u. simple_not_found u = Inr (send_bytes u body)"
    using not_found.simple_law by (intro that allI)
  have "reply sk r w = Inr (send_bytes (log_line (''Invalid URI: '' @ path) w) body)"
    unfolding reply_simple_get [OF assms(1-4)] by (simp only: assms(5) if_True simp_thms law)
  from answers_rawI [OF this, of w0] assms(6,7) law show ?thesis by (intro exI [of _ body]) simp
qed

lemma statuses_apart:
  "'' 200 OK'' \<noteq> '' 404 Not Found''" "'' 200 OK'' \<noteq> '' 501 Method Not Implemented''"
  "'' 404 Not Found'' \<noteq> '' 501 Method Not Implemented''" "'' 404 Not Found'' \<noteq> '' 200 OK''"
  "'' 501 Method Not Implemented'' \<noteq> '' 200 OK''" "'' 501 Method Not Implemented'' \<noteq> '' 404 Not Found''"
  by simp_all

lemma simple_answer:
  assumes "request_arrives sk config q c rest w" and "method_clean sk q"
    and "map lower (rw_protocol q) = ''http/0.9''"
  defines "ft \<equiv> file_type (sk_ext sk) (wanted config (rw_path q))"
  defines "status \<equiv> expected_status ft (rw_method q) (wb_files w (target config q) \<noteq> None)"
  assumes "\<And>f. status = '' 200 OK'' \<Longrightarrow> wb_files w (target config q) = Some f \<Longrightarrow>
    \<exists>d. f = regular d \<and> servable ft (sk_text sk) d"
  shows "\<exists>body. answers_raw (handle_request sk (Received (message q c rest)) client config w) w body
    \<and> (status = '' 200 OK'' \<longrightarrow> wb_files w (target config q) = Some (regular body))
    \<and> (status = '' 404 Not Found'' \<longrightarrow> (\<forall>u. simple_not_found u = Inr (send_bytes u body)))
    \<and> (status = '' 501 Method Not Implemented'' \<longrightarrow> (\<forall>u. simple_not_implemented u = Inr (send_bytes u body)))"
proof -
  let ?r = "parsed sk config q" and ?w = "logged sk (message q c rest) client w"
  note facts = request_arrives_facts [OF assms(1)]
  have simple: "simple_protocol ?r" unfolding facts(5) by (rule assms(3))
  note verb = parsed_method_clean [OF facts(7,8) assms(2)]
  have ft: "rq_file_type ?r = ft" by (simp add: parsed_def ft_def)
  have world: "wb_out ?w = wb_out w" "wb_files ?w = wb_files w" by simp_all
  show ?thesis
  proof (cases ft "rw_method q" "wb_files w (target config q)" rule: expected_status_cases)
    case refuse
    then have "rq_file_type ?r = -2 \<or> \<not> str_caseeq (rq_type ?r) ''GET''" unfolding ft verb(2) by blast
    from simple_refused [OF verb(1) simple this world, of sk] obtain body where
      body: "answers_raw (map_res (\<lambda>w1. w1\<lparr>wb_closed := True\<rparr>) (reply sk ?r ?w)) w body"
        "\<forall>u. simple_not_implemented u = Inr (send_bytes u body)" by (elim exE conjE)
    then show ?thesis unfolding facts(1) refuse(2) [folded status_def]
      by (intro exI [of _ body]) (simp only: statuses_apart simp_thms)
  next
    case missing
    have get: "str_caseeq (rq_type ?r) ''GET''" unfolding verb(2) by (rule missing(2))
    have no: "rq_file_type ?r \<noteq> -2" unfolding ft by (rule missing(1))
    have none: "wb_files ?w (target config q) = None" using missing(3) by simp
    from simple_missing [OF facts(4) no get simple none world, of sk] obtain body where
      body: "answers_raw (map_res (\<lambda>w1. w1\<lparr>wb_closed := True\<rparr>) (reply sk ?r ?w)) w body"
        "\<forall>u. simple_not_found u = Inr (send_bytes u body)" by (elim exE conjE)
    then show ?thesis unfolding facts(1) missing(4) [folded status_def]
      by (intro exI [of _ body]) (simp only: statuses_apart simp_thms)
  next
    case (found f)
    note status = found(4) [folded status_def]
    from assms(6) [OF status found(3)] obtain d where d: "f = regular d" "servable ft (sk_text sk) d" by blast
    have get: "str_caseeq (rq_type ?r) ''GET''" unfolding verb(2) by (rule found(2))
    have range: "rq_file_type ?r \<in> {-1, 0, 1, 2}" by (rule parsed_range) (simp only: ft found(1) simp_thms)
    have f: "wb_files ?w (target config q) = Some (regular d)" using found(3) d(1) by simp
    have serv: "servable (rq_file_type ?r) (sk_text sk) d" unfolding ft by (rule d(2))
    have len: "length (sk_text sk) = TEXT_ENTITY_BODY_SIZE" using facts(8) by (simp add: stack_ok_def)
    have "answers_raw (map_res (\<lambda>w1. w1\<lparr>wb_closed := True\<rparr>) (reply sk ?r ?w)) w d"
      by (rule answers_rawI [OF reply_simple_file [OF facts(4) range get simple f serv len]]) simp_all
    moreover have "wb_files w (target config q) = Some (regular d)" using found(3) d(1) by simp
    ultimately show ?thesis unfolding facts(1) status
      by (intro exI [of _ d]) (simp only: statuses_apart simp_thms)
  qed
qed

text \<open>
  A request of HTTP/0.9 gets the same decision without a head: the bytes of the file alone,
  or the page of 404 or of 501 as its simple response has it.
\<close>

theorem simple_request_answered:
  assumes "request_arrives sk config q c rest w" and "method_clean sk q"
    and "map lower (rw_protocol q) = ''http/0.9''"
  defines "ft \<equiv> file_type (sk_ext sk) (wanted config (rw_path q))"
  defines "status \<equiv> expected_status ft (rw_method q) (wb_files w (target config q) \<noteq> None)"
  assumes "\<And>f. status = '' 200 OK'' \<Longrightarrow> wb_files w (target config q) = Some f \<Longrightarrow>
    \<exists>d. f = regular d \<and> servable ft (sk_text sk) d"
  shows "\<exists>body. answers_raw (handle_request sk (Received (message q c rest)) client config w) w body
    \<and> (status = '' 200 OK'' \<longrightarrow> wb_files w (target config q) = Some (regular body))
    \<and> (status = '' 404 Not Found'' \<longrightarrow> (\<forall>u. simple_not_found u = Inr (send_bytes u body)))
    \<and> (status = '' 501 Method Not Implemented'' \<longrightarrow> (\<forall>u. simple_not_implemented u = Inr (send_bytes u body)))"
  using simple_answer [OF assms(1-3), folded ft_def, folded status_def, OF assms(6)] .

definition sample_stack :: stack_bytes where
  "sample_stack = \<lparr>sk_buffer = replicate 1024 NUL, sk_request = blank_request,
     sk_ext = replicate 4 NUL, sk_text = replicate 8096 NUL\<rparr>"

definition sample_words :: request_words where
  "sample_words = \<lparr>rw_method = ''GET'', rw_path = ''/a.gif'', rw_protocol = ''HTTP/1.0''\<rparr>"

lemma sample_target: "target sample_config sample_words = ''/srv/a.gif''"
  "wanted sample_config (rw_path sample_words) = ''/a.gif''"
  by (simp_all add: target_def wanted_def sample_config_def sample_words_def)

lemma sample_arrives:
  assumes "q = sample_words \<or> q = sample_words\<lparr>rw_protocol := ''HTTP/0.9''\<rparr>"
    and "sk = sample_stack \<or> sk = sample_stack\<lparr>sk_request := blank_request\<lparr>rq_type := replicate 200 (CHR ''x'') @ replicate 55 NUL\<rparr>\<rparr>"
  shows "request_arrives sk sample_config q CR [LF] (sample_web ''/srv/a.gif'' f)"
proof -
  have "length (message q CR [LF]) = 21" "words_ok q"
    using assms(1) by (auto simp: message_def sample_words_def words_ok_def is_word_def isspace_def)
  moreover have "stack_ok sk q" using assms
    by (auto simp: stack_ok_def sample_stack_def blank_request_def request_shape_def sample_words_def)
  moreover have "NUL \<in> set (recv_buffer sk (Received (message q CR [LF])))"
    using assms(2) calculation(1) by (auto simp: recv_buffer_def sample_stack_def)
  moreover have "target sample_config q = ''/srv/a.gif''" using assms(1) sample_target(1) by (auto simp: target_def)
  ultimately show ?thesis
    unfolding request_arrives_def using sample_shapes(1)
    by (simp add: isspace_def) (simp add: sample_web_def)
qed

theorem simple_request_answered_witness:
  "answers_raw (handle_request sample_stack (Received (message (sample_words\<lparr>rw_protocol := ''HTTP/0.9''\<rparr>) CR [LF])) 5
     sample_config (sample_web ''/srv/a.gif'' (regular ''GIF89a''))) (sample_web ''/srv/a.gif'' (regular ''GIF89a'')) ''GIF89a''"
proof -
  let ?w = "sample_web ''/srv/a.gif'' (regular ''GIF89a'')" and ?q = "sample_words\<lparr>rw_protocol := ''HTTP/0.9''\<rparr>"
  have target: "target sample_config ?q = ''/srv/a.gif''" "wanted sample_config (rw_path ?q) = ''/a.gif''"
    using sample_target by (simp_all add: target_def)
  have ft: "file_type (sk_ext sample_stack) ''/a.gif'' = 2" by code_simp
  have "map lower (rw_method ?q) = ''get''" by code_simp
  then have status: "expected_status 2 (rw_method ?q) (wb_files ?w ''/srv/a.gif'' \<noteq> None) = '' 200 OK''"
    by (simp add: expected_status_def)
  have clean: "method_clean sample_stack ?q"
    by (simp add: method_clean_def sample_stack_def sample_words_def blank_request_def)
  have proto: "map lower (rw_protocol ?q) = ''http/0.9''" by code_simp
  have serv: "servable 2 (sk_text sample_stack) ''GIF89a''" by (simp add: servable_def)
  obtain body where "answers_raw (handle_request sample_stack (Received (message ?q CR [LF])) 5 sample_config ?w) ?w body"
      "wb_files ?w ''/srv/a.gif'' = Some (regular body)"
    using simple_request_answered [OF sample_arrives [of ?q sample_stack "regular ''GIF89a''"] clean proto, of 5] serv
    unfolding target ft status by fastforce
  moreover from this(2) have "body = ''GIF89a''" by (simp add: regular_def)
  ultimately show ?thesis by simp
qed

theorem request_answered_witness:
  "answers (handle_request sample_stack (Received (message sample_words CR [LF])) 5 sample_config
     (sample_web ''/srv/a.gif'' (regular ''GIF89a''))) (sample_web ''/srv/a.gif'' (regular ''GIF89a''))
     (rw_protocol sample_words @ '' 200 OK'') ''GIF89a''"
proof -
  let ?w = "sample_web ''/srv/a.gif'' (regular ''GIF89a'')"
  have ft: "file_type (sk_ext sample_stack) ''/a.gif'' = 2" by code_simp
  have "map lower (rw_method sample_words) = ''get''" by code_simp
  then have status: "expected_status 2 (rw_method sample_words) (wb_files ?w ''/srv/a.gif'' \<noteq> None) = '' 200 OK''"
    by (simp add: expected_status_def)
  have clean: "method_clean sample_stack sample_words"
    by (simp add: method_clean_def sample_stack_def sample_words_def blank_request_def)
  have proto: "map lower (rw_protocol sample_words) \<noteq> ''http/0.9''" by code_simp
  have serv: "servable 2 (sk_text sample_stack) ''GIF89a''" by (simp add: servable_def)
  obtain body where "answers (handle_request sample_stack (Received (message sample_words CR [LF])) 5 sample_config ?w) ?w
      (rw_protocol sample_words @ '' 200 OK'') body" "wb_files ?w ''/srv/a.gif'' = Some (regular body)"
    using request_answered [OF sample_arrives [of sample_words sample_stack "regular ''GIF89a''"] clean proto, of 5] serv
    unfolding sample_target ft status by fastforce
  moreover from this(2) have "body = ''GIF89a''" by (simp add: regular_def)
  ultimately show ?thesis by simp
qed

text \<open>
  C39. Whether a GET request is recognised depends on the stack: the method is copied without a
  terminator, and when the byte behind it happens to be another than zero, the request for
  the same file is answered with 501.
\<close>

theorem stale_stack_refuses_get:
  assumes "request_arrives sk config q c rest w" and "\<not> method_clean sk q"
    and "map lower (rw_method q) = ''get''" and "NUL \<in> set (drop 3 (rq_type (sk_request sk)))"
    and "map lower (rw_protocol q) \<noteq> ''http/0.9''"
  shows "\<exists>body. answers (handle_request sk (Received (message q c rest)) client config w) w
    (rw_protocol q @ '' 501 Method Not Implemented'') body"
proof -
  note facts = request_arrives_facts [OF assms(1)]
  let ?r = "parsed sk config q" and ?w = "logged sk (message q c rest) client w"
  have full: "\<not> simple_protocol ?r" unfolding facts(5) by (rule assms(5))
  have m: "length (rw_method q) = 3" using arg_cong [OF assms(3), of length] by simp
  then have "NUL \<in> set (rq_type ?r)" using assms(4) by (simp add: parsed_def over_def)
  then have t: "c_string (rq_type ?r) = Inr (cstr (rq_type ?r))" by (simp add: c_string_def)
  have get: "rq_file_type ?r = -2 \<or> \<not> str_caseeq (rq_type ?r) ''GET''"
    using parsed_method_stale [OF facts(8) assms(2,3)] by blast
  have world: "wb_out ?w = wb_out w" "wb_files ?w = wb_files w" by simp_all
  from reply_refused [OF facts(2,6) t full get world, of sk]
  show ?thesis unfolding facts(1,3) by simp
qed

theorem stale_stack_refuses_get_witness:
  "\<exists>body. answers (handle_request
      (sample_stack\<lparr>sk_request := blank_request\<lparr>rq_type := replicate 200 (CHR ''x'') @ replicate 55 NUL\<rparr>\<rparr>)
      (Received (message sample_words CR [LF])) 5 sample_config
      (sample_web ''/srv/a.gif'' (regular ''GIF89a''))) (sample_web ''/srv/a.gif'' (regular ''GIF89a''))
    (rw_protocol sample_words @ '' 501 Method Not Implemented'') body"
proof -
  let ?sk = "sample_stack\<lparr>sk_request := blank_request\<lparr>rq_type := replicate 200 (CHR ''x'') @ replicate 55 NUL\<rparr>\<rparr>"
  have "\<not> method_clean ?sk sample_words" "NUL \<in> set (drop 3 (rq_type (sk_request ?sk)))"
    by (simp_all add: method_clean_def sample_words_def nth_append)
  moreover have "map lower (rw_method sample_words) = ''get''" by code_simp
  moreover have "map lower (rw_protocol sample_words) \<noteq> ''http/0.9''" by code_simp
  ultimately show ?thesis
    by (intro stale_stack_refuses_get sample_arrives) simp_all
qed

end
