(* ===== verification/Http_Threads.thy ===== *)
theory Http_Threads
  imports Http_Server "HOL-Library.Sublist"
begin

text \<open>
  The HTTP server as a process: the accepting loop of \<open>main\<close> and the threads that run
  \<open>handle_request\<close>, in every interleaving, with browsers that may go before they are answered.
  The threads share the configuration and the files, which they only read; a thread's writes
  reach its browser in pieces of any size.
\<close>

section \<open>The process\<close>

text \<open>
  A thread has not received its request, is sending what is left of its response, or has closed
  its socket. When the request arrives (or the browser goes without one, which \<open>recv\<close> returns as
  no bytes), the bytes the socket has taken, and whether the browser has gone belong to the
  environment.
\<close>

datatype thread_phase = Starting | Sending string | Ended

record http_thread =
  th_socket :: int
  th_stack :: stack_bytes
  th_received :: received
  th_arrived :: bool
  th_phase :: thread_phase
  th_sent :: string
  th_gone :: bool

record http_process =
  hp_main :: main_state
  hp_threads :: "http_thread list"
  hp_now :: nat
  hp_stop :: "stop option"

type_synonym web_files = "string \<Rightarrow> web_file option"

text \<open>What a thread sees of the world when it begins.\<close>

definition fresh_web :: "web_files \<Rightarrow> nat \<Rightarrow> web" where
  "fresh_web files now = \<lparr>wb_files = files, wb_now = now, wb_out = [], wb_log = [], wb_access = [],
     wb_fds = 0, wb_closed = False\<rparr>"

definition new_thread :: "int \<Rightarrow> stack_bytes \<Rightarrow> received \<Rightarrow> http_thread" where
  "new_thread s sk rcv =
     \<lparr>th_socket = s, th_stack = sk, th_received = rcv, th_arrived = False, th_phase = Starting,
      th_sent = [], th_gone = False\<rparr>"

text \<open>
  A turn of a thread: it waits in \<open>recv\<close> until there is something to receive, and then decides what
  to send; or \<open>write\<close> hands over \<open>n\<close> bytes, none while it waits for the browser to read; or the
  thread closes the socket. Nothing in the code handles \<open>SIGPIPE\<close>: a \<open>write\<close> to a browser that has
  gone ends the process.
\<close>

definition thread_turn :: "config_data \<Rightarrow> web_files \<Rightarrow> nat \<Rightarrow> nat \<Rightarrow> http_thread \<Rightarrow> http_thread res" where
  "thread_turn config files now n t =
     (case th_phase t of
        Starting \<Rightarrow>
          if th_arrived t then
            map_res (\<lambda>w. t\<lparr>th_phase := Sending (wb_out w)\<rparr>)
              (handle_request (th_stack t) (th_received t) (th_socket t) config (fresh_web files now))
          else Inr t
      | Sending s \<Rightarrow>
          if s = [] then Inr (t\<lparr>th_phase := Ended\<rparr>)
          else if th_gone t then Inl (Killed SIGPIPE)
          else Inr (t\<lparr>th_sent := th_sent t @ take n s, th_phase := Sending (drop n s)\<rparr>)
      | Ended \<Rightarrow> Inr t)"

text \<open>The turn of thread \<open>i\<close> in the process: what stops the thread without a value stops all.\<close>

definition process_turn :: "config_data \<Rightarrow> web_files \<Rightarrow> nat \<Rightarrow> nat \<Rightarrow> http_process \<Rightarrow> http_process" where
  "process_turn config files i n p =
     (case thread_turn config files (hp_now p) n (hp_threads p ! i) of
        Inr t \<Rightarrow> p\<lparr>hp_threads := (hp_threads p)[i := t]\<rparr>
      | Inl e \<Rightarrow> p\<lparr>hp_stop := Some e\<rparr>)"

text \<open>
  The steps of the process, until it stops: \<open>main\<close> takes a connection, or stops over it, or, behind
  its loop, returns, which ends every thread; a request arrives; a thread has a turn; a browser
  goes; time passes.
\<close>

inductive http_step :: "config_data \<Rightarrow> web_files \<Rightarrow> http_process \<Rightarrow> http_process \<Rightarrow> bool"
  for config files where
  accepts: "hp_stop p = None \<Longrightarrow> mn_connections (hp_main p) \<le> cf_max_connections config \<Longrightarrow>
    accept_turn a (hp_main p) = Inr m \<Longrightarrow>
    http_step config files p (p\<lparr>hp_main := m, hp_threads := hp_threads p
      @ (if ac_thread a then [new_thread (ac_socket a) sk rcv] else [])\<rparr>)"
| accept_stops: "hp_stop p = None \<Longrightarrow> mn_connections (hp_main p) \<le> cf_max_connections config \<Longrightarrow>
    accept_turn a (hp_main p) = Inl e \<Longrightarrow> http_step config files p (p\<lparr>hp_stop := Some e\<rparr>)"
| returns: "hp_stop p = None \<Longrightarrow> cf_max_connections config < mn_connections (hp_main p) \<Longrightarrow>
    http_step config files p (p\<lparr>hp_stop := Some (Exit 1)\<rparr>)"
| thread: "hp_stop p = None \<Longrightarrow> i < length (hp_threads p) \<Longrightarrow>
    http_step config files p (process_turn config files i n p)"
| arrives: "hp_stop p = None \<Longrightarrow> i < length (hp_threads p) \<Longrightarrow>
    http_step config files p (p\<lparr>hp_threads := (hp_threads p)[i := (hp_threads p ! i)\<lparr>th_arrived := True\<rparr>]\<rparr>)"
| hangs_up: "hp_stop p = None \<Longrightarrow> i < length (hp_threads p) \<Longrightarrow>
    http_step config files p (p\<lparr>hp_threads := (hp_threads p)[i := (hp_threads p ! i)\<lparr>th_gone := True\<rparr>]\<rparr>)"
| clock: "hp_stop p = None \<Longrightarrow> http_step config files p (p\<lparr>hp_now := hp_now p + k\<rparr>)"

inductive_simps stopped_step: "http_step config files (p\<lparr>hp_stop := Some e\<rparr>) p1"

inductive http_reach :: "config_data \<Rightarrow> web_files \<Rightarrow> http_process \<Rightarrow> http_process \<Rightarrow> bool"
  for config files p0 where
  start: "http_reach config files p0 p0"
| step: "http_reach config files p0 p \<Longrightarrow> http_step config files p p1 \<Longrightarrow> http_reach config files p0 p1"

definition process_start :: "main_state \<Rightarrow> nat \<Rightarrow> http_process" where
  "process_start m now = \<lparr>hp_main = m, hp_threads = [], hp_now = now, hp_stop = None\<rparr>"

section \<open>A thread keeps to its own request\<close>

text \<open>
  What a thread has sent and has left is the response of \<open>handle_request\<close> to its own message,
  at a time between the start and now.
\<close>

definition own_response :: "config_data \<Rightarrow> web_files \<Rightarrow> nat \<Rightarrow> http_thread \<Rightarrow> string \<Rightarrow> bool" where
  "own_response config files now t s \<longleftrightarrow>
     (\<exists>u \<le> now. map_res wb_out
       (handle_request (th_stack t) (th_received t) (th_socket t) config (fresh_web files u)) = Inr s)"

definition thread_ok :: "config_data \<Rightarrow> web_files \<Rightarrow> nat \<Rightarrow> http_thread \<Rightarrow> bool" where
  "thread_ok config files now t \<longleftrightarrow>
     (case th_phase t of
        Starting \<Rightarrow> th_sent t = []
      | Sending s \<Rightarrow> own_response config files now t (th_sent t @ s)
      | Ended \<Rightarrow> own_response config files now t (th_sent t))"

lemma own_response_later:
  "own_response config files now t s \<Longrightarrow> now \<le> now1 \<Longrightarrow> own_response config files now1 t s"
  unfolding own_response_def by (meson order_trans)

lemma thread_ok_later: "thread_ok config files now t \<Longrightarrow> thread_ok config files (now + k) t"
  using own_response_later [of config files now t _ "now + k"]
  by (auto simp: thread_ok_def split: thread_phase.splits)

lemma own_response_phase [simp]:
  "own_response config files now (t\<lparr>th_phase := ph\<rparr>) s = own_response config files now t s"
  "own_response config files now (t\<lparr>th_sent := x\<rparr>) s = own_response config files now t s"
  "own_response config files now (t\<lparr>th_gone := g\<rparr>) s = own_response config files now t s"
  "own_response config files now (t\<lparr>th_arrived := g\<rparr>) s = own_response config files now t s"
  by (simp_all add: own_response_def)

lemma thread_ok_events:
  "thread_ok config files now (t\<lparr>th_gone := g\<rparr>) = thread_ok config files now t"
  "thread_ok config files now (t\<lparr>th_arrived := g\<rparr>) = thread_ok config files now t"
  by (simp_all add: thread_ok_def cong: thread_phase.case_cong)

lemma own_responseI:
  "handle_request (th_stack t) (th_received t) (th_socket t) config (fresh_web files now) = Inr w \<Longrightarrow>
   own_response config files now t (wb_out w)"
  unfolding own_response_def by (intro exI [of _ now]) simp

lemma thread_turn_ok:
  assumes "thread_ok config files now t" and "thread_turn config files now n t = Inr t1"
  shows "thread_ok config files now t1 \<and> th_socket t1 = th_socket t"
proof (cases "th_phase t")
  case Starting
  with assms show ?thesis
    by (auto simp: thread_turn_def thread_ok_def intro: own_responseI split: if_splits)
next
  case (Sending s)
  then show ?thesis
    using assms by (cases "s = []") (auto simp: thread_turn_def thread_ok_def split: if_splits)
next
  case Ended
  with assms show ?thesis by (simp add: thread_turn_def)
qed

definition process_ok :: "config_data \<Rightarrow> web_files \<Rightarrow> main_state \<Rightarrow> http_process \<Rightarrow> bool" where
  "process_ok config files m0 p \<longleftrightarrow>
     (\<forall>t \<in> set (hp_threads p). thread_ok config files (hp_now p) t)
     \<and> mn_threads (hp_main p) = mn_threads m0 @ map th_socket (hp_threads p)
     \<and> (\<exists>as. (\<forall>bs. accept_loop (cf_max_connections config) (as @ bs) m0
           = accept_loop (cf_max_connections config) bs (hp_main p))
         \<and> started as = map th_socket (hp_threads p))"

lemma process_okI:
  assumes "\<forall>t \<in> set (hp_threads p). thread_ok config files (hp_now p) t"
    and "mn_threads (hp_main p) = mn_threads m0 @ map th_socket (hp_threads p)"
    and "\<forall>bs. accept_loop (cf_max_connections config) (as @ bs) m0
      = accept_loop (cf_max_connections config) bs (hp_main p)"
    and "started as = map th_socket (hp_threads p)"
  shows "process_ok config files m0 p"
  using assms unfolding process_ok_def by blast

lemma process_event_ok:
  assumes "process_ok config files m0 p" and "i < length (hp_threads p)"
    and "thread_ok config files (hp_now p) (hp_threads p ! i) \<Longrightarrow> thread_ok config files (hp_now p) t"
    and "th_socket t = th_socket (hp_threads p ! i)"
  shows "process_ok config files m0 (p\<lparr>hp_threads := (hp_threads p)[i := t]\<rparr>)"
proof -
  have "map th_socket ((hp_threads p)[i := t]) = map th_socket (hp_threads p)"
    using assms(2,4) by (simp add: map_update list_update_same_conv)
  moreover have "thread_ok config files (hp_now p) t" using assms by (simp add: process_ok_def)
  ultimately show ?thesis
    using assms(1) by (auto simp: process_ok_def dest: set_update_subset_insert [THEN subsetD])
qed

lemma process_turn_ok:
  assumes "process_ok config files m0 p" and "i < length (hp_threads p)"
  shows "process_ok config files m0 (process_turn config files i n p)"
proof (cases "thread_turn config files (hp_now p) n (hp_threads p ! i)")
  case (Inl e)
  with assms show ?thesis by (simp add: process_turn_def process_ok_def)
next
  case (Inr t)
  have "thread_ok config files (hp_now p) (hp_threads p ! i)"
    using assms by (simp add: process_ok_def)
  from process_event_ok [OF assms] thread_turn_ok [OF this Inr] show ?thesis
    unfolding process_turn_def Inr by simp
qed

lemma accept_turn_started:
  "accept_turn a m = Inr m1 \<Longrightarrow> mn_threads m1 = mn_threads m @ started [a]"
  by (auto simp: accept_turn_def perror_def started_def Let_def split: if_splits)

lemma process_accepts_ok:
  assumes ok: "process_ok config files m0 p" and room: "mn_connections (hp_main p) \<le> cf_max_connections config"
    and turn: "accept_turn a (hp_main p) = Inr m"
    and new: "new = (if ac_thread a then [new_thread (ac_socket a) sk rcv] else [])"
  shows "process_ok config files m0 (p\<lparr>hp_main := m, hp_threads := hp_threads p @ new\<rparr>)"
proof -
  have new_facts: "map th_socket new = started [a]" "\<forall>t \<in> set new. thread_ok config files (hp_now p) t"
    by (simp_all add: new new_thread_def started_def thread_ok_def)
  from ok obtain as where as: "\<forall>bs. accept_loop (cf_max_connections config) (as @ bs) m0
      = accept_loop (cf_max_connections config) bs (hp_main p)"
      "started as = map th_socket (hp_threads p)" by (auto simp: process_ok_def)
  have "\<forall>bs. accept_loop (cf_max_connections config) ((as @ [a]) @ bs) m0 = accept_loop (cf_max_connections config) bs m"
    using as(1) room turn by simp
  moreover have "started (as @ [a]) = map th_socket (hp_threads p @ new)"
    using as(2) new_facts(1) by (simp add: started_def)
  moreover have "mn_threads m = mn_threads m0 @ map th_socket (hp_threads p @ new)"
    using ok accept_turn_started [OF turn] new_facts(1) by (simp add: process_ok_def)
  moreover have "\<forall>t \<in> set (hp_threads p @ new). thread_ok config files (hp_now p) t"
    using ok new_facts(2) by (auto simp: process_ok_def)
  moreover let ?p = "p\<lparr>hp_main := m, hp_threads := hp_threads p @ new\<rparr>"
  have "hp_main ?p = m" "hp_threads ?p = hp_threads p @ new" "hp_now ?p = hp_now p" by simp_all
  ultimately show ?thesis by (intro process_okI [where as = "as @ [a]"]) (simp_all only: simp_thms)
qed

lemma http_step_ok:
  assumes "http_step config files p p1" and "process_ok config files m0 p"
  shows "process_ok config files m0 p1"
  using assms(1)
proof (cases rule: http_step.cases)
  case (accepts a m sk rcv)
  from process_accepts_ok [OF assms(2) accepts(3,4) refl] show ?thesis unfolding accepts(1) .
next
  case (thread i n)
  with process_turn_ok [OF assms(2)] show ?thesis by simp
next
  case (arrives i)
  with process_event_ok [OF assms(2) arrives(3), of "(hp_threads p ! i)\<lparr>th_arrived := True\<rparr>"]
  show ?thesis by (simp add: thread_ok_events)
next
  case (hangs_up i)
  with process_event_ok [OF assms(2) hangs_up(3), of "(hp_threads p ! i)\<lparr>th_gone := True\<rparr>"]
  show ?thesis by (simp add: thread_ok_events)
next
  case (clock k)
  with assms(2) show ?thesis by (simp add: process_ok_def thread_ok_later)
qed (use assms(2) in \<open>simp_all add: process_ok_def\<close>)

lemma http_reach_ok:
  assumes "http_reach config files (process_start m0 now) p"
  shows "process_ok config files m0 p"
  using assms
proof (induction rule: http_reach.induct)
  case start
  have "started [] = []" by (simp add: started_def)
  then show ?case by (auto simp: process_ok_def process_start_def intro: exI [of _ "[]"])
next
  case (step p p1)
  from http_step_ok [OF step.hyps(2) step.IH] show ?case .
qed

section \<open>What a browser receives\<close>

definition answered_with :: "request_words \<Rightarrow> string \<Rightarrow> string \<Rightarrow> string \<Rightarrow> bool" where
  "answered_with q status body s \<longleftrightarrow>
     (if map lower (rw_protocol q) = ''http/0.9'' then s = body
      else \<exists>head. read_head s = Some ((rw_protocol q @ status) # head, body)
        \<and> last head = ''Content-Length: '' @ show_nat (length body))"

lemma any_answer:
  assumes "request_arrives sk config q c rest w" and "method_clean sk q" and "wb_out w = []"
  defines "status \<equiv> expected_status (file_type (sk_ext sk) (wanted config (rw_path q))) (rw_method q)
    (wb_files w (target config q) \<noteq> None)"
  assumes "\<And>f. status = '' 200 OK'' \<Longrightarrow> wb_files w (target config q) = Some f \<Longrightarrow>
    \<exists>d. f = regular d \<and> servable (file_type (sk_ext sk) (wanted config (rw_path q))) (sk_text sk) d"
  shows "\<exists>w1 body. handle_request sk (Received (message q c rest)) client config w = Inr w1
    \<and> answered_with q status body (wb_out w1)
    \<and> (status = '' 200 OK'' \<longrightarrow> wb_files w (target config q) = Some (regular body))"
proof (cases "map lower (rw_protocol q) = ''http/0.9''")
  case True
  from simple_answer [OF assms(1,2) True, folded status_def, OF assms(5), of client] obtain body where
    "answers_raw (handle_request sk (Received (message q c rest)) client config w) w body"
    "status = '' 200 OK'' \<longrightarrow> wb_files w (target config q) = Some (regular body)" by blast
  with True assms(3) show ?thesis unfolding answers_raw_def answered_with_def by force
next
  case False
  from full_answer [OF assms(1,2) False, folded status_def, OF assms(5), of client] obtain body where
    "answers (handle_request sk (Received (message q c rest)) client config w) w (rw_protocol q @ status) body"
    "status = '' 200 OK'' \<longrightarrow> wb_files w (target config q) = Some (regular body)" by blast
  with False assms(3) show ?thesis unfolding answers_def answered_with_def by force
qed

lemma request_arrives_earlier:
  "request_arrives sk config q c rest (fresh_web files now) \<Longrightarrow> u \<le> now \<Longrightarrow>
   request_arrives sk config q c rest (fresh_web files u)"
  by (simp add: request_arrives_def fresh_web_def)

lemma own_responseE:
  assumes "own_response config files now t s"
  obtains u w where "u \<le> now" and "wb_out w = s"
    and "handle_request (th_stack t) (th_received t) (th_socket t) config (fresh_web files u) = Inr w"
  using assms that unfolding own_response_def map_res_eq_Inr by blast

lemma thread_ok_sent:
  assumes "thread_ok config files now t" and "th_phase t \<noteq> Starting"
  shows "\<exists>u w. u \<le> now \<and> prefix (th_sent t) (wb_out w) \<and> (th_phase t = Ended \<longrightarrow> th_sent t = wb_out w)
    \<and> handle_request (th_stack t) (th_received t) (th_socket t) config (fresh_web files u) = Inr w"
proof -
  obtain s where s: "own_response config files now t s" "prefix (th_sent t) s" "th_phase t = Ended \<longrightarrow> th_sent t = s"
    using assms by (auto simp: thread_ok_def split: thread_phase.splits)
  from s(1) show ?thesis by (rule own_responseE) (use s(2,3) in blast)
qed

text \<open>
  The thread was sent a request that the server can answer by the time \<open>now\<close>: a message of three
  words (\<open>request_arrives\<close>), with a zero byte behind the method, whose file, when it is to be sent,
  can be sent exactly.
\<close>

definition answer_status :: "config_data \<Rightarrow> web_files \<Rightarrow> http_thread \<Rightarrow> request_words \<Rightarrow> string" where
  "answer_status config files t q =
     expected_status (file_type (sk_ext (th_stack t)) (wanted config (rw_path q))) (rw_method q)
       (files (target config q) \<noteq> None)"

definition asks :: "config_data \<Rightarrow> web_files \<Rightarrow> nat \<Rightarrow> http_thread \<Rightarrow> request_words \<Rightarrow> char \<Rightarrow> string \<Rightarrow> bool" where
  "asks config files now t q c rest \<longleftrightarrow>
     th_received t = Received (message q c rest)
     \<and> request_arrives (th_stack t) config q c rest (fresh_web files now) \<and> method_clean (th_stack t) q
     \<and> (\<forall>f. answer_status config files t q = '' 200 OK'' \<and> files (target config q) = Some f \<longrightarrow>
         (\<exists>d. f = regular d \<and> servable (file_type (sk_ext (th_stack t)) (wanted config (rw_path q)))
                (sk_text (th_stack t)) d))"

definition good_request :: "config_data \<Rightarrow> web_files \<Rightarrow> nat \<Rightarrow> http_thread \<Rightarrow> bool" where
  "good_request config files now t \<longleftrightarrow> (\<exists>q c rest. asks config files now t q c rest)"

text \<open>The bytes are the right answer to the request.\<close>

definition answers_request :: "config_data \<Rightarrow> web_files \<Rightarrow> http_thread \<Rightarrow> request_words \<Rightarrow> string \<Rightarrow> bool" where
  "answers_request config files t q s \<longleftrightarrow>
     (\<exists>body. answered_with q (answer_status config files t q) body s
       \<and> (answer_status config files t q = '' 200 OK'' \<longrightarrow> files (target config q) = Some (regular body)))"

lemma asks_earlier: "asks config files now t q c rest \<Longrightarrow> u \<le> now \<Longrightarrow> asks config files u t q c rest"
  using request_arrives_earlier unfolding asks_def by blast

lemma asks_same:
  "th_received t1 = th_received t \<Longrightarrow> th_stack t1 = th_stack t \<Longrightarrow>
   asks config files now t1 q c rest = asks config files now t q c rest"
  by (simp only: asks_def answer_status_def)

lemma asks_answered:
  assumes "asks config files now t q c rest"
  shows "\<exists>w. handle_request (th_stack t) (th_received t) (th_socket t) config (fresh_web files now) = Inr w
    \<and> answers_request config files t q (wb_out w)"
proof -
  have web: "wb_files (fresh_web files now) = files" "wb_out (fresh_web files now) = []"
    by (simp_all add: fresh_web_def)
  from assms have "request_arrives (th_stack t) config q c rest (fresh_web files now)" "method_clean (th_stack t) q"
    "th_received t = Received (message q c rest)" by (simp_all add: asks_def)
  with any_answer [OF this(1,2) web(2), of "th_socket t"] assms show ?thesis
    unfolding web answers_request_def asks_def answer_status_def by auto
qed

lemma own_answer:
  assumes "thread_ok config files now t" and "asks config files now t q c rest"
  shows "\<exists>s. answers_request config files t q s \<and> prefix (th_sent t) s \<and> (th_phase t = Ended \<longrightarrow> th_sent t = s)"
proof (cases "th_phase t = Starting")
  case True
  then have "th_sent t = []" using assms(1) by (simp add: thread_ok_def)
  with True asks_answered [OF assms(2)] show ?thesis by auto
next
  case False
  from thread_ok_sent [OF assms(1) False] obtain u w where u: "u \<le> now" "prefix (th_sent t) (wb_out w)"
      "th_phase t = Ended \<longrightarrow> th_sent t = wb_out w"
      "handle_request (th_stack t) (th_received t) (th_socket t) config (fresh_web files u) = Inr w" by blast
  with asks_answered [OF asks_earlier [OF assms(2) u(1)]] show ?thesis by auto
qed

section \<open>How the process ends\<close>

text \<open>
  Why the process has stopped: \<open>main\<close> returned with one connection more than the maximum; a browser
  had gone while its thread had bytes to send; or a thread received what is no good request, and
  that made \<open>handle_request\<close> stop without a value.
\<close>

definition end_cause :: "config_data \<Rightarrow> web_files \<Rightarrow> http_process \<Rightarrow> stop \<Rightarrow> bool" where
  "end_cause config files p e \<longleftrightarrow>
     e = Exit 1 \<and> mn_connections (hp_main p) > cf_max_connections config
     \<or> e = Killed SIGPIPE \<and> (\<exists>t \<in> set (hp_threads p). th_gone t \<and> (\<exists>s. th_phase t = Sending s \<and> s \<noteq> []))
     \<or> (\<exists>t \<in> set (hp_threads p). th_phase t = Starting \<and> th_arrived t \<and> \<not> good_request config files (hp_now p) t
         \<and> handle_request (th_stack t) (th_received t) (th_socket t) config (fresh_web files (hp_now p)) = Inl e)"

lemma thread_turn_stops:
  assumes "thread_turn config files now n t = Inl e"
  shows "e = Killed SIGPIPE \<and> th_gone t \<and> (\<exists>s. th_phase t = Sending s \<and> s \<noteq> [])
    \<or> th_phase t = Starting \<and> th_arrived t \<and> \<not> good_request config files now t
        \<and> handle_request (th_stack t) (th_received t) (th_socket t) config (fresh_web files now) = Inl e"
proof (cases "th_phase t")
  case Starting
  with assms have "th_arrived t"
      "handle_request (th_stack t) (th_received t) (th_socket t) config (fresh_web files now) = Inl e"
    by (simp_all add: thread_turn_def split: if_splits)
  moreover have "\<not> good_request config files now t"
    using asks_answered [of config files now t] calculation(2) by (auto simp: good_request_def)
  ultimately show ?thesis using Starting by simp
qed (use assms in \<open>simp_all add: thread_turn_def split: if_splits\<close>)

lemma http_step_cause:
  assumes "http_step config files p p1" and "hp_stop p1 = Some e" and "cf_max_connections config < INT_MAX"
  shows "end_cause config files p1 e"
  using assms(1)
proof (cases rule: http_step.cases)
  case (accept_stops a e1)
  with accept_turn_counts [of "hp_main p" a] assms(3) show ?thesis by simp
next
  case returns
  then show ?thesis using assms(2) by (simp add: end_cause_def)
next
  case (thread i n)
  show ?thesis
  proof (cases "thread_turn config files (hp_now p) n (hp_threads p ! i)")
    case (Inl e1)
    then have "p1 = p\<lparr>hp_stop := Some e1\<rparr>" using thread(1) by (simp add: process_turn_def)
    then show ?thesis
      using thread_turn_stops [OF Inl] nth_mem [OF thread(3)] assms(2) unfolding end_cause_def by auto
  next
    case (Inr t)
    then show ?thesis using thread assms(2) by (simp add: process_turn_def)
  qed
qed (use assms(2) in simp_all)

lemma stopped_for_ever: "hp_stop p = Some e \<Longrightarrow> \<not> http_step config files p p1"
  by (auto elim: http_step.cases)

lemma http_reach_cause:
  assumes "http_reach config files p0 p" and "hp_stop p0 = None" and "hp_stop p = Some e"
    and "cf_max_connections config < INT_MAX"
  shows "end_cause config files p e"
  using assms(1)
proof (cases rule: http_reach.cases)
  case start
  then show ?thesis using assms(2,3) by simp
next
  case (step p1)
  from http_step_cause [OF step(2) assms(3,4)] show ?thesis .
qed

section \<open>Executions\<close>

text \<open>
  An execution is an infinite sequence of states; a process that has stopped stays as it is. The
  scheduler and the browser of thread \<open>i\<close> are fair to it when it has infinitely many turns whose
  \<open>write\<close> hands over a byte at least, unless the process stops; between them it may wait and
  others may do anything.
\<close>

definition execution :: "config_data \<Rightarrow> web_files \<Rightarrow> (nat \<Rightarrow> http_process) \<Rightarrow> bool" where
  "execution config files run \<longleftrightarrow>
     (\<forall>k. http_step config files (run k) (run (Suc k)) \<or> hp_stop (run k) \<noteq> None \<and> run (Suc k) = run k)"

definition given_turns :: "config_data \<Rightarrow> web_files \<Rightarrow> nat \<Rightarrow> (nat \<Rightarrow> http_process) \<Rightarrow> bool" where
  "given_turns config files i run \<longleftrightarrow>
     (\<forall>k. \<exists>l \<ge> k. hp_stop (run l) \<noteq> None \<or> (\<exists>n. run (Suc l) = process_turn config files i (Suc n) (run l)))"

lemma execution_reach: "execution config files run \<Longrightarrow> http_reach config files (run 0) (run k)"
proof (induction k)
  case (Suc k)
  then show ?case using http_reach.step unfolding execution_def by metis
qed (rule http_reach.start)

text \<open>What a thread has left to do once it has its request, and how it may change in a step.\<close>

fun phase_left :: "thread_phase \<Rightarrow> nat" where
  "phase_left (Sending s) = Suc (length s)"
| "phase_left _ = 0"

definition advances :: "http_thread \<Rightarrow> http_thread \<Rightarrow> bool" where
  "advances t t1 \<longleftrightarrow> th_received t1 = th_received t \<and> th_stack t1 = th_stack t
     \<and> (th_arrived t \<longrightarrow> th_arrived t1)
     \<and> (th_phase t \<noteq> Starting \<longrightarrow> th_phase t1 \<noteq> Starting \<and> phase_left (th_phase t1) \<le> phase_left (th_phase t))"

lemma advances_refl: "advances t t"
  by (simp add: advances_def)

lemma advances_trans: "advances t t1 \<Longrightarrow> advances t1 t2 \<Longrightarrow> advances t t2"
  by (auto simp: advances_def)

lemma turn_advances: "thread_turn config files now n t = Inr t1 \<Longrightarrow> advances t t1"
  by (auto simp: thread_turn_def advances_def split: thread_phase.splits if_splits)

lemma turn_progress:
  assumes "thread_turn config files now (Suc n) t = Inr t1" and "th_arrived t" and "th_phase t \<noteq> Ended"
  shows "th_phase t1 \<noteq> Starting \<and> (th_phase t \<noteq> Starting \<longrightarrow> phase_left (th_phase t1) < phase_left (th_phase t))"
  using assms by (auto simp: thread_turn_def split: thread_phase.splits if_splits)

lemma update_advances:
  "advances (ts ! i) t \<Longrightarrow> j < length ts \<Longrightarrow> advances (ts ! j) (ts[i := t] ! j)"
  by (cases "i = j") (simp_all add: advances_refl)

lemma step_advances:
  assumes "http_step config files p p1" and "j < length (hp_threads p)"
  shows "j < length (hp_threads p1) \<and> advances (hp_threads p ! j) (hp_threads p1 ! j)"
  using assms(1)
proof (cases rule: http_step.cases)
  case (thread i n)
  then show ?thesis
    using assms(2) update_advances [OF turn_advances, of config files "hp_now p" n "hp_threads p" i]
    by (simp add: process_turn_def advances_refl split: sum.splits)
next
  case (arrives i)
  have "advances (hp_threads p ! i) ((hp_threads p ! i)\<lparr>th_arrived := True\<rparr>)" by (simp add: advances_def)
  from update_advances [OF this assms(2)] show ?thesis using arrives assms(2) by simp
next
  case (hangs_up i)
  have "advances (hp_threads p ! i) ((hp_threads p ! i)\<lparr>th_gone := True\<rparr>)" by (simp add: advances_def)
  from update_advances [OF this assms(2)] show ?thesis using hangs_up assms(2) by simp
qed (use assms(2) in \<open>simp_all add: nth_append advances_refl\<close>)

lemma execution_advances:
  assumes "execution config files run" and "j < length (hp_threads (run k))" and "k \<le> l"
  shows "j < length (hp_threads (run l)) \<and> advances (hp_threads (run k) ! j) (hp_threads (run l) ! j)"
  using assms(3)
proof (induction l rule: dec_induct)
  case base
  then show ?case using assms(2) by (simp add: advances_refl)
next
  case (step l)
  have "http_step config files (run l) (run (Suc l)) \<or> run (Suc l) = run l"
    using assms(1) unfolding execution_def by blast
  then show ?case
  proof
    assume "http_step config files (run l) (run (Suc l))"
    from step_advances [OF this] step.IH show ?thesis by (blast intro: advances_trans)
  qed (use step.IH in simp)
qed

text \<open>The process has stopped, or the thread has ended.\<close>

definition over_for :: "nat \<Rightarrow> http_process \<Rightarrow> bool" where
  "over_for i p \<longleftrightarrow> hp_stop p \<noteq> None \<or> th_phase (hp_threads p ! i) = Ended"

lemma next_turn:
  assumes "execution config files run" and "given_turns config files i run"
    and "i < length (hp_threads (run k))" and "th_arrived (hp_threads (run k) ! i)"
  shows "\<exists>l \<ge> k. over_for i (run l) \<or> th_phase (hp_threads (run l) ! i) \<noteq> Starting
    \<and> (th_phase (hp_threads (run k) ! i) \<noteq> Starting \<longrightarrow>
        phase_left (th_phase (hp_threads (run l) ! i)) < phase_left (th_phase (hp_threads (run k) ! i)))"
proof -
  obtain l where l: "k \<le> l" "hp_stop (run l) \<noteq> None \<or> (\<exists>n. run (Suc l) = process_turn config files i (Suc n) (run l))"
    using assms(2) unfolding given_turns_def by blast
  note sofar = execution_advances [OF assms(1,3) l(1)]
  show ?thesis
  proof (cases "over_for i (run l)")
    case True
    with l(1) show ?thesis by blast
  next
    case False
    then obtain n where n: "run (Suc l) = process_turn config files i (Suc n) (run l)"
      using l(2) by (auto simp: over_for_def)
    show ?thesis
    proof (cases "thread_turn config files (hp_now (run l)) (Suc n) (hp_threads (run l) ! i)")
      case (Inl e)
      with n have "over_for i (run (Suc l))" by (simp add: process_turn_def over_for_def)
      with l(1) show ?thesis by (intro exI [of _ "Suc l"]) simp
    next
      case (Inr t1)
      then have t1: "hp_threads (run (Suc l)) ! i = t1" using n sofar by (simp add: process_turn_def)
      from turn_progress [OF Inr] sofar assms(4) False
      have "th_phase t1 \<noteq> Starting \<and> (th_phase (hp_threads (run l) ! i) \<noteq> Starting \<longrightarrow>
          phase_left (th_phase t1) < phase_left (th_phase (hp_threads (run l) ! i)))"
        by (simp add: over_for_def advances_def)
      with sofar t1 l(1) show ?thesis by (intro exI [of _ "Suc l"]) (auto simp: advances_def)
    qed
  qed
qed

lemma sending_ends:
  assumes "execution config files run" and "given_turns config files i run"
  shows "i < length (hp_threads (run k)) \<Longrightarrow> th_arrived (hp_threads (run k) ! i) \<Longrightarrow>
    th_phase (hp_threads (run k) ! i) \<noteq> Starting \<Longrightarrow> \<exists>l \<ge> k. over_for i (run l)"
proof (induction "phase_left (th_phase (hp_threads (run k) ! i))" arbitrary: k rule: less_induct)
  case less
  from next_turn [OF assms less.prems(1,2)] less.prems(3) obtain l where l: "k \<le> l"
    "over_for i (run l) \<or> th_phase (hp_threads (run l) ! i) \<noteq> Starting
      \<and> phase_left (th_phase (hp_threads (run l) ! i)) < phase_left (th_phase (hp_threads (run k) ! i))" by blast
  have "i < length (hp_threads (run l))" "th_arrived (hp_threads (run l) ! i)"
    using execution_advances [OF assms(1) less.prems(1) l(1)] less.prems(2) by (simp_all add: advances_def)
  with less.hyps [of l] l show ?case by (meson order_trans)
qed

lemma thread_ends:
  assumes "execution config files run" and "given_turns config files i run"
    and "i < length (hp_threads (run k))" and "th_arrived (hp_threads (run k) ! i)"
  shows "\<exists>l \<ge> k. over_for i (run l)"
proof -
  from next_turn [OF assms] obtain l where l: "k \<le> l"
    "over_for i (run l) \<or> th_phase (hp_threads (run l) ! i) \<noteq> Starting" by blast
  have "i < length (hp_threads (run l))" "th_arrived (hp_threads (run l) ! i)"
    using execution_advances [OF assms(1,3) l(1)] assms(4) by (simp_all add: advances_def)
  with sending_ends [OF assms(1,2), of l] l show ?thesis by (meson order_trans)
qed

section \<open>Properties\<close>

text \<open>
  C8. Whatever the other connections do, and however the threads are interleaved, a browser
  receives a prefix of the correct answer to its own request, and all of it when its thread has
  ended: 501, 404 or 200 with the bytes of the file it asked for.
\<close>

theorem every_browser_answered:
  assumes "http_reach config files (process_start m0 now0) p" and "t \<in> set (hp_threads p)"
    and "th_received t = Received (message q c rest)"
    and "request_arrives (th_stack t) config q c rest (fresh_web files (hp_now p))"
    and "method_clean (th_stack t) q"
  defines "ft \<equiv> file_type (sk_ext (th_stack t)) (wanted config (rw_path q))"
  defines "status \<equiv> expected_status ft (rw_method q) (files (target config q) \<noteq> None)"
  assumes "\<And>f. status = '' 200 OK'' \<Longrightarrow> files (target config q) = Some f \<Longrightarrow>
    \<exists>d. f = regular d \<and> servable ft (sk_text (th_stack t)) d"
  shows "\<exists>s body. answered_with q status body s \<and> prefix (th_sent t) s \<and> (th_phase t = Ended \<longrightarrow> th_sent t = s)
    \<and> (status = '' 200 OK'' \<longrightarrow> files (target config q) = Some (regular body))"
proof -
  have "thread_ok config files (hp_now p) t"
    using http_reach_ok [OF assms(1)] assms(2) by (simp add: process_ok_def)
  moreover have "asks config files (hp_now p) t q c rest"
    using assms(3-5,8) unfolding asks_def answer_status_def status_def ft_def by blast
  ultimately show ?thesis
    using own_answer unfolding answers_request_def answer_status_def status_def ft_def by blast
qed

text \<open>
  C27. Every good request is answered. In every execution, once the request of a thread has
  arrived, when it is good at every moment (its file can be sent, and the clock stays before the year
  9994) and the scheduler and the browser are fair to the thread, the thread closes its
  socket after it has sent the whole of the right answer, unless the process stops first, which
  has the three causes of \<open>end_cause\<close> only: the maximum of connections, a browser that went too
  early, or what another browser sent that is no good request.
\<close>

theorem every_request_gets_answer:
  assumes "execution config files run" and "run 0 = process_start m0 now0"
    and "cf_max_connections config < INT_MAX"
    and "i < length (hp_threads (run k))" and "th_arrived (hp_threads (run k) ! i)"
    and "\<forall>l. asks config files (hp_now (run l)) (hp_threads (run k) ! i) q c rest"
    and "given_turns config files i run"
  shows "\<exists>l \<ge> k. let t = hp_threads (run l) ! i in
    th_phase t = Ended \<and> answers_request config files t q (th_sent t)
    \<or> (\<exists>e. hp_stop (run l) = Some e \<and> end_cause config files (run l) e)"
proof -
  obtain l where l: "k \<le> l" "over_for i (run l)" using thread_ends [OF assms(1,7,4,5)] by blast
  let ?t = "hp_threads (run l) ! i"
  have reach: "http_reach config files (process_start m0 now0) (run l)"
    using execution_reach [OF assms(1)] assms(2) by metis
  show ?thesis
  proof (cases "hp_stop (run l)")
    case None
    note now = execution_advances [OF assms(1,4) l(1)]
    from now have "asks config files (hp_now (run l)) ?t q c rest"
      using spec [OF assms(6), of l] asks_same [of ?t "hp_threads (run k) ! i"] by (simp add: advances_def)
    moreover have "thread_ok config files (hp_now (run l)) ?t"
      using http_reach_ok [OF reach] now by (simp add: process_ok_def)
    ultimately obtain s where "answers_request config files ?t q s" "th_phase ?t = Ended \<longrightarrow> th_sent ?t = s"
      using own_answer by blast
    moreover have "th_phase ?t = Ended" using l(2) None by (simp add: over_for_def)
    ultimately have "answers_request config files ?t q (th_sent ?t)" "th_phase ?t = Ended" by simp_all
    with l(1) show ?thesis unfolding Let_def by blast
  next
    case (Some e)
    have "hp_stop (process_start m0 now0) = None" by (simp add: process_start_def)
    from http_reach_cause [OF reach this Some assms(3)] Some l(1) show ?thesis unfolding Let_def by blast
  qed
qed


text \<open>The process ended in this way, with these bytes sent by the threads.\<close>

definition ends_with :: "config_data \<Rightarrow> web_files \<Rightarrow> http_process \<Rightarrow> stop \<Rightarrow> string list \<Rightarrow> bool" where
  "ends_with config files p e sent \<longleftrightarrow>
     (\<exists>p1. http_reach config files p p1 \<and> hp_stop p1 = Some e \<and> map th_sent (hp_threads p1) = sent
       \<and> (\<forall>p2. \<not> http_step config files p1 p2))"

lemma ends_withI:
  "http_reach config files p p1 \<Longrightarrow> hp_stop p1 = Some e \<Longrightarrow> map th_sent (hp_threads p1) = sent \<Longrightarrow>
   ends_with config files p e sent"
  unfolding ends_with_def using stopped_for_ever by blast

text \<open>
  C40. Two events cut off every response that is on its way. A browser that goes while its
  thread has bytes to send can end the whole process by \<open>SIGPIPE\<close>, and the connection that
  reaches the maximum can end it by the return of \<open>main\<close>: no thread sends another byte then, and
  the browser of the last connection receives nothing.
\<close>

theorem responses_cut:
  assumes "hp_stop p = None" and "cf_max_connections config < INT_MAX"
  shows "(i < length (hp_threads p) \<and> th_phase (hp_threads p ! i) = Sending s \<and> s \<noteq> [] \<longrightarrow>
      ends_with config files p (Killed SIGPIPE) (map th_sent (hp_threads p)))
    \<and> (mn_connections (hp_main p) = cf_max_connections config \<and> ac_thread (a :: accepted) \<longrightarrow>
      ends_with config files p (Exit 1) (map th_sent (hp_threads p) @ [[]]))"
proof (intro conjI impI)
  assume i: "i < length (hp_threads p) \<and> th_phase (hp_threads p ! i) = Sending s \<and> s \<noteq> []"
  let ?gone = "(hp_threads p ! i)\<lparr>th_gone := True\<rparr>" and ?p = "p\<lparr>hp_threads := (hp_threads p)[i := (hp_threads p ! i)\<lparr>th_gone := True\<rparr>]\<rparr>"
  have "http_reach config files p ?p"
    using assms(1) i by (intro http_reach.step [OF http_reach.start] http_step.hangs_up) auto
  moreover have "http_step config files ?p (process_turn config files i 0 ?p)"
    using assms(1) i by (intro http_step.thread) auto
  ultimately have "http_reach config files p (process_turn config files i 0 ?p)" by (rule http_reach.step)
  then show "ends_with config files p (Killed SIGPIPE) (map th_sent (hp_threads p))"
    by (rule ends_withI)
      (use i in \<open>auto simp: process_turn_def thread_turn_def map_update list_update_same_conv\<close>)
next
  assume last_one: "mn_connections (hp_main p) = cf_max_connections config \<and> ac_thread a"
  obtain m where m: "accept_turn a (hp_main p) = Inr m" "mn_connections m = mn_connections (hp_main p) + 1"
    using accept_turn_counts [of "hp_main p" a] assms(2) last_one by auto
  let ?p = "p\<lparr>hp_main := m, hp_threads := hp_threads p @ [new_thread (ac_socket a) sample_stack (Received [])]\<rparr>"
  have "http_step config files p ?p"
    using http_step.accepts [OF assms(1) _ m(1), of config files sample_stack "Received []"] last_one by simp
  moreover have "http_step config files ?p (?p\<lparr>hp_stop := Some (Exit 1)\<rparr>)"
    using assms(1) m(2) last_one by (intro http_step.returns) auto
  ultimately have "http_reach config files p (?p\<lparr>hp_stop := Some (Exit 1)\<rparr>)"
    by (rule http_reach.step [OF http_reach.step [OF http_reach.start]])
  then show "ends_with config files p (Exit 1) (map th_sent (hp_threads p) @ [[]])"
    by (rule ends_withI) (simp_all add: new_thread_def)
qed

section \<open>Concrete processes\<close>

text \<open>A process with one connection, whose browser asked for the file of the samples.\<close>

abbreviation sample_thread :: http_thread where
  "sample_thread \<equiv> new_thread 5 sample_stack (Received (message sample_words CR [LF]))"

definition sample_process :: http_process where
  "sample_process = \<lparr>hp_main = main_start\<lparr>mn_connections := 1, mn_threads := [5],
       mn_err := ''got a connection'' @ [LF]\<rparr>,
     hp_threads = [sample_thread],
     hp_now = 784111777, hp_stop = None\<rparr>"

abbreviation sample_files :: web_files where
  "sample_files \<equiv> [''/srv/a.gif'' \<mapsto> regular ''GIF89a'']"

lemma sample_fresh: "fresh_web sample_files 784111777 = sample_web ''/srv/a.gif'' (regular ''GIF89a'')"
  by (simp add: fresh_web_def sample_web_def)

lemma sample_accepted:
  "http_step sample_config sample_files (process_start main_start 784111777) sample_process"
proof -
  let ?a = "\<lparr>ac_socket = 5, ac_thread = True, ac_error = []\<rparr>"
  let ?p0 = "process_start main_start 784111777"
  have "http_step sample_config sample_files ?p0
      (?p0\<lparr>hp_main := hp_main sample_process, hp_threads := hp_threads ?p0
        @ (if ac_thread ?a then [new_thread (ac_socket ?a) sample_stack (Received (message sample_words CR [LF]))] else [])\<rparr>)"
    by (rule http_step.accepts)
      (simp_all add: process_start_def main_start_def sample_config_def sample_process_def accept_turn_def Let_def)
  then show ?thesis by (simp add: process_start_def sample_process_def)
qed

lemma sample_request:
  "request_arrives sample_stack sample_config sample_words CR [LF] (fresh_web sample_files 784111777)"
  "method_clean sample_stack sample_words"
  "target sample_config sample_words = ''/srv/a.gif''"
  "file_type (sk_ext sample_stack) (wanted sample_config (rw_path sample_words)) = 2"
  "expected_status 2 (rw_method sample_words) True = '' 200 OK''"
  "map lower (rw_protocol sample_words) \<noteq> ''http/0.9''"
proof -
  show "request_arrives sample_stack sample_config sample_words CR [LF] (fresh_web sample_files 784111777)"
    unfolding sample_fresh by (rule sample_arrives) simp_all
  show "method_clean sample_stack sample_words"
    by (simp add: method_clean_def sample_stack_def sample_words_def blank_request_def)
  show "target sample_config sample_words = ''/srv/a.gif''" by (rule sample_target)
  show "file_type (sk_ext sample_stack) (wanted sample_config (rw_path sample_words)) = 2"
    unfolding sample_target by code_simp
  show "expected_status 2 (rw_method sample_words) True = '' 200 OK''" by code_simp
  show "map lower (rw_protocol sample_words) \<noteq> ''http/0.9''" by code_simp
qed

text \<open>
  A run of it: the connection is taken, the request arrives, and three turns of the thread, the
  second for the whole response \<open>s\<close>, end it. Then nothing changes any more.
\<close>

definition sample_run :: "string \<Rightarrow> nat \<Rightarrow> http_process" where
  "sample_run s k =
     (if k = 0 then process_start main_start 784111777
      else if k = 1 then sample_process
      else sample_process\<lparr>hp_threads := [sample_thread\<lparr>th_arrived := True,
        th_phase := (if k = 2 then Starting else if k = 3 then Sending s else if k = 4 then Sending [] else Ended),
        th_sent := (if k \<le> 3 then [] else s)\<rparr>]\<rparr>)"

lemma sample_turns:
  assumes "handle_request sample_stack (Received (message sample_words CR [LF])) 5 sample_config
      (fresh_web sample_files 784111777) = Inr w" and "wb_out w \<noteq> []" and "2 \<le> k"
  shows "sample_run (wb_out w) (Suc k)
    = process_turn sample_config sample_files 0 (Suc (length (wb_out w))) (sample_run (wb_out w) k)"
proof -
  consider "k = 2" | "k = 3" | "k = 4" | "5 \<le> k" using assms(3) by linarith
  then show ?thesis
    by cases (use assms in \<open>simp_all add: sample_run_def sample_process_def process_turn_def thread_turn_def new_thread_def\<close>)
qed

lemma sample_execution:
  assumes "handle_request sample_stack (Received (message sample_words CR [LF])) 5 sample_config
      (fresh_web sample_files 784111777) = Inr w" and "wb_out w \<noteq> []"
  shows "execution sample_config sample_files (sample_run (wb_out w))"
    and "given_turns sample_config sample_files 0 (sample_run (wb_out w))"
proof -
  let ?run = "sample_run (wb_out w)"
  note turns = sample_turns [OF assms]
  have "http_step sample_config sample_files (?run k) (?run (Suc k))" for k
  proof -
    consider "k = 0" | "k = 1" | "2 \<le> k" by linarith
    then show ?thesis
    proof cases
      case 1
      with sample_accepted show ?thesis by (simp add: sample_run_def)
    next
      case 2
      have "http_step sample_config sample_files sample_process
          (sample_process\<lparr>hp_threads := (hp_threads sample_process)[0 := (hp_threads sample_process ! 0)\<lparr>th_arrived := True\<rparr>]\<rparr>)"
        by (rule http_step.arrives) (simp_all add: sample_process_def)
      with 2 show ?thesis by (simp add: sample_run_def sample_process_def new_thread_def)
    next
      case 3
      have "hp_stop (?run k) = None" "0 < length (hp_threads (?run k))"
        using 3 by (simp_all add: sample_run_def sample_process_def)
      from http_step.thread [OF this] turns [OF 3] show ?thesis by simp
    qed
  qed
  then show "execution sample_config sample_files ?run" by (simp add: execution_def)
  have "max 2 k \<ge> k \<and> ?run (Suc (max 2 k)) = process_turn sample_config sample_files 0 (Suc (length (wb_out w))) (?run (max 2 k))" for k
    using turns [of "max 2 k"] by simp
  then show "given_turns sample_config sample_files 0 ?run" unfolding given_turns_def by blast
qed

lemma sample_thread_asks:
  "asks sample_config sample_files 784111777 (sample_thread\<lparr>th_arrived := x, th_phase := y, th_sent := z\<rparr>) sample_words CR [LF]"
  "answer_status sample_config sample_files sample_thread sample_words = '' 200 OK''"
proof -
  have status: "answer_status sample_config sample_files t sample_words = '' 200 OK''" if "th_stack t = sample_stack" for t
  proof -
    have "(sample_files ''/srv/a.gif'' \<noteq> None) = True" by simp
    then show ?thesis unfolding answer_status_def that sample_request(3,4) by (simp only: sample_request(5))
  qed
  have "servable 2 (sk_text sample_stack) ''GIF89a''" by (simp add: servable_def)
  then show "asks sample_config sample_files 784111777 (sample_thread\<lparr>th_arrived := x, th_phase := y, th_sent := z\<rparr>)
      sample_words CR [LF]"
    using sample_request(1,2) unfolding asks_def new_thread_def
    by (auto simp: sample_request(3,4))
  show "answer_status sample_config sample_files sample_thread sample_words = '' 200 OK''"
    by (rule status) (simp add: new_thread_def)
qed

text \<open>The right answer to the request of the samples.\<close>

lemma sample_body:
  assumes "answers_request sample_config sample_files t sample_words s" and "th_stack t = sample_stack"
  shows "\<exists>head. read_head s = Some (''HTTP/1.0 200 OK'' # head, ''GIF89a'')"
proof -
  have "answer_status sample_config sample_files t sample_words = '' 200 OK''"
    using sample_thread_asks(2) assms(2) by (simp add: answer_status_def new_thread_def)
  with assms(1) obtain body where body: "answered_with sample_words '' 200 OK'' body s"
      "sample_files (target sample_config sample_words) = Some (regular body)"
    unfolding answers_request_def by auto
  from body(2) have "body = ''GIF89a''" unfolding sample_request(3) by (simp add: regular_def)
  with body(1) sample_request(6) have "\<exists>head. read_head s = Some ((rw_protocol sample_words @ '' 200 OK'') # head, ''GIF89a'')"
    unfolding answered_with_def by auto
  then show ?thesis by (simp add: sample_words_def)
qed

lemma sample_answer:
  obtains w where "handle_request sample_stack (Received (message sample_words CR [LF])) 5 sample_config
      (fresh_web sample_files 784111777) = Inr w" and "wb_out w \<noteq> []"
proof -
  have t: "th_stack sample_thread = sample_stack" "th_socket sample_thread = 5"
      "th_received sample_thread = Received (message sample_words CR [LF])" "th_sent sample_thread = []"
      "th_phase sample_thread = Starting" "th_arrived sample_thread = False"
    by (simp_all add: new_thread_def)
  have "asks sample_config sample_files 784111777 sample_thread sample_words CR [LF]"
    using sample_thread_asks(1) [where x = False and y = Starting and z = "[]"] by (simp add: new_thread_def)
  from asks_answered [OF this, unfolded t] obtain w where
    w: "handle_request sample_stack (Received (message sample_words CR [LF])) 5 sample_config
      (fresh_web sample_files 784111777) = Inr w" "answers_request sample_config sample_files sample_thread sample_words (wb_out w)"
    by blast
  have "wb_out w \<noteq> []" using sample_body [OF w(2) t(1)] by (auto simp: read_head.simps [of "[]"])
  with w(1) that show ?thesis by blast
qed

theorem every_browser_answered_witness:
  "\<exists>p t head. http_reach sample_config sample_files (process_start main_start 784111777) p
    \<and> t \<in> set (hp_threads p) \<and> th_phase t = Ended
    \<and> read_head (th_sent t) = Some (''HTTP/1.0 200 OK'' # head, ''GIF89a'')"
proof -
  obtain w where w: "handle_request sample_stack (Received (message sample_words CR [LF])) 5 sample_config
      (fresh_web sample_files 784111777) = Inr w" "wb_out w \<noteq> []" by (rule sample_answer)
  let ?p = "sample_run (wb_out w) 5"
  let ?t = "hp_threads ?p ! 0"
  have reach: "http_reach sample_config sample_files (process_start main_start 784111777) ?p"
    using execution_reach [OF sample_execution(1) [OF w], of 5] by (simp add: sample_run_def)
  have t: "?t \<in> set (hp_threads ?p)" "th_received ?t = Received (message sample_words CR [LF])"
      "th_stack ?t = sample_stack" "th_sent ?t = wb_out w" "th_phase ?t = Ended" "hp_now ?p = 784111777"
    by (simp_all add: sample_run_def new_thread_def sample_process_def)
  have files: "(Some (regular ''GIF89a'') \<noteq> None) = True" "sample_files ''/srv/a.gif'' = Some (regular ''GIF89a'')" by simp_all
  have serv: "servable 2 (sk_text sample_stack) ''GIF89a''" by (simp add: servable_def)
  obtain body where body: "answered_with sample_words '' 200 OK'' body (wb_out w)"
      "sample_files ''/srv/a.gif'' = Some (regular body)"
    using every_browser_answered [OF reach t(1,2), unfolded t(3-6), OF sample_request(1,2)] serv
    unfolding sample_request(3,4) files sample_request(5) by blast
  from body(2) have "body = ''GIF89a''" by (simp add: regular_def)
  with body(1) sample_request(6) have "\<exists>head. read_head (wb_out w) = Some ((rw_protocol sample_words @ '' 200 OK'') # head, ''GIF89a'')"
    unfolding answered_with_def by auto
  with reach t(1,4,5) show ?thesis by (force simp: sample_words_def)
qed

theorem every_request_gets_answer_witness:
  "\<exists>run. execution sample_config sample_files run \<and> run 0 = process_start main_start 784111777
    \<and> (\<exists>l head. th_phase (hp_threads (run l) ! 0) = Ended
        \<and> read_head (th_sent (hp_threads (run l) ! 0)) = Some (''HTTP/1.0 200 OK'' # head, ''GIF89a''))"
proof -
  obtain w where w: "handle_request sample_stack (Received (message sample_words CR [LF])) 5 sample_config
      (fresh_web sample_files 784111777) = Inr w" "wb_out w \<noteq> []" by (rule sample_answer)
  let ?run = "sample_run (wb_out w)"
  have run: "?run 0 = process_start main_start 784111777" "0 < length (hp_threads (?run 2))"
      "th_arrived (hp_threads (?run 2) ! 0)" "cf_max_connections sample_config < INT_MAX"
    and now: "hp_now (?run l) = 784111777" "hp_stop (?run l) = None" for l
    by (simp_all add: sample_run_def process_start_def sample_process_def sample_config_def)
  have "hp_threads (?run 2) ! 0 = sample_thread\<lparr>th_arrived := True, th_phase := Starting, th_sent := []\<rparr>"
    by (simp add: sample_run_def)
  then have "\<forall>l. asks sample_config sample_files (hp_now (?run l)) (hp_threads (?run 2) ! 0) sample_words CR [LF]"
    using sample_thread_asks(1) unfolding now by simp
  from every_request_gets_answer [OF sample_execution(1) [OF w] run(1,4,2,3) this sample_execution(2) [OF w]] obtain l where
    l: "2 \<le> l" "th_phase (hp_threads (?run l) ! 0) = Ended"
      "answers_request sample_config sample_files (hp_threads (?run l) ! 0) sample_words (th_sent (hp_threads (?run l) ! 0))"
    unfolding Let_def now by auto
  have "th_stack (hp_threads (?run l) ! 0) = sample_stack"
    using l(1) by (simp add: sample_run_def sample_process_def new_thread_def)
  from sample_body [OF l(3) this] l(2) run(1) sample_execution(1) [OF w] show ?thesis by blast
qed


theorem responses_cut_witness:
  "ends_with sample_config sample_files
    (sample_process\<lparr>hp_threads := [(new_thread 5 sample_stack (Received []))\<lparr>th_phase := Sending ''ab'', th_sent := ''HT''\<rparr>]\<rparr>)
    (Killed SIGPIPE) [''HT'']"
proof -
  let ?p = "sample_process\<lparr>hp_threads := [(new_thread 5 sample_stack (Received []))\<lparr>th_phase := Sending ''ab'', th_sent := ''HT''\<rparr>]\<rparr>"
  have "hp_stop ?p = None" "cf_max_connections sample_config < INT_MAX"
    by (simp_all add: sample_process_def sample_config_def)
  from responses_cut [OF this, of 0 "''ab''"] show ?thesis by simp
qed

end
