(* ===== verification/Http_Clock.thy ===== *)
theory Http_Clock
  imports Http_Date
begin

text \<open>
  \<open>get_current_date\<close> of \<open>C_Server/src/httpResponses.c\<close> when several threads of the server are in it:
  \<open>gmtime\<close> fills one structure that belongs to the whole process, and each thread copies it. What
  the Date headers can then say.
\<close>

section \<open>The threads and the structure they share\<close>

datatype tm_field = F_Sec | F_Min | F_Hour | F_Mday | F_Mon | F_Year | F_Wday

definition tm_fields :: "tm_field list" where
  "tm_fields = [F_Sec, F_Min, F_Hour, F_Mday, F_Mon, F_Year, F_Wday]"

fun tm_get :: "tm_field \<Rightarrow> tm \<Rightarrow> nat" where
  "tm_get F_Sec t = tm_sec t"
| "tm_get F_Min t = tm_min t"
| "tm_get F_Hour t = tm_hour t"
| "tm_get F_Mday t = tm_mday t"
| "tm_get F_Mon t = tm_mon t"
| "tm_get F_Year t = tm_year t"
| "tm_get F_Wday t = tm_wday t"

fun tm_set :: "tm_field \<Rightarrow> nat \<Rightarrow> tm \<Rightarrow> tm" where
  "tm_set F_Sec n t = t\<lparr>tm_sec := n\<rparr>"
| "tm_set F_Min n t = t\<lparr>tm_min := n\<rparr>"
| "tm_set F_Hour n t = t\<lparr>tm_hour := n\<rparr>"
| "tm_set F_Mday n t = t\<lparr>tm_mday := n\<rparr>"
| "tm_set F_Mon n t = t\<lparr>tm_mon := n\<rparr>"
| "tm_set F_Year n t = t\<lparr>tm_year := n\<rparr>"
| "tm_set F_Wday n t = t\<lparr>tm_wday := n\<rparr>"

text \<open>
  Where a thread is in \<open>get_current_date\<close>: before \<open>time\<close>, behind it, copying the structure with some
  fields to go, or behind \<open>sprintf\<close>. The order in which the fields are copied is the compiler's.
\<close>

datatype date_pc = D_Start | D_Timed | D_Copying "tm_field list" | D_Done "string res"

record date_thread =
  d_pc :: date_pc
  d_now :: nat
  d_tm :: tm

record date_process =
  dp_now :: nat
  dp_static :: tm
  dp_threads :: "date_thread list"

definition set_thread :: "nat \<Rightarrow> date_thread \<Rightarrow> date_process \<Rightarrow> date_process" where
  "set_thread i t p = p\<lparr>dp_threads := (dp_threads p)[i := t]\<rparr>"

text \<open>\<open>gmtime\<close> of the C library holds a lock while it fills the structure; the copy does not.\<close>

inductive date_step :: "date_process \<Rightarrow> date_process \<Rightarrow> bool" where
  asks: "i < length (dp_threads p) \<Longrightarrow> d_pc (dp_threads p ! i) = D_Start \<Longrightarrow>
    date_step p (set_thread i ((dp_threads p ! i)\<lparr>d_pc := D_Timed, d_now := dp_now p\<rparr>) p)"
| converts: "i < length (dp_threads p) \<Longrightarrow> d_pc (dp_threads p ! i) = D_Timed \<Longrightarrow>
    date_step p (set_thread i ((dp_threads p ! i)\<lparr>d_pc := D_Copying tm_fields\<rparr>)
      (p\<lparr>dp_static := gmtime (d_now (dp_threads p ! i))\<rparr>))"
| copies: "i < length (dp_threads p) \<Longrightarrow> d_pc (dp_threads p ! i) = D_Copying fs \<Longrightarrow> f \<in> set fs \<Longrightarrow>
    date_step p (set_thread i ((dp_threads p ! i)\<lparr>d_pc := D_Copying (removeAll f fs),
      d_tm := tm_set f (tm_get f (dp_static p)) (d_tm (dp_threads p ! i))\<rparr>) p)"
| formats: "i < length (dp_threads p) \<Longrightarrow> d_pc (dp_threads p ! i) = D_Copying [] \<Longrightarrow>
    date_step p (set_thread i ((dp_threads p ! i)\<lparr>d_pc := D_Done (date_line (d_tm (dp_threads p ! i)))\<rparr>) p)"
| ticks: "date_step p (p\<lparr>dp_now := dp_now p + n\<rparr>)"

inductive date_reach :: "date_process \<Rightarrow> date_process \<Rightarrow> bool" for p0 where
  start: "date_reach p0 p0"
| step: "date_reach p0 p \<Longrightarrow> date_step p p1 \<Longrightarrow> date_reach p0 p1"

definition tm_zero :: tm where
  "tm_zero = \<lparr>tm_year = 0, tm_mon = 0, tm_mday = 0, tm_hour = 0, tm_min = 0, tm_sec = 0, tm_wday = 0\<rparr>"

text \<open>So many requests, none of which has a date yet; nothing has been asked of the clock.\<close>

definition date_start :: "nat \<Rightarrow> nat \<Rightarrow> date_process" where
  "date_start n now = \<lparr>dp_now = now, dp_static = tm_zero,
     dp_threads = replicate n \<lparr>d_pc = D_Start, d_now = 0, d_tm = tm_zero\<rparr>\<rparr>"

section \<open>Fields\<close>

lemma tm_get_set [simp]: "tm_get f (tm_set g n t) = (if f = g then n else tm_get f t)"
  by (cases f; cases g) simp_all

lemma tm_eqI: "(\<And>f. tm_get f s = tm_get f t) \<Longrightarrow> s = t"
  by (metis tm.equality tm_get.simps old.unit.exhaust)

lemma all_fields [simp]: "f \<in> set tm_fields" "distinct tm_fields"
  by (cases f) (simp_all add: tm_fields_def)

section \<open>Every field is one of a time of the run\<close>

definition field_seen :: "nat \<Rightarrow> nat \<Rightarrow> tm_field \<Rightarrow> tm \<Rightarrow> bool" where
  "field_seen a b f t \<longleftrightarrow> (\<exists>u. a \<le> u \<and> u \<le> b \<and> tm_get f t = tm_get f (gmtime u))"

definition thread_seen :: "nat \<Rightarrow> nat \<Rightarrow> tm \<Rightarrow> date_thread \<Rightarrow> bool" where
  "thread_seen a b static t \<longleftrightarrow>
     (case d_pc t of
        D_Start \<Rightarrow> True
      | D_Timed \<Rightarrow> a \<le> d_now t \<and> d_now t \<le> b
      | D_Copying fs \<Rightarrow> (\<forall>f. field_seen a b f static) \<and> (\<forall>f. f \<notin> set fs \<longrightarrow> field_seen a b f (d_tm t))
      | D_Done r \<Rightarrow> r = date_line (d_tm t) \<and> (\<forall>f. field_seen a b f (d_tm t)))"

definition date_inv :: "nat \<Rightarrow> date_process \<Rightarrow> bool" where
  "date_inv a p \<longleftrightarrow> a \<le> dp_now p \<and> (\<forall>t \<in> set (dp_threads p). thread_seen a (dp_now p) (dp_static p) t)"

lemma field_seen_later: "field_seen a b f t \<Longrightarrow> b \<le> c \<Longrightarrow> field_seen a c f t"
  unfolding field_seen_def by (meson order_trans)

lemma thread_seen_later: "thread_seen a b static t \<Longrightarrow> thread_seen a (b + n) static t"
  using field_seen_later [of a b _ _ "b + n"] by (auto simp: thread_seen_def split: date_pc.splits)

text \<open>A conversion makes the structure one of a time of the run, for whoever is copying it.\<close>

lemma thread_seen_converted:
  "thread_seen a b static t \<Longrightarrow> (\<And>f. field_seen a b f static1) \<Longrightarrow> thread_seen a b static1 t"
  by (auto simp: thread_seen_def split: date_pc.splits)

lemma date_inv_set:
  "date_inv a p \<Longrightarrow> thread_seen a (dp_now p) (dp_static p) t \<Longrightarrow> date_inv a (set_thread i t p)"
  by (auto simp: date_inv_def set_thread_def dest: set_update_subset_insert [THEN subsetD])

lemma date_step_inv:
  assumes "date_step p p1" and "date_inv a p"
  shows "date_inv a p1"
  using assms(1)
proof (cases rule: date_step.cases)
  case (asks i)
  show ?thesis unfolding asks(1)
    by (rule date_inv_set [OF assms(2)]) (use assms(2) in \<open>simp add: thread_seen_def date_inv_def\<close>)
next
  case (converts i)
  let ?t = "dp_threads p ! i"
  have "thread_seen a (dp_now p) (dp_static p) ?t" using assms(2) converts(2) by (simp add: date_inv_def)
  then have now: "field_seen a (dp_now p) f (gmtime (d_now ?t))" for f
    using converts(3) by (auto simp: thread_seen_def field_seen_def)
  have "date_inv a (p\<lparr>dp_static := gmtime (d_now ?t)\<rparr>)"
    using assms(2) thread_seen_converted [OF _ now] by (auto simp: date_inv_def)
  then show ?thesis unfolding converts(1)
    by (rule date_inv_set) (simp add: thread_seen_def now)
next
  case (copies i fs f)
  have "thread_seen a (dp_now p) (dp_static p) (dp_threads p ! i)" using assms(2) copies(2) by (simp add: date_inv_def)
  then show ?thesis unfolding copies(1) using copies(3)
    by (intro date_inv_set [OF assms(2)]) (auto simp: thread_seen_def field_seen_def)
next
  case (formats i)
  have "thread_seen a (dp_now p) (dp_static p) (dp_threads p ! i)" using assms(2) formats(2) by (simp add: date_inv_def)
  then show ?thesis unfolding formats(1) using formats(3)
    by (intro date_inv_set [OF assms(2)]) (simp add: thread_seen_def)
next
  case (ticks n)
  then show ?thesis using assms(2) thread_seen_later by (simp add: date_inv_def)
qed

lemma date_reach_inv: "date_reach (date_start n a) p \<Longrightarrow> date_inv a p"
proof (induction rule: date_reach.induct)
  case start
  then show ?case by (simp add: date_inv_def date_start_def thread_seen_def)
qed (rule date_step_inv)

section \<open>A run of two threads\<close>

definition two_threads :: "nat \<Rightarrow> tm \<Rightarrow> date_thread \<Rightarrow> date_thread \<Rightarrow> date_process" where
  "two_threads now st t0 t1 = \<lparr>dp_now = now, dp_static = st, dp_threads = [t0, t1]\<rparr>"

lemma two_threads_simps [simp]:
  "dp_now (two_threads now st t0 t1) = now" "dp_static (two_threads now st t0 t1) = st"
  "dp_threads (two_threads now st t0 t1) = [t0, t1]"
  "set_thread 0 t (two_threads now st t0 t1) = two_threads now st t t1"
  "set_thread (Suc 0) t (two_threads now st t0 t1) = two_threads now st t0 t"
  "(two_threads now st t0 t1)\<lparr>dp_static := st1\<rparr> = two_threads now st1 t0 t1"
  "(two_threads now st t0 t1)\<lparr>dp_now := now1\<rparr> = two_threads now1 st t0 t1"
  by (simp_all add: two_threads_def set_thread_def)

lemma two_steps:
  "d_pc t0 = D_Start \<Longrightarrow> date_step (two_threads now st t0 t1) (two_threads now st (t0\<lparr>d_pc := D_Timed, d_now := now\<rparr>) t1)"
  "d_pc t1 = D_Start \<Longrightarrow> date_step (two_threads now st t0 t1) (two_threads now st t0 (t1\<lparr>d_pc := D_Timed, d_now := now\<rparr>))"
  "d_pc t0 = D_Timed \<Longrightarrow> date_step (two_threads now st t0 t1) (two_threads now (gmtime (d_now t0)) (t0\<lparr>d_pc := D_Copying tm_fields\<rparr>) t1)"
  "d_pc t1 = D_Timed \<Longrightarrow> date_step (two_threads now st t0 t1) (two_threads now (gmtime (d_now t1)) t0 (t1\<lparr>d_pc := D_Copying tm_fields\<rparr>))"
  "d_pc t0 = D_Copying fs \<Longrightarrow> f \<in> set fs \<Longrightarrow> date_step (two_threads now st t0 t1)
    (two_threads now st (t0\<lparr>d_pc := D_Copying (removeAll f fs), d_tm := tm_set f (tm_get f st) (d_tm t0)\<rparr>) t1)"
  "d_pc t0 = D_Copying [] \<Longrightarrow> date_step (two_threads now st t0 t1) (two_threads now st (t0\<lparr>d_pc := D_Done (date_line (d_tm t0))\<rparr>) t1)"
  using date_step.asks [of 0 "two_threads now st t0 t1"] date_step.asks [of 1 "two_threads now st t0 t1"]
    date_step.converts [of 0 "two_threads now st t0 t1"] date_step.converts [of 1 "two_threads now st t0 t1"]
    date_step.copies [of 0 "two_threads now st t0 t1"] date_step.formats [of 0 "two_threads now st t0 t1"]
  by simp_all

lemma two_ticks: "now \<le> now1 \<Longrightarrow> date_step (two_threads now st t0 t1) (two_threads now1 st t0 t1)"
  using date_step.ticks [of "two_threads now st t0 t1" "now1 - now"] by simp

text \<open>Thread 0 copies some fields while nobody else moves.\<close>

lemma copy_run:
  assumes "date_reach p0 (two_threads now st t0 t1)" and "d_pc t0 = D_Copying gs" and "set fs \<subseteq> set gs"
    and "distinct fs"
  shows "\<exists>t. date_reach p0 (two_threads now st t t1) \<and> d_pc t = D_Copying (filter (\<lambda>f. f \<notin> set fs) gs) \<and> d_now t = d_now t0
    \<and> (\<forall>f. tm_get f (d_tm t) = tm_get f (if f \<in> set fs then st else d_tm t0))"
  using assms
proof (induction fs arbitrary: t0 gs)
  case Nil
  then show ?case by (intro exI [of _ t0]) simp
next
  case (Cons g fs)
  let ?t = "t0\<lparr>d_pc := D_Copying (removeAll g gs), d_tm := tm_set g (tm_get g st) (d_tm t0)\<rparr>"
  have "date_reach p0 (two_threads now st ?t t1)"
    using Cons.prems by (intro date_reach.step [OF Cons.prems(1)] two_steps(5)) auto
  from Cons.IH [OF this, of "removeAll g gs"] Cons.prems(3,4) obtain t where
    t: "date_reach p0 (two_threads now st t t1)" "d_pc t = D_Copying (filter (\<lambda>f. f \<notin> set fs) (removeAll g gs))"
      "d_now t = d_now t0" "\<forall>f. tm_get f (d_tm t) = tm_get f (if f \<in> set fs then st else d_tm ?t)" by auto
  moreover have "filter (\<lambda>f. f \<notin> set fs) (removeAll g gs) = filter (\<lambda>f. f \<notin> set (g # fs)) gs"
    by (auto simp: removeAll_filter_not_eq intro: filter_cong)
  ultimately show ?case by (intro exI [of _ t]) auto
qed

lemma copy_part:
  assumes "date_reach p0 (two_threads now st t0 t1)" and "d_pc t0 = D_Copying gs" and "distinct gs"
  shows "\<exists>t. date_reach p0 (two_threads now st t t1) \<and> d_pc t = D_Copying (filter (\<lambda>f. f \<notin> F) gs) \<and> d_now t = d_now t0
    \<and> (\<forall>f. tm_get f (d_tm t) = tm_get f (if f \<in> F \<and> f \<in> set gs then st else d_tm t0))"
proof -
  let ?fs = "filter (\<lambda>f. f \<in> F) gs"
  have rest: "filter (\<lambda>f. \<not> (f \<in> F \<and> f \<in> set gs)) gs = filter (\<lambda>f. f \<notin> F) gs" by (intro filter_cong) auto
  have mem: "f \<in> set ?fs \<longleftrightarrow> f \<in> F \<and> f \<in> set gs" for f by auto
  have "set ?fs \<subseteq> set gs" "distinct ?fs" using assms(3) by auto
  from copy_run [OF assms(1,2) this] show ?thesis unfolding mem rest .
qed

text \<open>Thread 0 copies some fields, thread 1 converts a later time, thread 0 copies the others.\<close>

lemma mixed_run:
  assumes "a \<le> u" and "u \<le> v"
  shows "\<exists>p t t1 x. date_reach (date_start 2 a) p \<and> dp_threads p = [t, t1] \<and> d_pc t = D_Done (date_line x)
    \<and> d_now t = u \<and> (\<forall>f. tm_get f x = tm_get f (gmtime (if f \<in> F then u else v)))"
proof -
  let ?fresh = "\<lparr>d_pc = D_Start, d_now = 0, d_tm = tm_zero\<rparr>"
  let ?copying = "\<lambda>n. ?fresh\<lparr>d_pc := D_Copying tm_fields, d_now := n\<rparr>"
  have "date_start 2 a = two_threads a tm_zero ?fresh ?fresh"
    by (simp add: date_start_def two_threads_def numeral_2_eq_2)
  then have "date_reach (date_start 2 a) (two_threads a tm_zero ?fresh ?fresh)" using date_reach.start by metis
  from date_reach.step [OF date_reach.step [OF date_reach.step [OF this two_ticks [OF assms(1)]] two_steps(1)] two_steps(3)]
  have "date_reach (date_start 2 a) (two_threads u (gmtime u) (?copying u) ?fresh)" by simp
  from copy_part [OF this, of tm_fields F] obtain t where
    t: "date_reach (date_start 2 a) (two_threads u (gmtime u) t ?fresh)" "d_pc t = D_Copying (filter (\<lambda>f. f \<notin> F) tm_fields)"
      "d_now t = u" "\<forall>f. f \<in> F \<longrightarrow> tm_get f (d_tm t) = tm_get f (gmtime u)" by auto
  from date_reach.step [OF date_reach.step [OF date_reach.step [OF t(1) two_ticks [OF assms(2)]] two_steps(2)] two_steps(4)]
  have "date_reach (date_start 2 a) (two_threads v (gmtime v) t (?copying v))" by simp
  from copy_part [OF this t(2), of "- F"] obtain t1 where
    t1: "date_reach (date_start 2 a) (two_threads v (gmtime v) t1 (?copying v))" "d_pc t1 = D_Copying []" "d_now t1 = u"
      "\<forall>f. tm_get f (d_tm t1) = tm_get f (if f \<notin> F then gmtime v else d_tm t)" using t(3) by auto
  have "tm_get f (d_tm t1) = tm_get f (gmtime (if f \<in> F then u else v))" for f
    using t1(4) t(4) by (cases "f \<in> F") auto
  moreover note date_reach.step [OF t1(1) two_steps(6) [OF t1(2)]]
  ultimately show ?thesis using t1(3)
    by (intro exI [of _ "two_threads v (gmtime v) (t1\<lparr>d_pc := D_Done (date_line (d_tm t1))\<rparr>) (?copying v)"]) auto
qed

section \<open>Properties\<close>

text \<open>The fields of the date depend on the day only.\<close>

lemma same_day:
  assumes "u div 86400 = v div 86400" and "f \<in> {F_Mday, F_Mon, F_Year, F_Wday}"
  shows "tm_get f (gmtime u) = tm_get f (gmtime v)"
  using assms by (auto simp: gmtime_def Let_def split: prod.split)

text \<open>
  C26. Under every interleaving of the threads, each field of the Date header a thread makes is
  that of a moment between the start and now, though not always of the same moment. So the
  header is right when no second has passed meanwhile, and names the right day when the
  run lies within a day.
\<close>

theorem shared_date_fields:
  assumes "date_reach (date_start n a) p" and "t \<in> set (dp_threads p)" and "d_pc t = D_Done r"
  shows "\<exists>x. r = date_line x
    \<and> (\<forall>f. \<exists>u. a \<le> u \<and> u \<le> dp_now p \<and> tm_get f x = tm_get f (gmtime u))
    \<and> (dp_now p = a \<longrightarrow> r = get_current_date a)
    \<and> (dp_now p div 86400 = a div 86400 \<longrightarrow>
        (\<forall>f \<in> {F_Mday, F_Mon, F_Year, F_Wday}. tm_get f x = tm_get f (gmtime a)))"
proof -
  have "thread_seen a (dp_now p) (dp_static p) t"
    using date_reach_inv [OF assms(1)] assms(2) by (simp add: date_inv_def)
  then have t: "r = date_line (d_tm t)"
      "\<forall>f. \<exists>u. a \<le> u \<and> u \<le> dp_now p \<and> tm_get f (d_tm t) = tm_get f (gmtime u)"
    using assms(3) by (simp_all add: thread_seen_def field_seen_def)
  have now: "d_tm t = gmtime a" if "dp_now p = a" using t(2) that by (intro tm_eqI) (metis order_antisym)
  have day: "tm_get f (d_tm t) = tm_get f (gmtime a)"
    if "dp_now p div 86400 = a div 86400" "f \<in> {F_Mday, F_Mon, F_Year, F_Wday}" for f
  proof -
    obtain u where u: "a \<le> u" "u \<le> dp_now p" "tm_get f (d_tm t) = tm_get f (gmtime u)" using t(2) by blast
    then have "u div 86400 = a div 86400" using that(1) div_le_mono [of a u 86400] div_le_mono [of u "dp_now p" 86400] by simp
    with same_day [OF this that(2)] u(3) show ?thesis by simp
  qed
  show ?thesis
    using t now day by (intro exI [of _ "d_tm t"]) (auto simp: get_current_date_def)
qed

text \<open>
  C35. The threads do overwrite each other's time: for any two times of a run and any set of fields, a
  thread can send a Date header that has these fields from the first and the others from the second.
\<close>

theorem dates_mix:
  assumes "a \<le> u" and "u \<le> v"
  shows "\<exists>p x. date_reach (date_start 2 a) p \<and> d_pc (dp_threads p ! 0) = D_Done (date_line x)
    \<and> d_now (dp_threads p ! 0) = u \<and> (\<forall>f. tm_get f x = tm_get f (gmtime (if f \<in> F then u else v)))"
proof -
  obtain p t t1 x where "date_reach (date_start 2 a) p" "dp_threads p = [t, t1]" "d_pc t = D_Done (date_line x)"
    "d_now t = u" "\<forall>f. tm_get f x = tm_get f (gmtime (if f \<in> F then u else v))"
    using mixed_run [OF assms] by blast
  then show ?thesis by (intro exI [of _ p] exI [of _ x]) simp
qed

text \<open>One second before midnight the header can be a day ahead.\<close>

theorem dates_mix_witness:
  "\<exists>p. date_reach (date_start 2 784166399) p
    \<and> d_pc (dp_threads p ! 0) = D_Done (Inr (''Date: Mon, 07 Nov 1994 23:59:59 GMT'' @ CRLF))
    \<and> get_current_date 784166399 = Inr (''Date: Sun, 06 Nov 1994 23:59:59 GMT'' @ CRLF)"
proof -
  have d: "year_loop 1970 9075 = (1994, 309)" "year_loop 1970 9076 = (1994, 310)"
    "month_loop (month_days 1994) 0 309 = (10, 5)" "month_loop (month_days 1994) 0 310 = (10, 6)"
    by (simp_all add: year_loop.simps year_days_def leap_def month_days_def)
  obtain p x where p: "date_reach (date_start 2 784166399) p" "d_pc (dp_threads p ! 0) = D_Done (date_line x)"
    and x: "\<forall>f. tm_get f x = tm_get f (gmtime (if f \<in> {F_Sec, F_Min, F_Hour} then 784166399 else 784166400))"
    using dates_mix [of 784166399 784166399 784166400 "{F_Sec, F_Min, F_Hour}"] by auto
  let ?mix = "\<lparr>tm_year = 1994, tm_mon = 10, tm_mday = 7, tm_hour = 23, tm_min = 59, tm_sec = 59, tm_wday = 1\<rparr>"
  have "tm_get f x = tm_get f ?mix" for f
    using d spec [OF x, of f] by (cases f) (simp_all add: gmtime_def)
  then have "x = ?mix" by (rule tm_eqI)
  then have "date_line x = Inr (''Date: Mon, 07 Nov 1994 23:59:59 GMT'' @ CRLF)"
    by (simp add: date_line_def http_date_def two_def day_names_def month_names_def show_nat.simps)
  moreover have "get_current_date 784166399 = Inr (''Date: Sun, 06 Nov 1994 23:59:59 GMT'' @ CRLF)"
    using d by (simp add: get_current_date_def date_line_def gmtime_def http_date_def two_def day_names_def
        month_names_def show_nat.simps)
  ultimately show ?thesis using p by auto
qed

theorem shared_date_fields_witness:
  "\<exists>p t x. date_reach (date_start 2 0) p \<and> t \<in> set (dp_threads p) \<and> d_pc t = D_Done (date_line x)
    \<and> (\<exists>u. u \<le> dp_now p \<and> tm_mday x = tm_mday (gmtime u))"
proof -
  obtain p s0 s1 x where p: "date_reach (date_start 2 0) p" "dp_threads p = [s0, s1]" "d_pc s0 = D_Done (date_line x)"
    using mixed_run [of 0 0 0 UNIV] by blast
  then have t: "s0 \<in> set (dp_threads p)" by simp
  from shared_date_fields [OF p(1) t p(3)] obtain y where y: "date_line x = date_line y"
      "\<forall>f. \<exists>u. 0 \<le> u \<and> u \<le> dp_now p \<and> tm_get f y = tm_get f (gmtime u)" by blast
  from y(2) have "\<exists>u. u \<le> dp_now p \<and> tm_mday y = tm_mday (gmtime u)" by (metis tm_get.simps(4))
  with p t y(1) show ?thesis by metis
qed

end
