(* ===== verification/Spec2Isabelle.thy ===== *)
theory Spec2Isabelle
  imports Shell_Session Shell_Programs Chat_Demo Chat_Service Http_Threads Http_Clock
begin

text \<open>
  The C programs of the repository: a command line shell, a chat service and an HTTP server. The
  three share no code. Each is modelled from its source, function by function, and each
  group of lemmas ends in the properties of the component; theorems that join components are in
  the theories that import them.

  How C is modelled. \<open>Prelude\<close> has the outcome of a call: a value, or a reason why the caller never
  gets control back (undefined behaviour with its kind, \<open>exit\<close>, a signal, a call that never returns),
  sequenced by \<open>rbind\<close>; \<open>safe\<close> says that an outcome is not undefined behaviour; \<open>for_range\<close> is the
  counting loop. \<open>CLib\<close> has the part of the C library the programs use: strings in arrays, \<open>strtok\<close>,
  \<open>atoi\<close>, decimal text, \<open>strncpy\<close>, and arrays whose bytes may be unwritten. A structure is a record, a
  counter that may overflow is an integer with its bound checked, status words, ports and terminal
  flags are words. An operation that changes state takes and returns it. System calls are functions
  on a record of what the program can see of the system; what the environment decides (what a fork
  gives, what a child reports, who reads a FIFO, what arrives on a socket) is data of that record or
  an argument.

  The shell (\<open>Unix_Command_Line_Shell\<close>). \<open>Shell_Util\<close>: \<open>parse_into_tokens\<close> of \<open>util.c\<close>, shown equal to a
  splitter into words. \<open>Shell_Read\<close>: \<open>read_all\<close> of \<open>cmd.c\<close>, with the doubling buffers. \<open>Shell_World\<close>: fork,
  pipe, waitpid, with children as lists of the events polls of them see. \<open>Shell_Cmd\<close>: the \<open>cmd_t\<close>
  operations and the life of one job. \<open>Shell_Ctl\<close>: the table \<open>cmdctl_t\<close>, an instance of the locale
  \<open>bounded_table\<close> of \<open>Bounded_Table\<close>, refinement to a list of jobs, and that everything is freed once.
  \<open>Shell_Main\<close>: \<open>main\<close> of \<open>commando.c\<close> with every builtin, the states its loop reaches, and that a
  turn on a line it can handle has no undefined behaviour. \<open>Shell_Session\<close>: a dialogue of three lines,
  from the input to the output, through the turns of the loop and the life of the job.
  \<open>Shell_Programs\<close>: \<open>sleep_print.c\<close>, and the shell running it.

  The chat service (\<open>Unix_Chat_Service\<close>). \<open>Chat_Types\<close>: the structures of \<open>blather.h\<close>. \<open>Chat_Simpio\<close>:
  the line editor of \<open>simpio.c\<close>, a refinement of a function on the typed text, and \<open>iprintf\<close>.
  \<open>Chat_Terminal\<close>: its two functions that switch the terminal. \<open>Chat_Client\<close>: \<open>bl-client.c\<close>, its two
  threads as interleaved steps, one for each call of the editor, \<open>iprintf\<close>, \<open>read\<close> or \<open>write\<close>, and what
  it sends under every interleaving. \<open>Chat_Server\<close>: every
  operation of \<open>server.c\<close>; the array of clients is an instance of \<open>bounded_table_remove\<close>. A broadcast
  that \<open>SIGPIPE\<close> ends has no state of the server behind it; \<open>delivered\<close> is what it has written by then. The
  copy of a newcomer's name is longer than its array: \<open>put_name\<close> follows the layout of the
  structure, where the bytes behind the name fall into the body, and \<open>put_name_strict\<close> is the letter of the
  standard, where every such copy is undefined; \<open>server_handle_join\<close> and \<open>server_handle_join_strict\<close> are the
  same code over the one and the other. \<open>Chat_Room\<close>: the
  loop of \<open>bl-server.c\<close> with the steps of its environment, safety of every reachable state in both
  readings, and the
  effect of messages, joins, departures and shutdown. \<open>Chat_System\<close>: from the keys typed at one client
  to what the others display, when \<open>iprintf\<close> has room for it (\<open>fits\<close>) and to what it does otherwise, from the start of a client to its entry of the room, and the shape of
  everything the programs write to each other. \<open>Chat_Program\<close>: \<open>main\<close> of the client from its arguments
  to its end, with a server that may go, and the two functions of \<open>util.c\<close> that nothing calls.
  \<open>Chat_Order\<close>: what a chat room is, as a history of entries, messages and departures each told to
  all members of the moment, and that the server is one for any clients; from this the
  order in which clients receive messages. \<open>Chat_Service\<close>: the server and any number of client programs
  joined by their FIFOs, what of each user's session the room has taken, and what each user sees.
  \<open>Chat_Demo\<close>: \<open>simpio-demo.c\<close>, what its terminal shows under every schedule of its two threads.

  The HTTP server (\<open>C_Server/src\<close>). \<open>Http_Config\<close>: \<open>populate_config\<close>, with the repository's own
  configuration file evaluated. \<open>Http_Request\<close>: \<open>populate_request\<close>, \<open>file_type\<close>, \<open>get_query_string\<close>. \<open>Http_Date\<close>:
  the Date header and the calendar of \<open>gmtime\<close>. \<open>Http_Response\<close>: all responses of \<open>httpResponses.c\<close>;
  the eight pairs of hard-coded ones are interpretations of the locale \<open>error_response\<close>. \<open>Http_Server\<close>:
  \<open>handle_request\<close> and \<open>main\<close> of \<open>server.c\<close>, with a request of either protocol followed from the bytes received
  to the bytes sent. \<open>Http_Threads\<close>: the process with its threads in every interleaving: \<open>recv\<close> waits until
  something arrives, \<open>write\<close> takes any number of bytes or none, browsers may go, and an \<open>accept_turn\<close> without a
  value would stop the process; the only causes of its end; and, over infinite executions that are fair to a
  thread, that a good request is answered. \<open>Http_Clock\<close>: the threads inside \<open>get_current_date\<close>, with the structure of \<open>gmtime\<close>
  that belongs to all of them. A thread decides on its response in one step and sends it in
  pieces; the threads share the configuration and the files, which no code writes. This program reads bytes of its stack it never wrote: they are arguments of the model
  (\<open>stack_bytes\<close>), so that the theorems say what depends on them, instead of calling
  every request undefined.

  Loops and bounds. Loops over indices are \<open>for_range\<close> or structural recursion; the reading loops and
  the main loops decrease with the input left, which their termination proofs use. The only
  bound supplied from outside is that of the polls of a blocking \<open>waitpid\<close>: the number of events
  its children have left plus one, after which no further poll can report anything
  (\<open>wait_poll_blocked_iff\<close>). The loop of the chat server that takes events for ever is an inductive
  reachability relation (\<open>chat_reach\<close>; \<open>chat_run\<close> also has what the clients wrote), as are the states of the programs with
  threads (\<open>client_reach\<close>, \<open>program_reach\<close>, \<open>http_reach\<close>, \<open>date_reach\<close>) and of the chat service (\<open>service_reach\<close>), and the loop that accepts connections runs on the list of connections that come; the
  executions of the HTTP server are infinite sequences of states, along which what a thread has left to send
  (\<open>phase_left\<close>) decreases. Dates are taken before the year 9994 and bodies below 2 to the 63.

  Not modelled: the Java application, which is another language; the test programs of the shell,
  which call its functions and compare texts; failures of allocation and of \<open>pipe\<close>; a \<open>write\<close> that takes a
  part of its bytes and returns, which the code does not check for; the reuse of descriptor numbers;
  threads inside one line of the client's C code; the mixing of log lines by the threads of the HTTP
  server, and the clock while a response is made (\<open>Http_Clock\<close> has it for the date alone); a process number
  that is used again while the FIFOs of its first owner are in use; a copy of \<open>sleep_print.c\<close> that does not compile. The
  functions the headers mark ADVANCED are declared there and defined nowhere.
\<close>

end
